(* ===== verification/Kmc_Prelude.thy ===== *)
theory Kmc_Prelude
  imports Main "HOL-Library.Word" "HOL-Library.Monad_Syntax"
begin

text \<open>
  Shared vocabulary of the development: the machine types of the Rust sources, the byte-order
  conversions of \<^verbatim>\<open>core::num\<close>, the slice writes and the ordered map the components use, and the two
  contracts (a fixed-width codec, a state machine with an invariant) that several components
  implement. A Rust \<^verbatim>\<open>usize\<close> is a \<^typ>\<open>nat\<close>: every size computed in the modelled code stays far below
  \<^term>\<open>(2::nat) ^ 64\<close>. A fixed-width field is a word and wraps as a release build does. A panic
  (out-of-range slice, division by zero, index out of bounds) is \<^term>\<open>None\<close>.
\<close>

unbundle bit_operations_syntax

section \<open>Machine types\<close>

type_synonym u8 = "8 word"
type_synonym u16 = "16 word"
type_synonym u32 = "32 word"
type_synonym u64 = "64 word"
type_synonym bytes = "u8 list"

text \<open>An \<^verbatim>\<open>Instant\<close> or \<^verbatim>\<open>Duration\<close> is a number of nanoseconds on a monotone clock.\<close>

type_synonym instant = int

abbreviation millis :: "int \<Rightarrow> instant" where
  "millis n \<equiv> n * 1000000"

named_theorems byte_order \<open>byte-order round trips\<close>
named_theorems wire_simps \<open>characteristic equations of the wire formats\<close>

section \<open>Integer operations of the Rust core library\<close>

definition div_ceil :: "nat \<Rightarrow> nat \<Rightarrow> nat" where
  "div_ceil a b = (a + b - 1) div b"

definition clamp_nat :: "nat \<Rightarrow> nat \<Rightarrow> nat \<Rightarrow> nat" where
  "clamp_nat lo hi x = (if x < lo then lo else if x > hi then hi else x)"

definition word_saturating_sub :: "'a::len word \<Rightarrow> 'a word \<Rightarrow> 'a word" where
  "word_saturating_sub a b = (if b \<le> a then a - b else 0)"

lemma clamp_nat_bounds [simp]:
  "lo \<le> hi \<Longrightarrow> lo \<le> clamp_nat lo hi x"
  "lo \<le> hi \<Longrightarrow> clamp_nat lo hi x \<le> hi"
  by (auto simp: clamp_nat_def)

lemma div_ceil_mult_ge: "0 < b \<Longrightarrow> a \<le> div_ceil a b * b"
proof -
  assume b: "0 < b"
  have "a + b - 1 = (a + b - 1) div b * b + (a + b - 1) mod b" by simp
  moreover have "(a + b - 1) mod b < b" using b by simp
  ultimately show ?thesis unfolding div_ceil_def using b by linarith
qed

lemma div_ceil_pred_less: "0 < b \<Longrightarrow> 0 < a \<Longrightarrow> (div_ceil a b - 1) * b < a"
proof -
  assume b: "0 < b" and a: "0 < a"
  have "(a + b - 1) div b = (a - 1) div b + 1"
  proof -
    have "a + b - 1 = (a - 1) + b" using a by simp
    then show ?thesis using b by (metis add.commute div_add_self2 less_not_refl)
  qed
  then have "(div_ceil a b - 1) * b = (a - 1) div b * b" by (simp add: div_ceil_def)
  also have "\<dots> \<le> a - 1" by simp
  finally show ?thesis using a by simp
qed

lemma div_ceil_pos: "0 < b \<Longrightarrow> 0 < a \<Longrightarrow> 0 < div_ceil a b"
  using div_ceil_mult_ge[of b a] by (cases "div_ceil a b") auto

section \<open>Results\<close>

text \<open>
  \<^verbatim>\<open>unwrap_or\<close>; \<^verbatim>\<open>?\<close> on a \<^verbatim>\<open>Result\<close>, which is a sum with the error on the left; and the same in code that
  threads a state.
\<close>

definition or_default :: "'a \<Rightarrow> 'a option \<Rightarrow> 'a" where
  "or_default d x = (case x of Some v \<Rightarrow> v | None \<Rightarrow> d)"

definition bindE :: "'e + 'a \<Rightarrow> ('a \<Rightarrow> 'e + 'b) \<Rightarrow> 'e + 'b" where
  "bindE r f = (case r of Inl e \<Rightarrow> Inl e | Inr x \<Rightarrow> f x)"

definition ok_or :: "'e \<Rightarrow> 'a option \<Rightarrow> 'e + 'a" where
  "ok_or e x = (case x of None \<Rightarrow> Inl e | Some v \<Rightarrow> Inr v)"

type_synonym ('e, 'a, 's) state_result = "'s \<Rightarrow> ('e + 'a) \<times> 's"

definition se_bind :: "('e, 'a, 's) state_result \<Rightarrow> ('a \<Rightarrow> ('e, 'b, 's) state_result) \<Rightarrow> ('e, 'b, 's) state_result" where
  "se_bind m f = (\<lambda>s. case m s of (Inl e, s1) \<Rightarrow> (Inl e, s1) | (Inr x, s1) \<Rightarrow> f x s1)"

definition se_return :: "'a \<Rightarrow> ('e, 'a, 's) state_result" where
  "se_return x = (\<lambda>s. (Inr x, s))"

definition se_lift :: "'e + 'a \<Rightarrow> ('e, 'a, 's) state_result" where
  "se_lift r = (\<lambda>s. (r, s))"

lemma bindE_simps [simp]: "bindE (Inl e) f = Inl e" "bindE (Inr x) f = f x"
  by (simp_all add: bindE_def)

lemma ok_or_simps [simp]: "ok_or e None = Inl e" "ok_or e (Some x) = Inr x"
  by (simp_all add: ok_or_def)

lemma or_default_simps [simp]: "or_default d None = d" "or_default d (Some x) = x"
  by (simp_all add: or_default_def)

lemma bindE_Inr: "bindE r f = Inr y \<longleftrightarrow> (\<exists>x. r = Inr x \<and> f x = Inr y)"
  by (cases r) auto

lemma ok_or_Inr [simp]: "ok_or e x = Inr y \<longleftrightarrow> x = Some y"
  by (cases x) auto

lemma se_bind_Inr: "m s = (Inr x, s1) \<Longrightarrow> se_bind m f s = f x s1"
  and se_bind_Inl: "m s = (Inl e, s1) \<Longrightarrow> se_bind m f s = (Inl e, s1)"
  and se_bind_lift [simp]: "se_bind (se_lift (Inr x)) f = f x"
  by (simp_all add: se_bind_def se_lift_def)

section \<open>Byte order\<close>

definition u16_to_be_bytes :: "u16 \<Rightarrow> bytes" where
  "u16_to_be_bytes w = [ucast (drop_bit 8 w), ucast w]"

definition u16_to_le_bytes :: "u16 \<Rightarrow> bytes" where
  "u16_to_le_bytes w = [ucast w, ucast (drop_bit 8 w)]"

definition u32_to_be_bytes :: "u32 \<Rightarrow> bytes" where
  "u32_to_be_bytes w =
     [ucast (drop_bit 24 w), ucast (drop_bit 16 w), ucast (drop_bit 8 w), ucast w]"

definition u32_to_le_bytes :: "u32 \<Rightarrow> bytes" where
  "u32_to_le_bytes w =
     [ucast w, ucast (drop_bit 8 w), ucast (drop_bit 16 w), ucast (drop_bit 24 w)]"

definition u64_to_le_bytes :: "u64 \<Rightarrow> bytes" where
  "u64_to_le_bytes w = u32_to_le_bytes (ucast w) @ u32_to_le_bytes (ucast (drop_bit 32 w))"

definition u16_from_be_bytes :: "u8 \<Rightarrow> u8 \<Rightarrow> u16" where
  "u16_from_be_bytes a b = push_bit 8 (ucast a) OR ucast b"

definition u16_from_le_bytes :: "u8 \<Rightarrow> u8 \<Rightarrow> u16" where
  "u16_from_le_bytes a b = push_bit 8 (ucast b) OR ucast a"

definition u32_from_be_bytes :: "u8 \<Rightarrow> u8 \<Rightarrow> u8 \<Rightarrow> u8 \<Rightarrow> u32" where
  "u32_from_be_bytes a b c d =
     push_bit 24 (ucast a) OR push_bit 16 (ucast b) OR push_bit 8 (ucast c) OR ucast d"

definition u32_from_le_bytes :: "u8 \<Rightarrow> u8 \<Rightarrow> u8 \<Rightarrow> u8 \<Rightarrow> u32" where
  "u32_from_le_bytes a b c d = u32_from_be_bytes d c b a"

text \<open>The eight bytes as two little-endian halves, the low one first.\<close>

definition u64_from_le_bytes :: "bytes \<Rightarrow> u64" where
  "u64_from_le_bytes bs =
     push_bit 32 (ucast (u32_from_le_bytes (bs ! 4) (bs ! 5) (bs ! 6) (bs ! 7))) OR
     ucast (u32_from_le_bytes (bs ! 0) (bs ! 1) (bs ! 2) (bs ! 3))"

lemma length_to_bytes [simp]:
  "length (u16_to_be_bytes w) = 2" "length (u16_to_le_bytes w) = 2"
  "length (u32_to_be_bytes v) = 4" "length (u32_to_le_bytes v) = 4"
  "length (u64_to_le_bytes x) = 8"
  by (simp_all add: u16_to_be_bytes_def u16_to_le_bytes_def u32_to_be_bytes_def
      u32_to_le_bytes_def u64_to_le_bytes_def)

lemma bit_below_shift: "\<not> bit w (k + (n - k)) \<Longrightarrow> bit w n \<Longrightarrow> n < k"
  by (metis le_add_diff_inverse not_le)

lemma u16_split [byte_order, simp]:
  "push_bit 8 (ucast (ucast (drop_bit 8 w) :: u8)) OR ucast (ucast w :: u8) = (w :: u16)"
  by (rule bit_word_eqI) (auto simp: bit_simps)

lemma u32_split [byte_order, simp]:
  "push_bit 24 (ucast (ucast (drop_bit 24 w) :: u8)) OR
   push_bit 16 (ucast (ucast (drop_bit 16 w) :: u8)) OR
   push_bit 8 (ucast (ucast (drop_bit 8 w) :: u8)) OR ucast (ucast w :: u8) = (w :: u32)"
  by (rule bit_word_eqI) (auto simp: bit_simps dest: bit_below_shift)

lemma u16_be_cancel [simp, byte_order]:
  "u16_from_be_bytes (ucast (drop_bit 8 w)) (ucast w) = w"
  by (simp add: u16_from_be_bytes_def)

lemma u16_le_cancel [simp, byte_order]:
  "u16_from_le_bytes (ucast w) (ucast (drop_bit 8 w)) = w"
  by (simp add: u16_from_le_bytes_def)

lemma u32_be_cancel [simp, byte_order]:
  "u32_from_be_bytes (ucast (drop_bit 24 w)) (ucast (drop_bit 16 w)) (ucast (drop_bit 8 w)) (ucast w) = w"
  by (simp add: u32_from_be_bytes_def)

lemma u32_le_cancel [simp, byte_order]:
  "u32_from_le_bytes (ucast w) (ucast (drop_bit 8 w)) (ucast (drop_bit 16 w)) (ucast (drop_bit 24 w)) = w"
  by (simp add: u32_from_le_bytes_def)

lemma u64_split [byte_order, simp]:
  "push_bit 32 (ucast (ucast (drop_bit 32 w) :: u32)) OR ucast (ucast w :: u32) = (w :: u64)"
  by (rule bit_word_eqI) (auto simp: bit_simps)

lemma u64_le_cancel [simp, byte_order]: "u64_from_le_bytes (u64_to_le_bytes w) = w"
  by (simp add: u64_from_le_bytes_def u64_to_le_bytes_def u32_to_le_bytes_def)

section \<open>Slices\<close>

text \<open>\<^verbatim>\<open>buf[off..off+src.len()].copy_from_slice(src)\<close>; the callers establish that the range is in bounds.\<close>

definition blit :: "nat \<Rightarrow> 'a list \<Rightarrow> 'a list \<Rightarrow> 'a list" where
  "blit off src buf = take off buf @ src @ drop (off + length src) buf"

lemma length_blit [simp]: "off + length src \<le> length buf \<Longrightarrow> length (blit off src buf) = length buf"
  by (simp add: blit_def)

lemma nth_blit:
  "off + length src \<le> length buf \<Longrightarrow> i < length buf \<Longrightarrow>
   blit off src buf ! i = (if off \<le> i \<and> i < off + length src then src ! (i - off) else buf ! i)"
  by (auto simp: blit_def nth_append)

lemma drop_blit_above:
  "off + length src \<le> n \<Longrightarrow> off \<le> length buf \<Longrightarrow> drop n (blit off src buf) = drop n buf"
  by (simp add: blit_def min_def)

section \<open>Strings\<close>

text \<open>Decimal numbers as \<^verbatim>\<open>format!\<close> prints them, and the string helpers of the standard library.\<close>

definition digit :: "nat \<Rightarrow> char" where
  "digit n = char_of (48 + n)"

fun show_nat :: "nat \<Rightarrow> string" where
  "show_nat n = (if n < 10 then [digit n] else show_nat (n div 10) @ [digit (n mod 10)])"

declare show_nat.simps [simp del]

definition pad2 :: "nat \<Rightarrow> string" where
  "pad2 n = (if n < 10 then ''0'' @ show_nat n else show_nat n)"

definition is_space :: "char \<Rightarrow> bool" where
  "is_space c \<longleftrightarrow> c \<in> {CHR '' '', CHR 0x09, CHR 0x0A, CHR 0x0B, CHR 0x0C, CHR 0x0D}"

definition trim :: "string \<Rightarrow> string" where
  "trim s = rev (dropWhile is_space (rev (dropWhile is_space s)))"

definition strip_prefix :: "string \<Rightarrow> string \<Rightarrow> string option" where
  "strip_prefix p s = (if take (length p) s = p then Some (drop (length p) s) else None)"

lemma strip_prefix_append [simp]: "strip_prefix p (p @ s) = Some s"
  by (simp add: strip_prefix_def)

lemma trim_no_space:
  assumes "\<forall>c\<in>set s. \<not> is_space c"
  shows "trim s = s"
proof -
  have "dropWhile is_space s = s" using assms by (cases s) auto
  moreover have "dropWhile is_space (rev s) = rev s" using assms by (cases "rev s") auto
  ultimately show ?thesis by (simp add: trim_def)
qed

section \<open>The ordered map (\<^verbatim>\<open>BTreeMap\<close>)\<close>

type_synonym ('k, 'v) btree = "('k \<times> 'v) list"

fun bt_insert :: "'k::linorder \<Rightarrow> 'v \<Rightarrow> ('k, 'v) btree \<Rightarrow> ('k, 'v) btree" where
  "bt_insert k v [] = [(k, v)]"
| "bt_insert k v ((k', v') # m) =
     (if k < k' then (k, v) # (k', v') # m
      else if k = k' then (k, v) # m
      else (k', v') # bt_insert k v m)"

definition bt_remove :: "'k \<Rightarrow> ('k, 'v) btree \<Rightarrow> ('k, 'v) btree" where
  "bt_remove k m = filter (\<lambda>kv. fst kv \<noteq> k) m"

definition bt_get :: "('k, 'v) btree \<Rightarrow> 'k \<Rightarrow> 'v option" where
  "bt_get m k = map_of m k"

definition bt_inv :: "('k::linorder, 'v) btree \<Rightarrow> bool" where
  "bt_inv m = sorted_wrt (<) (map fst m)"

text \<open>What a client of the ordered map relies on.\<close>

locale ordered_map =
  fixes insert_op :: "'k::linorder \<Rightarrow> 'v \<Rightarrow> 'm \<Rightarrow> 'm"
    and remove_op :: "'k \<Rightarrow> 'm \<Rightarrow> 'm"
    and get_op :: "'m \<Rightarrow> 'k \<Rightarrow> 'v option"
    and keys_op :: "'m \<Rightarrow> 'k list"
    and map_inv :: "'m \<Rightarrow> bool"
  assumes get_insert: "map_inv m \<Longrightarrow> get_op (insert_op k v m) k' = (if k' = k then Some v else get_op m k')"
    and get_remove: "map_inv m \<Longrightarrow> get_op (remove_op k m) k' = (if k' = k then None else get_op m k')"
    and inv_insert: "map_inv m \<Longrightarrow> map_inv (insert_op k v m)"
    and inv_remove: "map_inv m \<Longrightarrow> map_inv (remove_op k m)"
    and keys_get: "map_inv m \<Longrightarrow> (k \<in> set (keys_op m)) = (get_op m k \<noteq> None)"
    and keys_sorted: "map_inv m \<Longrightarrow> sorted_wrt (<) (keys_op m)"
begin

lemma keys_insert: "map_inv m \<Longrightarrow> set (keys_op (insert_op k v m)) = insert k (set (keys_op m))"
  using keys_get[of m] keys_get[OF inv_insert[of m k v]]
  by (auto simp: get_insert split: if_splits)

lemma keys_remove: "map_inv m \<Longrightarrow> set (keys_op (remove_op k m)) = set (keys_op m) - {k}"
  using keys_get[of m] keys_get[OF inv_remove[of m k]] by (auto simp: get_remove split: if_splits)

lemma keys_distinct: "map_inv m \<Longrightarrow> distinct (keys_op m)"
  using keys_sorted strict_sorted_iff by blast

lemma card_keys: "map_inv m \<Longrightarrow> card (set (keys_op m)) = length (keys_op m)"
  by (simp add: keys_distinct distinct_card)

lemma count_remove:
  "map_inv m \<Longrightarrow> get_op m k \<noteq> None \<Longrightarrow> length (keys_op (remove_op k m)) + 1 = length (keys_op m)"
  using card_keys[of m] card_keys[OF inv_remove[of m k]] keys_get[of m k]
    card_Suc_Diff1[of "set (keys_op m)" k]
  by (simp add: keys_remove)

lemma count_insert_new:
  "map_inv m \<Longrightarrow> get_op m k = None \<Longrightarrow> length (keys_op (insert_op k v m)) = length (keys_op m) + 1"
  using card_keys[of m] card_keys[OF inv_insert[of m k v]] keys_get[of m k]
  by (simp add: keys_insert)

lemma count_insert_old:
  "map_inv m \<Longrightarrow> get_op m k \<noteq> None \<Longrightarrow> length (keys_op (insert_op k v m)) = length (keys_op m)"
  using card_keys[of m] card_keys[OF inv_insert[of m k v]] keys_get[of m k]
  by (simp add: keys_insert insert_absorb)

lemma first_key_least:
  "map_inv m \<Longrightarrow> keys_op m = k # ks \<Longrightarrow> get_op m k' \<noteq> None \<Longrightarrow> k \<le> k'"
  using keys_sorted[of m] keys_get[of m k'] by auto

end

lemma bt_insert_keys: "set (map fst (bt_insert k v m)) = insert k (set (map fst m))"
  by (induction k v m rule: bt_insert.induct) auto

lemma bt_inv_insert: "bt_inv m \<Longrightarrow> bt_inv (bt_insert k v m)"
  unfolding bt_inv_def
proof (induction k v m rule: bt_insert.induct)
  case (2 k v k' v' m)
  then show ?case using bt_insert_keys[of k v m] by (auto simp del: set_map)
qed simp

lemma bt_get_insert: "bt_inv m \<Longrightarrow> bt_get (bt_insert k v m) k' = (if k' = k then Some v else bt_get m k')"
  unfolding bt_inv_def bt_get_def
  by (induction k v m rule: bt_insert.induct) auto

lemma bt_inv_remove: "bt_inv m \<Longrightarrow> bt_inv (bt_remove k m)"
  unfolding bt_inv_def bt_remove_def by (induction m) auto

lemma bt_get_remove: "bt_get (bt_remove k m) k' = (if k' = k then None else bt_get m k')"
  unfolding bt_get_def bt_remove_def by (induction m) auto

lemma bt_get_filter: "bt_get (filter (\<lambda>kv. P (fst kv)) m) k = (if P k then bt_get m k else None)"
  unfolding bt_get_def by (induction m) auto

interpretation bt: ordered_map bt_insert bt_remove bt_get "map fst" bt_inv
proof unfold_locales
  show "(k \<in> set (map fst m)) = (bt_get m k \<noteq> None)" if "bt_inv m" for k and m :: "('a \<times> 'b) list"
    by (simp add: bt_get_def map_of_eq_None_iff)
  show "sorted_wrt (<) (map fst m)" if "bt_inv m" for m :: "('a \<times> 'b) list"
    using that by (simp add: bt_inv_def)
qed (simp_all add: bt_get_insert bt_get_remove bt_inv_insert bt_inv_remove)

section \<open>Contracts shared by the components\<close>

text \<open>
  A wire format of fixed width: the encoder always produces \<open>width\<close> bytes, the decoder reads a
  prefix, refuses exactly the short inputs, and returns the encoded value up to \<open>norm\<close> (the part of
  the value that the wire format can carry).
\<close>

locale fixed_codec =
  fixes enc :: "'a \<Rightarrow> bytes" and dec :: "bytes \<Rightarrow> 'a option" and width :: nat and norm :: "'a \<Rightarrow> 'a"
  assumes enc_length: "length (enc x) = width"
    and dec_none: "(dec bs = None) = (length bs < width)"
    and dec_enc: "dec (enc x @ rest) = Some (norm x)"
begin

lemma dec_enc_exact: "dec (enc x) = Some (norm x)"
  using dec_enc[of x "[]"] by simp

lemma enc_inj_norm: "enc x = enc y \<Longrightarrow> norm x = norm y"
  using dec_enc_exact[of x] dec_enc_exact[of y] by simp

end

text \<open>
  A deterministic machine: \<open>run_steps\<close> runs a list of events, and stops with \<^term>\<open>None\<close> when a step
  panics. An invariant that every step keeps rules out the panic along every run; a preorder that
  every step respects relates the two ends of a run.
\<close>

fun run_steps :: "('e \<Rightarrow> 's \<Rightarrow> 's option) \<Rightarrow> 'e list \<Rightarrow> 's \<Rightarrow> 's option" where
  "run_steps step [] s = Some s"
| "run_steps step (e # es) s = do { s' \<leftarrow> step e s; run_steps step es s' }"

lemma run_steps_append:
  "run_steps step (es @ es') s = do { s' \<leftarrow> run_steps step es s; run_steps step es' s' }"
  by (induction es arbitrary: s) (auto split: Option.bind_splits)

lemma run_steps_total: "run_steps (\<lambda>e s. Some (f e s)) es s = Some (fold f es s)"
  by (induction es arbitrary: s) auto

locale step_invariant =
  fixes step :: "'e \<Rightarrow> 's \<Rightarrow> 's option" and inv :: "'s \<Rightarrow> bool"
  assumes step_inv: "inv s \<Longrightarrow> \<exists>s'. step e s = Some s' \<and> inv s'"
begin

lemma run_inv: "inv s \<Longrightarrow> \<exists>s'. run_steps step es s = Some s' \<and> inv s'"
proof (induction es arbitrary: s)
  case (Cons e es)
  then obtain s' where "step e s = Some s'" "inv s'" using step_inv by blast
  then show ?case using Cons.IH by simp
qed simp

end

locale step_preorder = step_invariant +
  fixes le :: "'s \<Rightarrow> 's \<Rightarrow> bool"
  assumes le_refl: "le s s" and le_trans: "le s t \<Longrightarrow> le t u \<Longrightarrow> le s u"
    and step_le: "inv s \<Longrightarrow> step e s = Some s' \<Longrightarrow> le s s'"
begin

lemma run_le: "inv s \<Longrightarrow> run_steps step es s = Some s' \<Longrightarrow> le s s'"
proof (induction es arbitrary: s)
  case (Cons e es)
  then obtain t where "step e s = Some t" "inv t" using step_inv by blast
  then show ?case using Cons le_trans step_le by fastforce
qed (simp add: le_refl)

end

end
