(* ===== verification/Kmc_Float.thy ===== *)
theory Kmc_Float
  imports Complex_Main
begin

text \<open>
  IEEE-754 arithmetic as the Rust sources use it: an \<^verbatim>\<open>f32\<close> or \<^verbatim>\<open>f64\<close> value is the rational number it
  denotes, and every operation rounds the exact result to the nearest value with a significand of 24
  or 53 bits, ties to even. The modelled computations (loss ratios, bit rates, percentages) never
  leave the normal exponent range in a way that reaches an observable value, so subnormals,
  infinities and NaN are left out. \<open>fl\<close> computes, so concrete bit rates evaluate.
\<close>

section \<open>Rounding\<close>

function bit_len :: "int \<Rightarrow> nat" where
  "bit_len n = (if n \<le> 0 then 0 else Suc (bit_len (n div 2)))"
  by pat_completeness auto
termination
  by (relation "measure nat") auto

declare bit_len.simps [simp del]

text \<open>The binary exponent of a positive rational: \<open>2 ^ e \<le> q < 2 ^ (e + 1)\<close>.\<close>

definition binexp :: "rat \<Rightarrow> int" where
  "binexp q =
     (let (a, b) = quotient_of q; k = int (bit_len a) - int (bit_len b)
      in if 2 powi k \<le> q then k else k - 1)"

definition round_half_even :: "rat \<Rightarrow> int" where
  "round_half_even x =
     (let f = \<lfloor>x\<rfloor>; r = x - of_int f
      in if r < 1 / 2 then f else if r > 1 / 2 then f + 1 else if even f then f else f + 1)"

definition fl_pos :: "nat \<Rightarrow> rat \<Rightarrow> rat" where
  "fl_pos p q = (let u = 2 powi (binexp q - int p + 1) in of_int (round_half_even (q / u)) * u)"

definition fl :: "nat \<Rightarrow> rat \<Rightarrow> rat" where
  "fl p q = (if q = 0 then 0 else if q > 0 then fl_pos p q else - fl_pos p (- q))"

definition f32 :: "rat \<Rightarrow> rat" where
  "f32 = fl 24"

definition f64 :: "rat \<Rightarrow> rat" where
  "f64 = fl 53"

text \<open>\<^verbatim>\<open>x as u32\<close> for a float: truncation towards zero, saturating at the bounds of the type.\<close>

definition f64_as_u32 :: "rat \<Rightarrow> int" where
  "f64_as_u32 x = (if x < 0 then 0 else min \<lfloor>x\<rfloor> (2 ^ 32 - 1))"

section \<open>Rounding respects the representable integers\<close>

lemma bit_len_bounds:
  "0 < n \<Longrightarrow> 2 ^ (bit_len n - 1) \<le> n \<and> n < 2 ^ bit_len n \<and> 0 < bit_len n"
proof (induction n rule: bit_len.induct)
  case (1 n)
  show ?case
  proof (cases "n div 2 = 0")
    case True
    with "1.prems" have "n = 1" by simp
    then show ?thesis by (simp add: bit_len.simps)
  next
    case False
    then have IH: "2 ^ (bit_len (n div 2) - 1) \<le> n div 2" "n div 2 < 2 ^ bit_len (n div 2)"
      "0 < bit_len (n div 2)"
      using "1.IH" "1.prems" by auto
    have b: "bit_len n = Suc (bit_len (n div 2))"
      using "1.prems" by (simp add: bit_len.simps[of n])
    have "(2::int) ^ bit_len (n div 2) = 2 * 2 ^ (bit_len (n div 2) - 1)"
      using IH(3) by (cases "bit_len (n div 2)") auto
    then show ?thesis using IH b by simp linarith
  qed
qed

lemma binexp_bounds:
  assumes "0 < q"
  shows "2 powi binexp q \<le> q \<and> q < 2 powi (binexp q + 1)"
proof -
  obtain a b where ab: "quotient_of q = (a, b)" by (cases "quotient_of q")
  have b: "0 < b" using quotient_of_denom_pos[OF ab] .
  have q: "q = of_int a / of_int b" using quotient_of_div[OF ab] .
  have a: "0 < a" using assms b q by (simp add: zero_less_divide_iff)
  define la lb where "la = bit_len a" and "lb = bit_len b"
  have na: "2 ^ (la - 1) \<le> a" "a < 2 ^ la" "0 < la"
    and nb: "2 ^ (lb - 1) \<le> b" "b < 2 ^ lb" "0 < lb"
    using bit_len_bounds[of a] bit_len_bounds[of b] a b by (auto simp: la_def lb_def)
  have ra: "(2::rat) ^ (la - 1) \<le> of_int a" "of_int a < (2::rat) ^ la"
    and rb: "(2::rat) ^ (lb - 1) \<le> of_int b" "of_int b < (2::rat) ^ lb"
    using na nb by simp_all
  define k where "k = int la - int lb"
  have pk: "(2::rat) powi k = 2 ^ la / 2 ^ lb"
    by (simp add: k_def power_int_diff)
  have hi: "q < 2 powi (k + 1)"
  proof -
    have "q < 2 ^ la / of_int b" unfolding q using ra(2) b by (simp add: divide_strict_right_mono)
    also have "\<dots> \<le> 2 ^ la / 2 ^ (lb - 1)" using rb(1) by (simp add: frac_le)
    also have "\<dots> = 2 powi (k + 1)"
      using nb(3) pk by (cases lb) (simp_all add: power_int_add field_simps)
    finally show ?thesis .
  qed
  have lo: "2 powi (k - 1) \<le> q"
  proof -
    have "(2::rat) powi (k - 1) = 2 ^ (la - 1) / 2 ^ lb"
      using na(3) pk by (cases la) (simp_all add: power_int_diff field_simps)
    also have "\<dots> \<le> of_int a / 2 ^ lb" using ra(1) by (simp add: divide_right_mono)
    also have "\<dots> \<le> q" unfolding q using rb(2) a b by (simp add: frac_le)
    finally show ?thesis .
  qed
  show ?thesis
    using hi lo by (auto simp: binexp_def ab Let_def la_def[symmetric] lb_def[symmetric] k_def[symmetric])
qed

lemma round_half_even_le: "x \<le> of_int n \<Longrightarrow> round_half_even x \<le> n"
proof -
  assume "x \<le> of_int n"
  then consider "x = of_int n" | "\<lfloor>x\<rfloor> < n" by (metis floor_less_iff less_le)
  then show ?thesis by cases (auto simp: round_half_even_def Let_def)
qed

lemma round_half_even_ge: "of_int n \<le> x \<Longrightarrow> n \<le> round_half_even x"
  using le_floor_iff[of n x] by (auto simp: round_half_even_def Let_def)

text \<open>The grid of the rounding contains every integer up to \<open>2 ^ p\<close> that lies above the value.\<close>

lemma grid_integer:
  assumes "e \<le> int p - 1"
  obtains m :: int where "(of_int n :: rat) / 2 powi (e - int p + 1) = of_int m"
proof
  have "(2::rat) powi (e - int p + 1) * 2 ^ nat (int p - 1 - e) = 1"
    using assms by (simp add: power_int_def field_simps)
  then show "(of_int n :: rat) / 2 powi (e - int p + 1) = of_int (n * 2 ^ nat (int p - 1 - e))"
    by (simp add: field_simps)
qed

lemma binexp_below:
  assumes "0 < q" "q < 2 ^ p"
  shows "binexp q \<le> int p - 1"
proof (rule ccontr)
  assume "\<not> ?thesis"
  then have "(2::rat) powi int p \<le> 2 powi binexp q"
    by (intro power_int_increasing) auto
  with binexp_bounds[OF assms(1)] assms(2) show False by simp
qed

lemma fl_pos_le_int:
  assumes q: "0 < q" "q \<le> of_int n" and n: "n < 2 ^ p"
  shows "fl_pos p q \<le> of_int n"
proof -
  define u where "u = (2::rat) powi (binexp q - int p + 1)"
  have u: "0 < u" by (simp add: u_def)
  have "(of_int n :: rat) < 2 ^ p" using n by (metis of_int_less_iff of_int_numeral of_int_power)
  then have "q < 2 ^ p" using q(2) by (rule le_less_trans[rotated])
  then have "binexp q \<le> int p - 1" by (rule binexp_below[OF q(1)])
  then obtain m where m: "(of_int n :: rat) / u = of_int m"
    using grid_integer[of "binexp q" p n] unfolding u_def by blast
  have "q / u \<le> of_int m" using q(2) u m by (metis divide_right_mono less_imp_le)
  then have "round_half_even (q / u) \<le> m" by (rule round_half_even_le)
  then have "fl_pos p q \<le> of_int m * u"
    unfolding fl_pos_def Let_def u_def[symmetric] using u
    by (intro mult_right_mono) (auto simp flip: of_int_le_iff)
  then show ?thesis using m u by (simp add: field_simps)
qed

lemma fl_pos_ge_int:
  assumes q: "0 < q" "of_int n \<le> q" and b: "q < 2 ^ p"
  shows "of_int n \<le> fl_pos p q"
proof -
  define u where "u = (2::rat) powi (binexp q - int p + 1)"
  have u: "0 < u" by (simp add: u_def)
  have "binexp q \<le> int p - 1" using q b by (intro binexp_below) auto
  then obtain m where m: "(of_int n :: rat) / u = of_int m"
    using grid_integer[of "binexp q" p n] unfolding u_def by blast
  have "of_int m \<le> q / u" using q(2) u m by (metis divide_right_mono less_imp_le)
  then have "m \<le> round_half_even (q / u)" by (rule round_half_even_ge)
  then have "of_int m * u \<le> fl_pos p q"
    unfolding fl_pos_def Let_def u_def[symmetric] using u
    by (intro mult_right_mono) (auto simp flip: of_int_le_iff)
  then show ?thesis using m u by (simp add: field_simps)
qed

lemma fl_nonneg: "0 \<le> q \<Longrightarrow> 0 \<le> fl p q"
  using round_half_even_ge[of 0 "q / 2 powi (binexp q - int p + 1)"]
  by (auto simp: fl_def fl_pos_def Let_def)

lemma fl_le_int: "0 \<le> q \<Longrightarrow> q \<le> of_int n \<Longrightarrow> n < 2 ^ p \<Longrightarrow> fl p q \<le> of_int n"
  by (cases "q = 0") (auto simp: fl_def intro: fl_pos_le_int)

lemma fl_ge_int: "0 \<le> q \<Longrightarrow> of_int n \<le> q \<Longrightarrow> q < 2 ^ p \<Longrightarrow> of_int n \<le> fl p q"
  by (cases "q = 0") (auto simp: fl_def intro: fl_pos_ge_int)

lemma fl_int: "0 \<le> n \<Longrightarrow> n < 2 ^ p \<Longrightarrow> fl p (of_int n) = of_int n"
proof -
  assume "0 \<le> n" and n: "n < 2 ^ p"
  then have "(of_int n :: rat) < 2 ^ p" by (metis of_int_less_iff of_int_numeral of_int_power)
  then show ?thesis using fl_le_int[of "of_int n" n p] fl_ge_int[of "of_int n" n p] n \<open>0 \<le> n\<close>
    by (simp add: order_antisym)
qed

lemma fl_unit: "0 \<le> q \<Longrightarrow> q \<le> 1 \<Longrightarrow> 1 < p \<Longrightarrow> 0 \<le> fl p q \<and> fl p q \<le> 1"
  using fl_nonneg[of q p] fl_le_int[of q 1 p] one_less_power[of "2::int" p] by simp

lemma fl_gt_zero: "0 < q \<Longrightarrow> 0 < p \<Longrightarrow> 0 < fl p q"
proof -
  assume q: "0 < q" and p: "0 < p"
  define u where "u = (2::rat) powi (binexp q - int p + 1)"
  have "(2::rat) powi (binexp q - int p + 1) \<le> 2 powi binexp q"
    using p by (intro power_int_increasing) auto
  then have "1 \<le> q / u" using binexp_bounds[OF q] by (simp add: u_def)
  then have "1 \<le> round_half_even (q / u)" using round_half_even_ge[of 1 "q / u"] by simp
  then have "0 < of_int (round_half_even (q / u)) * u" by (simp add: u_def)
  then show ?thesis using q by (simp add: fl_def fl_pos_def Let_def u_def)
qed

section \<open>Truncating casts\<close>

lemma f64_as_u32_bound: "0 \<le> f64_as_u32 x \<and> f64_as_u32 x < 2 ^ 32"
  by (simp add: f64_as_u32_def min_def)

lemma f64_as_u32_le: "x \<le> of_int n \<Longrightarrow> 0 \<le> n \<Longrightarrow> f64_as_u32 x \<le> n"
  by (auto simp: f64_as_u32_def min_def) (metis floor_le_iff floor_mono floor_of_int)

lemma f64_as_u32_ge: "of_int n \<le> x \<Longrightarrow> 0 \<le> n \<Longrightarrow> n < 2 ^ 32 \<Longrightarrow> n \<le> f64_as_u32 x"
  by (auto simp: f64_as_u32_def min_def le_floor_iff)

end
