(* ===== verification/Kmc_Gsproto.thy ===== *)
theory Kmc_Gsproto
  imports Kmc_Prelude Kmc_Float
begin

text \<open>
  The wire formats of \<^verbatim>\<open>kmc-gsproto/src/lib.rs\<close>, the crate the streaming host and the client share:
  RTP header, NvVideoPacket header with its packed FEC fields, VideoFrameHeader, the FEC status
  report and the RTT probe. A \<open>write\<close> into a slice that is too short panics (\<^term>\<open>None\<close>); a \<open>read\<close>
  of a short slice returns \<^term>\<open>None\<close>.
\<close>

section \<open>Constants\<close>

definition NV_VIDEO_PACKET_SIZE :: nat where [simp]: "NV_VIDEO_PACKET_SIZE = 16"
definition RTP_HEADER_SIZE :: nat where [simp]: "RTP_HEADER_SIZE = 12"
definition PADDING_SIZE :: nat where [simp]: "PADDING_SIZE = 4"
definition NV_PACKET_OFFSET :: nat where [simp]: "NV_PACKET_OFFSET = RTP_HEADER_SIZE + PADDING_SIZE"
definition PAYLOAD_OFFSET :: nat where [simp]: "PAYLOAD_OFFSET = NV_PACKET_OFFSET + NV_VIDEO_PACKET_SIZE"
definition VIDEO_FRAME_HEADER_SIZE :: nat where [simp]: "VIDEO_FRAME_HEADER_SIZE = 8"
definition RTP_VERSION_FLAGS :: u8 where [simp]: "RTP_VERSION_FLAGS = 0x90"
definition MULTI_FEC_FLAGS :: u8 where [simp]: "MULTI_FEC_FLAGS = 0x10"
definition MAX_FEC_BLOCKS :: nat where [simp]: "MAX_FEC_BLOCKS = 4"
definition MAX_SHARDS :: nat where [simp]: "MAX_SHARDS = 255"
definition FRAME_TYPE_DELTA :: u8 where [simp]: "FRAME_TYPE_DELTA = 1"
definition FRAME_TYPE_KEY :: u8 where [simp]: "FRAME_TYPE_KEY = 2"
definition FRAME_HEADER_TYPE :: u8 where [simp]: "FRAME_HEADER_TYPE = 0x01"
definition CONTAINS_PIC_DATA :: u8 where [simp]: "CONTAINS_PIC_DATA = 0x1"
definition END_OF_FRAME :: u8 where [simp]: "END_OF_FRAME = 0x2"
definition START_OF_FRAME :: u8 where [simp]: "START_OF_FRAME = 0x4"
definition DEFAULT_BASE_PORT :: u16 where [simp]: "DEFAULT_BASE_PORT = 47989"

section \<open>Sizes and counts\<close>

definition ports_from_base :: "u16 \<Rightarrow> u16 \<times> u16 \<times> u16" where
  "ports_from_base base = (base, base - 5, base + 21)"

definition shard_payload_len :: "nat \<Rightarrow> nat option" where
  "shard_payload_len datagram_len =
     (if datagram_len < PAYLOAD_OFFSET then None
      else let n = datagram_len - PAYLOAD_OFFSET in if n > 0 then Some n else None)"

definition parity_shard_count :: "nat \<Rightarrow> nat \<Rightarrow> nat" where
  "parity_shard_count data_shards fec_percentage =
     (if data_shards = 0 \<or> fec_percentage = 0 then 0
      else min (max (div_ceil (data_shards * fec_percentage) 100) 1) (MAX_SHARDS - data_shards))"

section \<open>RTP header (big-endian)\<close>

record rtp_header =
  rtp_sequence_number :: u16
  rtp_timestamp :: u32
  rtp_ssrc :: u32

definition rtp_header_bytes :: "rtp_header \<Rightarrow> bytes" where
  "rtp_header_bytes h =
     [RTP_VERSION_FLAGS, 0] @ u16_to_be_bytes (rtp_sequence_number h)
       @ u32_to_be_bytes (rtp_timestamp h) @ u32_to_be_bytes (rtp_ssrc h)"

definition rtp_write :: "rtp_header \<Rightarrow> bytes \<Rightarrow> bytes option" where
  "rtp_write h buf =
     (if length buf < RTP_HEADER_SIZE then None
      else Some (rtp_header_bytes h @ drop RTP_HEADER_SIZE buf))"

definition rtp_read :: "bytes \<Rightarrow> rtp_header option" where
  "rtp_read buf =
     (if length buf < RTP_HEADER_SIZE then None
      else Some \<lparr>rtp_sequence_number = u16_from_be_bytes (buf ! 2) (buf ! 3),
                 rtp_timestamp = u32_from_be_bytes (buf ! 4) (buf ! 5) (buf ! 6) (buf ! 7),
                 rtp_ssrc = u32_from_be_bytes (buf ! 8) (buf ! 9) (buf ! 10) (buf ! 11)\<rparr>)"

section \<open>NvVideoPacket (little-endian)\<close>

record nv_video_packet =
  nv_stream_packet_index :: u32
  nv_frame_index :: u32
  nv_flags :: u8
  nv_multi_fec_blocks :: u8
  nv_fec_info :: u32

definition nv_packet_bytes :: "nv_video_packet \<Rightarrow> bytes" where
  "nv_packet_bytes p =
     u32_to_le_bytes (push_bit 8 (nv_stream_packet_index p)) @ u32_to_le_bytes (nv_frame_index p)
       @ [nv_flags p, 0, MULTI_FEC_FLAGS, nv_multi_fec_blocks p] @ u32_to_le_bytes (nv_fec_info p)"

definition nv_write :: "nv_video_packet \<Rightarrow> bytes \<Rightarrow> bytes option" where
  "nv_write p buf =
     (if length buf < NV_VIDEO_PACKET_SIZE then None
      else Some (nv_packet_bytes p @ drop NV_VIDEO_PACKET_SIZE buf))"

definition nv_read :: "bytes \<Rightarrow> nv_video_packet option" where
  "nv_read buf =
     (if length buf < NV_VIDEO_PACKET_SIZE then None
      else Some \<lparr>nv_stream_packet_index =
                   drop_bit 8 (u32_from_le_bytes (buf ! 0) (buf ! 1) (buf ! 2) (buf ! 3)),
                 nv_frame_index = u32_from_le_bytes (buf ! 4) (buf ! 5) (buf ! 6) (buf ! 7),
                 nv_flags = buf ! 8,
                 nv_multi_fec_blocks = buf ! 11,
                 nv_fec_info = u32_from_le_bytes (buf ! 12) (buf ! 13) (buf ! 14) (buf ! 15)\<rparr>)"

definition nv_read_from_shard :: "bytes \<Rightarrow> nv_video_packet option" where
  "nv_read_from_shard shard =
     (if length shard < NV_PACKET_OFFSET then None else nv_read (drop NV_PACKET_OFFSET shard))"

definition contains_pic_data :: "nv_video_packet \<Rightarrow> bool" where
  "contains_pic_data p \<longleftrightarrow> nv_flags p AND CONTAINS_PIC_DATA \<noteq> 0"

definition start_of_frame :: "nv_video_packet \<Rightarrow> bool" where
  "start_of_frame p \<longleftrightarrow> nv_flags p AND START_OF_FRAME \<noteq> 0"

definition end_of_frame :: "nv_video_packet \<Rightarrow> bool" where
  "end_of_frame p \<longleftrightarrow> nv_flags p AND END_OF_FRAME \<noteq> 0"

definition block_index :: "nv_video_packet \<Rightarrow> nat" where
  "block_index p = unat (drop_bit 4 (nv_multi_fec_blocks p) AND 0x3)"

definition block_count :: "nv_video_packet \<Rightarrow> nat" where
  "block_count p = unat ((drop_bit 6 (nv_multi_fec_blocks p) AND 0x3) + 1)"

definition shard_index :: "nv_video_packet \<Rightarrow> nat" where
  "shard_index p = unat (drop_bit 12 (nv_fec_info p) AND 0x3FF)"

definition data_shards :: "nv_video_packet \<Rightarrow> nat" where
  "data_shards p = unat (drop_bit 22 (nv_fec_info p) AND 0x3FF)"

definition fec_percentage :: "nv_video_packet \<Rightarrow> nat" where
  "fec_percentage p = unat (drop_bit 4 (nv_fec_info p) AND 0xFF)"

definition parity_shards :: "nv_video_packet \<Rightarrow> nat" where
  "parity_shards p = parity_shard_count (data_shards p) (fec_percentage p)"

text \<open>The fields are assembled in a \<^verbatim>\<open>usize\<close> (64 bits) and then truncated to 32 bits.\<close>

definition pack_fec_info :: "nat \<Rightarrow> nat \<Rightarrow> nat \<Rightarrow> u32" where
  "pack_fec_info si ds pct =
     ucast (push_bit 12 (of_nat si :: u64) OR push_bit 22 (of_nat ds) OR push_bit 4 (of_nat pct))"

definition pack_multi_fec_blocks :: "nat \<Rightarrow> nat \<Rightarrow> u8" where
  "pack_multi_fec_blocks bi bc = push_bit 4 (of_nat bi) OR push_bit 6 (of_nat bc - 1)"

section \<open>VideoFrameHeader (little-endian)\<close>

record video_frame_header =
  vf_is_key_frame :: bool
  vf_frame_processing_latency :: u16
  vf_last_payload_len :: u32

definition vf_write :: "video_frame_header \<Rightarrow> bytes" where
  "vf_write h =
     [FRAME_HEADER_TYPE] @ u16_to_le_bytes (vf_frame_processing_latency h)
       @ [if vf_is_key_frame h then FRAME_TYPE_KEY else FRAME_TYPE_DELTA]
       @ u32_to_le_bytes (vf_last_payload_len h)"

definition vf_read :: "bytes \<Rightarrow> video_frame_header option" where
  "vf_read buf =
     (if length buf < VIDEO_FRAME_HEADER_SIZE then None
      else Some \<lparr>vf_is_key_frame = (buf ! 3 = FRAME_TYPE_KEY),
                 vf_frame_processing_latency = u16_from_le_bytes (buf ! 1) (buf ! 2),
                 vf_last_payload_len = u32_from_le_bytes (buf ! 4) (buf ! 5) (buf ! 6) (buf ! 7)\<rparr>)"

section \<open>FrameFecStatus (big-endian)\<close>

record frame_fec_status =
  ff_frame_index :: u32
  ff_highest_received_seq :: u16
  ff_next_contiguous_seq :: u16
  ff_missing_before_highest :: u16
  ff_total_data_shards :: u16
  ff_total_parity_shards :: u16
  ff_received_data_shards :: u16
  ff_received_parity_shards :: u16
  ff_fec_percentage :: u8
  ff_block_index :: u8
  ff_block_count :: u8

definition FEC_STATUS_SIZE :: nat where [simp]: "FEC_STATUS_SIZE = 21"

definition fec_status_to_bytes :: "frame_fec_status \<Rightarrow> bytes" where
  "fec_status_to_bytes s =
     u32_to_be_bytes (ff_frame_index s) @ u16_to_be_bytes (ff_highest_received_seq s)
       @ u16_to_be_bytes (ff_next_contiguous_seq s) @ u16_to_be_bytes (ff_missing_before_highest s)
       @ u16_to_be_bytes (ff_total_data_shards s) @ u16_to_be_bytes (ff_total_parity_shards s)
       @ u16_to_be_bytes (ff_received_data_shards s) @ u16_to_be_bytes (ff_received_parity_shards s)
       @ [ff_fec_percentage s, ff_block_index s, ff_block_count s]"

definition fec_status_write :: "frame_fec_status \<Rightarrow> bytes \<Rightarrow> bool \<times> bytes" where
  "fec_status_write s buf =
     (if length buf < FEC_STATUS_SIZE then (False, buf)
      else (True, fec_status_to_bytes s @ drop FEC_STATUS_SIZE buf))"

definition fec_status_parse :: "bytes \<Rightarrow> frame_fec_status option" where
  "fec_status_parse buf =
     (if length buf < FEC_STATUS_SIZE then None
      else let be16 = (\<lambda>o'. u16_from_be_bytes (buf ! o') (buf ! (o' + 1)))
      in Some \<lparr>ff_frame_index = u32_from_be_bytes (buf ! 0) (buf ! 1) (buf ! 2) (buf ! 3),
               ff_highest_received_seq = be16 4,
               ff_next_contiguous_seq = be16 6,
               ff_missing_before_highest = be16 8,
               ff_total_data_shards = be16 10,
               ff_total_parity_shards = be16 12,
               ff_received_data_shards = be16 14,
               ff_received_parity_shards = be16 16,
               ff_fec_percentage = buf ! 18,
               ff_block_index = buf ! 19,
               ff_block_count = buf ! 20\<rparr>)"

text \<open>Packets lost out of those sent, as an \<^verbatim>\<open>f32\<close>; no value when nothing was sent.\<close>

definition loss_fraction :: "frame_fec_status \<Rightarrow> rat option" where
  "loss_fraction s =
     (let total = uint (ff_total_data_shards s) + uint (ff_total_parity_shards s)
      in if total = 0 then None
      else let recv = min (uint (ff_received_data_shards s) + uint (ff_received_parity_shards s)) total
      in Some (f32 (f32 (of_int (total - recv)) / f32 (of_int total))))"

section \<open>Keep-alive and RTT probe\<close>

definition PING_PAYLOAD :: bytes where "PING_PAYLOAD = [0x50, 0x49, 0x4E, 0x47]"
definition PONG_TAG :: bytes where "PONG_TAG = [0x50, 0x4F, 0x4E, 0x47]"
definition RTT_PROBE_SIZE :: nat where [simp]: "RTT_PROBE_SIZE = 12"

definition rtt_probe :: "u64 \<Rightarrow> bytes" where
  "rtt_probe micros = PONG_TAG @ u64_to_le_bytes micros"

definition parse_rtt_probe :: "bytes \<Rightarrow> u64 option" where
  "parse_rtt_probe buf =
     (if length buf \<noteq> RTT_PROBE_SIZE \<or> take 4 buf \<noteq> PONG_TAG then None
      else Some (u64_from_le_bytes (drop 4 buf)))"

section \<open>Lemmas: the codecs\<close>

lemma length_headers [simp]:
  "length (rtp_header_bytes h) = 12" "length (nv_packet_bytes p) = 16"
  "length (vf_write f) = 8" "length (fec_status_to_bytes s) = 21"
  by (simp_all add: rtp_header_bytes_def nv_packet_bytes_def vf_write_def fec_status_to_bytes_def)

lemmas to_bytes_defs =
  u16_to_be_bytes_def u16_to_le_bytes_def u32_to_be_bytes_def u32_to_le_bytes_def

lemma rtp_read_bytes [wire_simps]: "rtp_read (rtp_header_bytes h @ rest) = Some h"
  by (simp add: rtp_read_def rtp_header_bytes_def to_bytes_defs)

lemma spi_truncation: "drop_bit 8 (push_bit 8 w) = take_bit 24 (w :: u32)"
  by (rule bit_word_eqI) (auto simp: bit_simps)

lemma nv_read_bytes [wire_simps]:
  "nv_read (nv_packet_bytes p @ rest) =
     Some (p\<lparr>nv_stream_packet_index := take_bit 24 (nv_stream_packet_index p)\<rparr>)"
  by (cases p) (simp add: nv_read_def nv_packet_bytes_def to_bytes_defs, simp add: spi_truncation)

lemma vf_read_bytes [wire_simps]: "vf_read (vf_write h @ rest) = Some h"
  by (simp add: vf_read_def vf_write_def to_bytes_defs)

lemma fec_status_parse_bytes [wire_simps]: "fec_status_parse (fec_status_to_bytes s @ rest) = Some s"
  by (simp add: fec_status_parse_def fec_status_to_bytes_def to_bytes_defs)

interpretation rtp: fixed_codec rtp_header_bytes rtp_read RTP_HEADER_SIZE "\<lambda>h. h"
  by unfold_locales (simp_all add: rtp_read_bytes, simp add: rtp_read_def)

interpretation nv: fixed_codec nv_packet_bytes nv_read NV_VIDEO_PACKET_SIZE
    "\<lambda>p. p\<lparr>nv_stream_packet_index := take_bit 24 (nv_stream_packet_index p)\<rparr>"
  by unfold_locales (simp_all add: nv_read_bytes, simp add: nv_read_def)

interpretation vf: fixed_codec vf_write vf_read VIDEO_FRAME_HEADER_SIZE "\<lambda>h. h"
  by unfold_locales (simp_all add: vf_read_bytes, simp add: vf_read_def)

interpretation fec_status: fixed_codec fec_status_to_bytes fec_status_parse FEC_STATUS_SIZE "\<lambda>s. s"
  by unfold_locales (simp_all add: fec_status_parse_bytes, simp add: fec_status_parse_def)

section \<open>Lemmas: the packed FEC fields\<close>

lemma and_masks [simp]:
  "w AND 0x3FF = take_bit 10 (w :: 'a::len word)" "w AND 0xFF = take_bit 8 w" "w AND 0x3 = take_bit 2 w"
  by (simp_all add: take_bit_eq_mask mask_eq_exp_minus_1)

lemma bit_nat_bound: "n < 2 ^ k \<Longrightarrow> bit (n :: nat) i \<Longrightarrow> i < k"
  by (metis bit_take_bit_iff take_bit_nat_eq_self)

lemma pack_fec_info_fields:
  assumes "si < 1024" "ds < 1024" "pct < 256"
  shows "take_bit 10 (drop_bit 12 (pack_fec_info si ds pct)) = of_nat si"
    and "take_bit 10 (drop_bit 22 (pack_fec_info si ds pct)) = of_nat ds"
    and "take_bit 8 (drop_bit 4 (pack_fec_info si ds pct)) = of_nat pct"
proof -
  have b: "bit si i \<Longrightarrow> i < 10" "bit ds i \<Longrightarrow> i < 10" "bit pct i \<Longrightarrow> i < 8" for i
    using assms bit_nat_bound[of _ 10] bit_nat_bound[of pct 8] by auto
  show "take_bit 10 (drop_bit 12 (pack_fec_info si ds pct)) = of_nat si"
    "take_bit 10 (drop_bit 22 (pack_fec_info si ds pct)) = of_nat ds"
    "take_bit 8 (drop_bit 4 (pack_fec_info si ds pct)) = of_nat pct"
    by (rule bit_word_eqI; use b in \<open>fastforce simp: pack_fec_info_def bit_simps\<close>)+
qed

lemma packed_fec_info [wire_simps]:
  assumes "nv_fec_info p = pack_fec_info si ds pct" "si < 1024" "ds < 1024" "pct < 256"
  shows "shard_index p = si" "data_shards p = ds" "fec_percentage p = pct"
    "parity_shards p = parity_shard_count ds pct"
  using assms pack_fec_info_fields[of si ds pct]
  by (simp_all add: shard_index_def data_shards_def fec_percentage_def parity_shards_def unat_of_nat)

lemma packed_blocks [wire_simps]:
  assumes "nv_multi_fec_blocks p = pack_multi_fec_blocks bi bc" "bi < bc" "bc \<le> 4"
  shows "block_index p = bi" "block_count p = bc"
proof -
  have "bi \<in> {0, 1, 2, 3}" "bc \<in> {1, 2, 3, 4}" using assms by auto
  then show "block_index p = bi" "block_count p = bc"
    using assms(1) by (auto simp: block_index_def block_count_def pack_multi_fec_blocks_def take_bit_eq_mod)
qed

lemma block_index_lt: "block_index p < 4"
  using take_bit_nat_less_exp[of 2] by (simp add: block_index_def unsigned_take_bit_eq)

lemma block_count_le: "block_count p \<le> 4"
proof -
  have "unat (take_bit 2 (drop_bit 6 (nv_multi_fec_blocks p))) < 4"
    using take_bit_nat_less_exp[of 2] by (simp add: unsigned_take_bit_eq)
  then show ?thesis by (simp add: block_count_def unat_word_ariths)
qed

section \<open>Lemmas: parity counts\<close>

lemma parity_shard_count_bound: "d \<le> MAX_SHARDS \<Longrightarrow> d + parity_shard_count d pct \<le> MAX_SHARDS"
  by (auto simp: parity_shard_count_def)

lemma div_ceil_least: "0 < b \<Longrightarrow> a \<le> div_ceil a b * b \<and> (0 < a \<longrightarrow> (div_ceil a b - 1) * b < a)"
  using div_ceil_mult_ge div_ceil_pred_less by blast

lemma loss_fraction_unit:
  assumes "loss_fraction s = Some q"
  shows "0 \<le> q \<and> q \<le> 1"
proof -
  define n where "n = uint (ff_total_data_shards s) + uint (ff_total_parity_shards s)"
  define r where "r = min (uint (ff_received_data_shards s) + uint (ff_received_parity_shards s)) n"
  have b: "0 \<le> n" "n < 2 ^ 24" "0 \<le> r" "r \<le> n"
    using uint_lt2p[of "ff_total_data_shards s"] uint_lt2p[of "ff_total_parity_shards s"]
    by (auto simp: n_def r_def)
  then have "f32 (of_int (n - r)) = of_int (n - r)" "f32 (of_int n) = of_int n"
    unfolding f32_def using fl_int[of "n - r" 24] fl_int[of n 24] by simp_all
  then have q: "q = f32 (of_int (n - r) / of_int n)" "n \<noteq> 0"
    using assms by (auto simp: loss_fraction_def n_def r_def Let_def split: if_splits)
  have "0 \<le> (of_int (n - r) / of_int n :: rat)" "(of_int (n - r) / of_int n :: rat) \<le> 1"
    using b q(2) by (auto simp: divide_le_eq)
  then show ?thesis unfolding q(1) f32_def by (intro fl_unit) auto
qed

lemma loss_fraction_pos:
  assumes "uint (ff_received_data_shards s) + uint (ff_received_parity_shards s)
     < uint (ff_total_data_shards s) + uint (ff_total_parity_shards s)"
  shows "\<exists>q. loss_fraction s = Some q \<and> 0 < q"
proof -
  define n where "n = uint (ff_total_data_shards s) + uint (ff_total_parity_shards s)"
  define r where "r = min (uint (ff_received_data_shards s) + uint (ff_received_parity_shards s)) n"
  have rn: "r < n" "0 \<le> r" using assms by (auto simp: n_def r_def)
  have "n < 2 ^ 24"
    using uint_lt2p[of "ff_total_data_shards s"] uint_lt2p[of "ff_total_parity_shards s"] by (auto simp: n_def)
  then have "f32 (of_int (n - r)) = of_int (n - r)" "f32 (of_int n) = of_int n"
    unfolding f32_def using rn fl_int[of "n - r" 24] fl_int[of n 24] by simp_all
  moreover have "0 < f32 (of_int (n - r) / of_int n :: rat)"
    unfolding f32_def using rn by (intro fl_gt_zero) auto
  ultimately show ?thesis using rn by (auto simp: loss_fraction_def n_def[symmetric] r_def[symmetric] Let_def)
qed

section \<open>Properties\<close>

text \<open>
  The packed FEC fields survive the wire. A receiver that parses the header the host wrote reads back
  the shard's position, its block, the size of the block and the requested percentage, and from
  them computes the very number of parity shards the host computed.
\<close>

theorem fec_fields_roundtrip:
  assumes "nv_fec_info p = pack_fec_info si ds pct" "si < 1024" "ds < 1024" "pct < 256"
    and "nv_multi_fec_blocks p = pack_multi_fec_blocks bi bc" "bi < bc" "bc \<le> 4"
  shows "\<exists>p'. nv_read (nv_packet_bytes p @ payload) = Some p' \<and> nv_frame_index p' = nv_frame_index p
    \<and> shard_index p' = si \<and> data_shards p' = ds \<and> fec_percentage p' = pct
    \<and> parity_shards p' = parity_shard_count ds pct \<and> block_index p' = bi \<and> block_count p' = bc"
proof -
  let ?p = "p\<lparr>nv_stream_packet_index := take_bit 24 (nv_stream_packet_index p)\<rparr>"
  have "nv_read (nv_packet_bytes p @ payload) = Some ?p" by (rule nv_read_bytes)
  then show ?thesis
    using packed_fec_info[of ?p si ds pct] packed_blocks[of ?p bi bc] assms by simp
qed

theorem fec_fields_roundtrip_witness:
  "\<exists>p'. nv_read (nv_packet_bytes \<lparr>nv_stream_packet_index = 0x1234567, nv_frame_index = 9, nv_flags = 1,
        nv_multi_fec_blocks = pack_multi_fec_blocks 2 4, nv_fec_info = pack_fec_info 77 204 25\<rparr> @ [1, 2]) = Some p'
    \<and> nv_frame_index p' = 9 \<and> shard_index p' = 77 \<and> data_shards p' = 204 \<and> fec_percentage p' = 25
    \<and> parity_shards p' = 51 \<and> block_index p' = 2 \<and> block_count p' = 4"
proof -
  have "parity_shard_count 204 25 = 51" by (simp add: parity_shard_count_def div_ceil_def)
  then show ?thesis
    using fec_fields_roundtrip[of "\<lparr>nv_stream_packet_index = 0x1234567, nv_frame_index = 9, nv_flags = 1,
        nv_multi_fec_blocks = pack_multi_fec_blocks 2 4, nv_fec_info = pack_fec_info 77 204 25\<rparr>" 77 204 25 2 4 "[1, 2]"]
    by simp
qed

text \<open>
  The number of parity shards. It is the least number that reaches the requested percentage of the
  data shards (at least one), cut off where the block would exceed the 255 shards of the code.
\<close>

theorem parity_shard_count_least:
  assumes "0 < d" "d \<le> MAX_SHARDS" "0 < pct"
  defines "p \<equiv> parity_shard_count d pct"
  shows "d + p \<le> MAX_SHARDS \<and> (d + p < MAX_SHARDS \<longrightarrow> d * pct \<le> p * 100 \<and> 0 < p)
    \<and> (0 < p \<longrightarrow> (p - 1) * 100 < d * pct)"
proof -
  have l: "d * pct \<le> div_ceil (d * pct) 100 * 100" "(div_ceil (d * pct) 100 - 1) * 100 < d * pct"
    using div_ceil_least[of 100 "d * pct"] assms by auto
  have p: "p = min (max (div_ceil (d * pct) 100) 1) (255 - d)" using assms by (simp add: p_def parity_shard_count_def)
  have "(p - 1) * 100 < d * pct" if "0 < p"
  proof -
    have "p - 1 \<le> div_ceil (d * pct) 100 - 1" unfolding p by simp
    then have "(p - 1) * 100 \<le> (div_ceil (d * pct) 100 - 1) * 100" by (rule mult_right_mono) simp
    then show ?thesis using l by linarith
  qed
  moreover have "div_ceil (d * pct) 100 \<le> p \<and> 0 < p" if "d + p < 255" using that by (auto simp: p)
  ultimately show ?thesis
    using l(1) parity_shard_count_bound[OF assms(2), of pct] unfolding p_def[symmetric] MAX_SHARDS_def
    by (meson le_trans mult_right_mono zero_le)
qed

theorem parity_shard_count_least_witness:
  "0 < (204::nat) \<and> 204 + parity_shard_count 204 25 \<le> 255 \<and> (parity_shard_count 204 25 - 1) * 100 < 204 * 25"
  using parity_shard_count_least[of 204 25] by (simp add: parity_shard_count_def div_ceil_def)

text \<open>
  The loss report survives the wire, a short buffer is refused on both sides, and the loss the host
  derives from a report is a fraction between 0 and 1, absent exactly when nothing was sent.
\<close>

theorem fec_status_roundtrip:
  "fec_status_parse (fec_status_to_bytes s @ rest) = Some s
   \<and> length (fec_status_to_bytes s) = FEC_STATUS_SIZE
   \<and> (fec_status_parse buf = None \<longleftrightarrow> length buf < FEC_STATUS_SIZE)
   \<and> (fst (fec_status_write s buf) \<longleftrightarrow> FEC_STATUS_SIZE \<le> length buf)
   \<and> (loss_fraction s = None \<longleftrightarrow> ff_total_data_shards s = 0 \<and> ff_total_parity_shards s = 0)
   \<and> (case loss_fraction s of None \<Rightarrow> True | Some q \<Rightarrow> 0 \<le> q \<and> q \<le> 1)"
proof -
  have "loss_fraction s = None \<longleftrightarrow> ff_total_data_shards s = 0 \<and> ff_total_parity_shards s = 0"
    by (auto simp: loss_fraction_def Let_def add_nonneg_eq_0_iff uint_0_iff)
  moreover have "case loss_fraction s of None \<Rightarrow> True | Some q \<Rightarrow> 0 \<le> q \<and> q \<le> 1"
    using loss_fraction_unit[of s] by (cases "loss_fraction s") auto
  ultimately show ?thesis
    using fec_status.dec_none[of buf] fec_status.dec_enc[of s rest] by (simp add: fec_status_write_def)
qed

text \<open>
  RTT probes: a probe yields its timestamp; neither the keep-alive nor a datagram long enough to be a
  media shard is taken for one, and a probe is never taken for a shard.
\<close>

theorem rtt_probe_roundtrip:
  "parse_rtt_probe (rtt_probe t) = Some t \<and> parse_rtt_probe PING_PAYLOAD = None
   \<and> (PAYLOAD_OFFSET \<le> length dg \<longrightarrow> parse_rtt_probe dg = None)
   \<and> shard_payload_len (length (rtt_probe t)) = None"
  by (auto simp: parse_rtt_probe_def rtt_probe_def PONG_TAG_def PING_PAYLOAD_def shard_payload_len_def)

theorem rtt_probe_roundtrip_witness:
  "parse_rtt_probe (rtt_probe 123456789012) = Some 123456789012
   \<and> PAYLOAD_OFFSET \<le> length (replicate 40 (0x50 :: u8)) \<and> parse_rtt_probe (replicate 40 0x50) = None"
  using rtt_probe_roundtrip[of 123456789012 "replicate 40 0x50"] by simp

end
