(* ===== verification/Kmc_Fec.thy ===== *)
theory Kmc_Fec
  imports Kmc_Prelude
begin

text \<open>
  The erasure code. It is the third-party crate \<open>fec-rs\<close>, which the host uses to encode a block and the
  client to reconstruct it: a parameter of the model, with the requirements the two programs place
  on it. A concrete code with a single parity shard shows that the requirements can be met.
\<close>

section \<open>The erasure code (crate \<open>fec-rs\<close>)\<close>

text \<open>
  \<open>rs_new d p\<close> says whether \<^verbatim>\<open>ReedSolomon::new(d, p)\<close> succeeds; \<open>rs_encode d p\<close> is \<^verbatim>\<open>encode\<close> on the block
  slice and \<open>rs_reconstruct d p\<close> is \<^verbatim>\<open>reconstruct_data\<close>, both with the buffers they leave behind and
  whether they returned \<^verbatim>\<open>Ok\<close>.
\<close>

record rs_impl =
  rs_new :: "nat \<Rightarrow> nat \<Rightarrow> bool"
  rs_encode :: "nat \<Rightarrow> nat \<Rightarrow> bytes list \<Rightarrow> bytes list \<times> bool"
  rs_reconstruct :: "nat \<Rightarrow> nat \<Rightarrow> bytes option list \<Rightarrow> bytes option list \<times> bool"

text \<open>
  What the host and the client rely on. Encoding leaves the \<open>d\<close> data shards alone and fills the \<open>p\<close>
  parity buffers; from any \<open>d\<close> of the \<open>d + p\<close> shards the data come back. The code works on each byte
  column by itself, so the same holds when every shard is cut at one offset, which is how the client
  uses it (payloads only, without the headers the host overwrites after encoding).
\<close>

definition rs_encode_ok :: "rs_impl \<Rightarrow> nat \<Rightarrow> nat \<Rightarrow> bool" where
  "rs_encode_ok rs d p \<longleftrightarrow>
     (\<forall>D L. 0 < L \<and> length D = d \<and> (\<forall>x\<in>set D. length x = L) \<longrightarrow>
        (\<exists>P. rs_encode rs d p (D @ replicate p (replicate L 0)) = (D @ P, True)
             \<and> length P = p \<and> (\<forall>x\<in>set P. length x = L)))"

definition rs_recover_ok :: "rs_impl \<Rightarrow> nat \<Rightarrow> nat \<Rightarrow> bool" where
  "rs_recover_ok rs d p \<longleftrightarrow>
     (\<forall>D P L off slots.
        length D = d \<and> (\<forall>x\<in>set D. length x = L) \<and> off < L
        \<and> rs_encode rs d p (D @ replicate p (replicate L 0)) = (D @ P, True)
        \<and> length slots = d + p
        \<and> (\<forall>i<d + p. slots ! i = None \<or> slots ! i = Some (drop off ((D @ P) ! i)))
        \<and> d \<le> length (filter (\<lambda>s. s \<noteq> None) slots) \<longrightarrow>
        (\<exists>slots'. rs_reconstruct rs d p slots = (slots', True) \<and> length slots' = d + p
             \<and> (\<forall>i<d. slots' ! i = Some (drop off (D ! i)))))"

definition rs_correct :: "rs_impl \<Rightarrow> nat \<Rightarrow> nat \<Rightarrow> bool" where
  "rs_correct rs d p \<longleftrightarrow> rs_new rs d p \<and> rs_encode_ok rs d p \<and> rs_recover_ok rs d p"

text \<open>The erasure code works on a slice: it cannot change the number of slots.\<close>

definition rs_shape :: "rs_impl \<Rightarrow> bool" where
  "rs_shape rs \<longleftrightarrow> (\<forall>d p slots. length (fst (rs_reconstruct rs d p slots)) = length slots)"

section \<open>A concrete code: single parity\<close>

text \<open>One parity shard, the exclusive or of the data shards.\<close>

definition xor_bytes :: "bytes \<Rightarrow> bytes \<Rightarrow> bytes" where
  "xor_bytes a b = map2 (XOR) a b"

definition xor_sum :: "nat \<Rightarrow> bytes list \<Rightarrow> bytes" where
  "xor_sum L xs = foldr xor_bytes xs (replicate L 0)"

definition fill_slots :: "bytes option list \<Rightarrow> bytes option list" where
  "fill_slots slots =
     (let present = map the (filter (\<lambda>s. s \<noteq> None) slots)
      in map (\<lambda>s. if s = None then Some (xor_sum (length (hd present)) present) else s) slots)"

definition rs_xor :: rs_impl where
  "rs_xor = \<lparr>rs_new = (\<lambda>d p. 0 < d \<and> p = 1),
     rs_encode = (\<lambda>d p block. (take d block @ [xor_sum (length (last block)) (take d block)], True)),
     rs_reconstruct = (\<lambda>d p slots.
       if d \<le> length (filter (\<lambda>s. s \<noteq> None) slots) then (fill_slots slots, True) else (slots, False))\<rparr>"

lemma xor_bytes_cancel:
  assumes "length x = L" "length w = L" "xor_bytes x w = replicate L 0"
  shows "w = x"
proof (rule nth_equalityI)
  fix i assume "i < length w"
  then have "(x ! i) XOR (w ! i) = 0"
    using arg_cong[OF assms(3), of "\<lambda>xs. xs ! i"] assms(1,2) by (simp add: xor_bytes_def)
  then have "bit (x ! i) n = bit (w ! i) n" for n by (metis bit_0_eq bit_xor_iff bot_apply bot_bool_def)
  then show "w ! i = x ! i" by (intro bit_word_eqI) simp
qed (use assms in simp)

lemma length_xor_sum: "\<forall>x\<in>set xs. length x = L \<Longrightarrow> length (xor_sum L xs) = L"
  by (induction xs) (auto simp: xor_sum_def xor_bytes_def)

lemma xor_bytes_left_commute: "xor_bytes a (xor_bytes b c) = xor_bytes b (xor_bytes a c)"
  by (rule nth_equalityI) (auto simp: xor_bytes_def xor.left_commute)

lemma xor_sum_Cons: "xor_sum L (x # xs) = xor_bytes x (xor_sum L xs)"
  by (simp add: xor_sum_def)

lemma xor_sum_middle: "xor_sum L (as @ x # bs) = xor_bytes x (xor_sum L (as @ bs))"
  by (induction as) (auto simp: xor_sum_Cons xor_bytes_left_commute)

lemma xor_sum_zero:
  assumes "\<forall>x\<in>set D. length x = L"
  shows "xor_sum L (D @ [xor_sum L D]) = replicate L 0"
proof -
  have "xor_sum L (D @ [xor_sum L D]) = xor_bytes (xor_sum L D) (xor_sum L D)"
    using xor_sum_middle[of L D "xor_sum L D" "[]"] by simp
  also have "\<dots> = replicate L 0"
    using length_xor_sum[OF assms] by (intro nth_equalityI) (auto simp: xor_bytes_def)
  finally show ?thesis .
qed

lemma drop_xor_sum: "drop n (xor_sum L xs) = xor_sum (L - n) (map (drop n) xs)"
  by (induction xs) (auto simp: xor_sum_def xor_bytes_def drop_map drop_zip)

lemma fill_slots_one:
  assumes "\<forall>x\<in>set E. length x = L" "xor_sum L E = replicate L 0" "i < length E" "1 < length E"
    "slots = (map Some E)[i := None]"
  shows "fill_slots slots = map Some E"
proof -
  let ?rest = "take i E @ drop (Suc i) E"
  have E: "E = take i E @ E ! i # drop (Suc i) E" using assms(3) by (rule id_take_nth_drop)
  have sl: "slots = map Some (take i E) @ None # map Some (drop (Suc i) E)"
    using assms(3,5) by (simp add: upd_conv_take_nth_drop take_map drop_map)
  have pr: "map the (filter (\<lambda>s. s \<noteq> None) slots) = ?rest" by (simp add: sl filter_map comp_def)
  have lens: "\<forall>x\<in>set ?rest. length x = L" using assms(1) by (auto dest: in_set_takeD in_set_dropD)
  have "?rest \<noteq> []" using assms(3,4) by (cases i) auto
  then have "length (hd ?rest) = L" using lens hd_in_set by blast
  moreover have "xor_sum L ?rest = E ! i"
    using xor_bytes_cancel[of "E ! i" L "xor_sum L ?rest"] length_xor_sum[OF lens] assms(1-3)
      xor_sum_middle[of L "take i E" "E ! i" "drop (Suc i) E"] E by (metis nth_mem)
  moreover have "map Some E = map Some (take i E) @ Some (E ! i) # map Some (drop (Suc i) E)"
    by (metis E map_append list.simps(9))
  ultimately show ?thesis unfolding fill_slots_def Let_def pr by (simp add: sl)
qed

lemma rs_xor_shape: "rs_shape rs_xor"
  by (simp add: rs_shape_def rs_xor_def fill_slots_def Let_def)

lemma rs_xor_encode_ok: "rs_encode_ok rs_xor d 1"
  using length_xor_sum by (auto simp: rs_encode_ok_def rs_xor_def)

lemma slots_one_missing:
  assumes "length slots = length E" "\<forall>i<length E. slots ! i = None \<or> slots ! i = Some (E ! i)"
    "length E \<le> Suc (length (filter (\<lambda>s. s \<noteq> None) slots))"
  shows "slots = map Some E \<or> (\<exists>i<length E. slots = (map Some E)[i := None])"
proof (cases "\<exists>i<length E. slots ! i = None")
  case False
  then have "\<forall>i<length E. slots ! i = Some (E ! i)" using assms(2) by blast
  then have "slots = map Some E" using assms(1) by (intro nth_equalityI) auto
  then show ?thesis ..
next
  case True
  then obtain i where i: "i < length E" "slots ! i = None" by blast
  have "length (filter (\<lambda>s. s \<noteq> None) slots) + length (filter (\<lambda>s. s = None) slots) = length slots"
    using sum_length_filter_compl[of "\<lambda>s. s \<noteq> None" slots] by simp
  then have "card {k. k < length slots \<and> slots ! k = None} \<le> 1"
    using assms(1,3) by (simp add: length_filter_conv_card)
  moreover have "finite {k. k < length slots \<and> slots ! k = None}" by simp
  ultimately have "k = i" if "k < length E" "slots ! k = None" for k
    using that i assms(1) card_le_Suc0_iff_eq[of "{k. k < length slots \<and> slots ! k = None}"] by auto
  then have "\<forall>k<length E. k \<noteq> i \<longrightarrow> slots ! k = Some (E ! k)" using assms(2) by blast
  then have "slots = (map Some E)[i := None]"
    using i assms(1) by (intro nth_equalityI) (clarsimp simp: nth_list_update)+
  then show ?thesis using i by blast
qed

lemma rs_xor_recover_ok:
  assumes "0 < d"
  shows "rs_recover_ok rs_xor d 1"
  unfolding rs_recover_ok_def
proof (intro allI impI, elim conjE)
  fix D P :: "bytes list" and L off slots
  assume D: "length D = d" "\<forall>x\<in>set D. length x = L" and off: "off < L"
    and enc: "rs_encode rs_xor d 1 (D @ replicate 1 (replicate L 0)) = (D @ P, True)"
    and slots: "length slots = d + 1" "\<forall>i<d + 1. slots ! i = None \<or> slots ! i = Some (drop off ((D @ P) ! i))"
      "d \<le> length (filter (\<lambda>s. s \<noteq> None) slots)"
  have P: "P = [xor_sum L D]" using enc D(1) by (simp add: rs_xor_def)
  let ?E = "map (drop off) (D @ P)"
  have lens: "\<forall>x\<in>set ?E. length x = L - off" using D length_xor_sum[OF D(2)] by (auto simp: P)
  have z: "xor_sum (L - off) ?E = replicate (L - off) 0"
    using drop_xor_sum[of off L "D @ P"] xor_sum_zero[OF D(2)] by (simp add: P)
  have "fill_slots slots = map Some ?E"
  proof -
    consider "slots = map Some ?E" | i where "i < length ?E" "slots = (map Some ?E)[i := None]"
      using slots_one_missing[of slots ?E] slots D(1) P by (auto simp del: map_append)
    then show ?thesis
    proof cases
      case 1
      then show ?thesis by (simp add: fill_slots_def Let_def)
    next
      case 2
      then show ?thesis using fill_slots_one[OF lens z 2(1) _ 2(2)] assms D(1) P by simp
    qed
  qed
  then show "\<exists>slots'. rs_reconstruct rs_xor d 1 slots = (slots', True) \<and> length slots' = d + 1
      \<and> (\<forall>i<d. slots' ! i = Some (drop off (D ! i)))"
    using slots(3) D(1) P by (auto simp: rs_xor_def nth_append)
qed

lemma rs_xor_correct: "0 < d \<Longrightarrow> rs_correct rs_xor d 1"
  using rs_xor_encode_ok rs_xor_recover_ok by (simp add: rs_correct_def) (simp add: rs_xor_def)

end
