(* ===== verification/Kmc_Packetizer.thy ===== *)
theory Kmc_Packetizer
  imports Kmc_Gsproto Kmc_Fec
begin

text \<open>
  \<^verbatim>\<open>kmc-streamhost/src/video/packetizer.rs\<close>: one encoded frame becomes a list of datagrams (shards),
  data shards followed by the Reed-Solomon parity shards of each FEC block. The erasure code is the
  parameter \<open>rs\<close> (theory \<open>Kmc_Fec\<close>).
\<close>

section \<open>The packetizer\<close>

definition copy_header_and_data :: "bytes \<Rightarrow> bytes \<Rightarrow> bytes \<Rightarrow> nat \<Rightarrow> nat \<Rightarrow> bytes option" where
  "copy_header_and_data dst header encoded_data offset len =
     (let total = VIDEO_FRAME_HEADER_SIZE + length encoded_data;
          end' = min (offset + len) total
      in if offset < VIDEO_FRAME_HEADER_SIZE then
           let header_end = min VIDEO_FRAME_HEADER_SIZE end'; n = header_end - offset
           in if n > length dst then None
              else let dst1 = blit 0 (take n (drop offset header)) dst
              in if end' > VIDEO_FRAME_HEADER_SIZE then
                   let n2 = end' - VIDEO_FRAME_HEADER_SIZE
                   in if n + n2 > length dst then None else Some (blit n (take n2 encoded_data) dst1)
                 else Some dst1
         else if end' < offset then None
         else
           let data_start = offset - VIDEO_FRAME_HEADER_SIZE; data_end = end' - VIDEO_FRAME_HEADER_SIZE
           in if data_end - data_start > length dst then None
              else Some (blit 0 (take (data_end - data_start) (drop data_start encoded_data)) dst))"

text \<open>The local variables of \<^verbatim>\<open>packetize_frame\<close> that its loops read.\<close>

record pkt_ctx =
  pk_encoded :: bytes
  pk_header :: bytes
  pk_spp :: nat
  pk_data_len :: nat
  pk_total :: nat
  pk_frame :: u32
  pk_ts :: u32
  pk_pct :: nat
  pk_ndpb :: nat
  pk_blocks :: nat

definition pkt_setup :: "bytes \<Rightarrow> bool \<Rightarrow> nat \<Rightarrow> u32 \<Rightarrow> u32 \<Rightarrow> nat \<Rightarrow> pkt_ctx" where
  "pkt_setup encoded_data is_key_frame requested_packet_size frame_number rtp_ts fec_pct =
     (let pct = clamp_nat 10 60 fec_pct;
          shard_payload_size = requested_packet_size - NV_VIDEO_PACKET_SIZE;
          packet_data_len = VIDEO_FRAME_HEADER_SIZE + length encoded_data;
          last_shard_size = (let n = packet_data_len mod shard_payload_size
                             in if n = 0 then shard_payload_size else n);
          header = vf_write \<lparr>vf_is_key_frame = is_key_frame, vf_frame_processing_latency = 0,
                             vf_last_payload_len = of_nat last_shard_size\<rparr>;
          total = max (div_ceil packet_data_len shard_payload_size) 1;
          nr_parity_per_block = MAX_SHARDS * pct div (100 + pct);
          ndpb = MAX_SHARDS - nr_parity_per_block;
          nr_blocks = min ((total - 1) div ndpb + 1) MAX_FEC_BLOCKS
      in \<lparr>pk_encoded = encoded_data, pk_header = header, pk_spp = shard_payload_size,
          pk_data_len = packet_data_len, pk_total = total, pk_frame = frame_number,
          pk_ts = rtp_ts, pk_pct = pct, pk_ndpb = ndpb, pk_blocks = nr_blocks\<rparr>)"

definition block_start :: "pkt_ctx \<Rightarrow> nat \<Rightarrow> nat" where
  "block_start c b = b * pk_ndpb c"

definition block_end :: "pkt_ctx \<Rightarrow> nat \<Rightarrow> nat" where
  "block_end c b = (if b = pk_blocks c - 1 then pk_total c else min ((b + 1) * pk_ndpb c) (pk_total c))"

definition block_data :: "pkt_ctx \<Rightarrow> nat \<Rightarrow> nat" where
  "block_data c b = block_end c b - block_start c b"

definition block_parity :: "pkt_ctx \<Rightarrow> nat \<Rightarrow> nat" where
  "block_parity c b = parity_shard_count (block_data c b) (pk_pct c)"

definition shard_flags :: "nat \<Rightarrow> nat \<Rightarrow> u8" where
  "shard_flags global_data_index total_data_shards =
     CONTAINS_PIC_DATA
       OR (if global_data_index = 0 then START_OF_FRAME else 0)
       OR (if global_data_index = total_data_shards - 1 then END_OF_FRAME else 0)"

definition data_shard :: "pkt_ctx \<Rightarrow> nat \<Rightarrow> u32 \<Rightarrow> nat \<Rightarrow> u32 \<Rightarrow> bytes option" where
  "data_shard c b seq i spi =
     (let global_data_index = block_start c b + i;
          payload_start = global_data_index * pk_spp c;
          payload_len = min (pk_spp c) (pk_data_len c - payload_start);
          cur_seq = seq + of_nat i;
          shard0 = replicate (PAYLOAD_OFFSET + pk_spp c) (0 :: u8)
      in do {
        shard1 \<leftarrow> rtp_write \<lparr>rtp_sequence_number = ucast cur_seq, rtp_timestamp = pk_ts c, rtp_ssrc = 0\<rparr> shard0;
        nv \<leftarrow> nv_write
          \<lparr>nv_stream_packet_index = spi, nv_frame_index = pk_frame c,
           nv_flags = shard_flags global_data_index (pk_total c),
           nv_multi_fec_blocks = pack_multi_fec_blocks b (pk_blocks c),
           nv_fec_info = pack_fec_info i (block_data c b) (pk_pct c)\<rparr>
          (drop NV_PACKET_OFFSET shard1);
        let shard2 = take NV_PACKET_OFFSET shard1 @ nv;
        payload \<leftarrow> copy_header_and_data (drop PAYLOAD_OFFSET shard2) (pk_header c) (pk_encoded c)
                     payload_start payload_len;
        Some (take PAYLOAD_OFFSET shard2 @ payload)
      })"

text \<open>The loop over the data shards of a block; \<open>spi\<close> counts data shards only and wraps.\<close>

fun write_data_shards :: "(nat \<Rightarrow> u32 \<Rightarrow> bytes option) \<Rightarrow> nat list \<Rightarrow> u32 \<Rightarrow> (bytes list \<times> u32) option" where
  "write_data_shards mk [] spi = Some ([], spi)"
| "write_data_shards mk (i # is) spi =
     do { s \<leftarrow> mk i spi; (ss, spi') \<leftarrow> write_data_shards mk is (spi + 1); Some (s # ss, spi') }"

text \<open>The failure of the encoder is only logged: the block is sent as the encoder left it.\<close>

definition fec_encode :: "rs_impl \<Rightarrow> nat \<Rightarrow> nat \<Rightarrow> bytes list \<Rightarrow> bytes list" where
  "fec_encode rs d p block = (if p > 0 \<and> rs_new rs d p then fst (rs_encode rs d p block) else block)"

definition patch_parity :: "pkt_ctx \<Rightarrow> nat \<Rightarrow> u32 \<Rightarrow> nat \<Rightarrow> bytes \<Rightarrow> bytes option" where
  "patch_parity c b seq j shard =
     (if length shard < PAYLOAD_OFFSET then None
      else
        let s1 = blit 0 ([RTP_VERSION_FLAGS, 0] @ u16_to_be_bytes (ucast (seq + of_nat j))) shard;
            s2 = blit (NV_PACKET_OFFSET + 4) (u32_to_le_bytes (pk_frame c)) s1;
            s3 = blit (NV_PACKET_OFFSET + 11) [pack_multi_fec_blocks b (pk_blocks c)] s2
        in Some (blit (NV_PACKET_OFFSET + 12)
             (u32_to_le_bytes (pack_fec_info j (block_data c b) (pk_pct c))) s3))"

text \<open>
  The last loop of a block, \<^verbatim>\<open>for i in 0..nr_parity\<close>, over the indices of its parity shards; \<^verbatim>\<open>shards\<close>
  indexed out of range panics.
\<close>

fun patch_parities :: "pkt_ctx \<Rightarrow> nat \<Rightarrow> u32 \<Rightarrow> bytes list \<Rightarrow> nat list \<Rightarrow> bytes list option" where
  "patch_parities c b seq block [] = Some []"
| "patch_parities c b seq block (j # js) =
     (if length block \<le> j then None
      else do { s \<leftarrow> patch_parity c b seq j (block ! j);
                ss \<leftarrow> patch_parities c b seq block js; Some (s # ss) })"

definition packetize_block :: "rs_impl \<Rightarrow> pkt_ctx \<Rightarrow> nat \<Rightarrow> u32 \<Rightarrow> u32 \<Rightarrow> (bytes list \<times> u32 \<times> u32) option" where
  "packetize_block rs c b seq spi =
     (let d = block_data c b; p = block_parity c b
      in do {
        (ds, spi') \<leftarrow> write_data_shards (data_shard c b seq) [0..<d] spi;
        let block = fec_encode rs d p (ds @ replicate p (replicate (PAYLOAD_OFFSET + pk_spp c) 0));
        ps \<leftarrow> patch_parities c b seq block [d..<d + p];
        Some (take d block @ ps, seq + of_nat (d + p), spi')
      })"

fun packetize_blocks :: "rs_impl \<Rightarrow> pkt_ctx \<Rightarrow> nat list \<Rightarrow> u32 \<Rightarrow> u32 \<Rightarrow> (bytes list \<times> u32 \<times> u32) option" where
  "packetize_blocks rs c [] seq spi = Some ([], seq, spi)"
| "packetize_blocks rs c (b # bs) seq spi =
     (if block_data c b = 0 then Some ([], seq, spi)
      else do {
        (ss, seq', spi') \<leftarrow> packetize_block rs c b seq spi;
        (rest, seq'', spi'') \<leftarrow> packetize_blocks rs c bs seq' spi';
        Some (ss @ rest, seq'', spi'')
      })"

definition packetize_frame ::
  "rs_impl \<Rightarrow> bytes \<Rightarrow> bool \<Rightarrow> nat \<Rightarrow> u32 \<Rightarrow> u32 \<Rightarrow> u32 \<Rightarrow> u32 \<Rightarrow> nat \<Rightarrow> (bytes list \<times> u32 \<times> u32) option" where
  "packetize_frame rs encoded_data is_key_frame requested_packet_size frame_number
     sequence_number stream_packet_index rtp_ts fec_pct =
     (if requested_packet_size \<le> NV_VIDEO_PACKET_SIZE then None
      else let c = pkt_setup encoded_data is_key_frame requested_packet_size frame_number rtp_ts fec_pct
           in packetize_blocks rs c [0..<pk_blocks c] sequence_number stream_packet_index)"

section \<open>Specification: what a shard carries\<close>

text \<open>The logical stream (frame header, then the encoded frame) and its \<open>g\<close>-th padded slice.\<close>

definition pkt_stream :: "pkt_ctx \<Rightarrow> bytes" where
  "pkt_stream c = pk_header c @ pk_encoded c"

definition pkt_slice :: "pkt_ctx \<Rightarrow> nat \<Rightarrow> bytes" where
  "pkt_slice c g =
     (let s = take (pk_spp c) (drop (g * pk_spp c) (pkt_stream c))
      in s @ replicate (pk_spp c - length s) 0)"

definition data_nv :: "pkt_ctx \<Rightarrow> nat \<Rightarrow> nat \<Rightarrow> u32 \<Rightarrow> nv_video_packet" where
  "data_nv c b i spi =
     \<lparr>nv_stream_packet_index = spi, nv_frame_index = pk_frame c,
      nv_flags = shard_flags (block_start c b + i) (pk_total c),
      nv_multi_fec_blocks = pack_multi_fec_blocks b (pk_blocks c),
      nv_fec_info = pack_fec_info i (block_data c b) (pk_pct c)\<rparr>"

definition data_datagram :: "pkt_ctx \<Rightarrow> nat \<Rightarrow> u32 \<Rightarrow> nat \<Rightarrow> u32 \<Rightarrow> bytes" where
  "data_datagram c b seq i spi =
     rtp_header_bytes \<lparr>rtp_sequence_number = ucast (seq + of_nat i), rtp_timestamp = pk_ts c, rtp_ssrc = 0\<rparr>
       @ replicate 4 0 @ nv_packet_bytes (data_nv c b i spi) @ pkt_slice c (block_start c b + i)"

definition ctx_ok :: "pkt_ctx \<Rightarrow> bool" where
  "ctx_ok c \<longleftrightarrow> 0 < pk_spp c \<and> length (pk_header c) = 8 \<and> pk_data_len c = 8 + length (pk_encoded c)
     \<and> pk_total c = div_ceil (pk_data_len c) (pk_spp c) \<and> 10 \<le> pk_pct c \<and> pk_pct c \<le> 60
     \<and> pk_ndpb c = 255 - 255 * pk_pct c div (100 + pk_pct c)
     \<and> pk_blocks c = min ((pk_total c - 1) div pk_ndpb c + 1) 4"

lemma ctx_ok_setup:
  assumes "16 < psize"
  shows "ctx_ok (pkt_setup enc key psize frame ts pct)"
proof -
  have "0 < div_ceil (8 + length enc) (psize - 16)"
    using assms by (intro div_ceil_pos) auto
  then show ?thesis using assms by (simp add: ctx_ok_def pkt_setup_def Let_def)
qed

lemma copy_header_and_data_eq:
  assumes "length header = 8" "offset + len \<le> 8 + length enc" "len \<le> length dst"
  shows "copy_header_and_data dst header enc offset len =
     Some (take len (drop offset (header @ enc)) @ drop len dst)"
proof -
  have m: "min (offset + len) (8 + length enc) = offset + len" using assms(2) by simp
  consider "offset < 8" "offset + len \<le> 8" | "offset < 8" "8 < offset + len" | "8 \<le> offset"
    by linarith
  then show ?thesis
  proof cases
    case 1
    then have "min 8 (offset + len) = offset + len" by simp
    then show ?thesis using 1 assms m
      by (simp add: copy_header_and_data_def Let_def blit_def)
  next
    case 2
    then have "min 8 (offset + len) = 8" by simp
    moreover have "take (8 - offset) (drop offset header) = drop offset header" using assms(1) by simp
    moreover have "\<not> length dst < 8 - offset" using 2 assms(3) by linarith
    ultimately show ?thesis using 2 assms m
      by (simp add: copy_header_and_data_def Let_def blit_def add.commute[of len offset])
  next
    case 3
    then show ?thesis using assms m
      by (simp add: copy_header_and_data_def Let_def blit_def)
  qed
qed

lemma ctx_index_bound:
  assumes "ctx_ok c" "g < pk_total c"
  shows "g * pk_spp c < pk_data_len c"
proof -
  have "g * pk_spp c \<le> (pk_total c - 1) * pk_spp c" using assms(2) by (intro mult_right_mono) auto
  also have "\<dots> < pk_data_len c"
    using div_ceil_pred_less[of "pk_spp c" "pk_data_len c"] assms(1) by (simp add: ctx_ok_def)
  finally show ?thesis .
qed

lemma length_pkt_slice [simp]: "length (pkt_slice c g) = pk_spp c"
  by (simp add: pkt_slice_def Let_def)

lemma length_data_datagram [simp]: "length (data_datagram c b seq i spi) = 32 + pk_spp c"
  by (simp add: data_datagram_def)

lemma data_shard_eq:
  assumes "ctx_ok c" "block_start c b + i < pk_total c"
  shows "data_shard c b seq i spi = Some (data_datagram c b seq i spi)"
proof -
  let ?g = "block_start c b + i"
  let ?l = "min (pk_spp c) (pk_data_len c - ?g * pk_spp c)"
  have g: "?g * pk_spp c < pk_data_len c" using assms by (rule ctx_index_bound)
  have "copy_header_and_data (replicate (pk_spp c) 0) (pk_header c) (pk_encoded c) (?g * pk_spp c) ?l =
      Some (take ?l (drop (?g * pk_spp c) (pkt_stream c)) @ drop ?l (replicate (pk_spp c) 0))"
    unfolding pkt_stream_def using assms(1) g
    by (intro copy_header_and_data_eq) (auto simp: ctx_ok_def)
  moreover have "take ?l (drop (?g * pk_spp c) (pkt_stream c)) = take (pk_spp c) (drop (?g * pk_spp c) (pkt_stream c))"
    using assms(1) by (auto simp: pkt_stream_def ctx_ok_def min_def)
  moreover have "length (take (pk_spp c) (drop (?g * pk_spp c) (pkt_stream c))) = ?l"
    using assms(1) by (simp add: pkt_stream_def ctx_ok_def min.commute)
  ultimately have "copy_header_and_data (replicate (pk_spp c) 0) (pk_header c) (pk_encoded c)
      (?g * pk_spp c) ?l = Some (pkt_slice c ?g)"
    by (simp add: pkt_slice_def Let_def)
  then show ?thesis
    by (simp add: data_shard_def Let_def rtp_write_def nv_write_def data_datagram_def data_nv_def)
qed

section \<open>Block arithmetic\<close>

lemma ndpb_bounds:
  assumes "ctx_ok c"
  shows "160 \<le> pk_ndpb c" "pk_ndpb c \<le> 232"
proof -
  have p: "10 \<le> pk_pct c" "pk_pct c \<le> 60" and n: "pk_ndpb c = 255 - 255 * pk_pct c div (100 + pk_pct c)"
    using assms by (auto simp: ctx_ok_def)
  have "255 * pk_pct c div (100 + pk_pct c) < 96"
    using p by (intro less_mult_imp_div_less) simp
  moreover have "23 \<le> 255 * pk_pct c div (100 + pk_pct c)"
    using p by (simp add: less_eq_div_iff_mult_less_eq)
  ultimately show "160 \<le> pk_ndpb c" "pk_ndpb c \<le> 232" unfolding n by linarith+
qed

lemma blocks_bounds: "ctx_ok c \<Longrightarrow> 1 \<le> pk_blocks c \<and> pk_blocks c \<le> 4"
  by (simp add: ctx_ok_def)

lemma total_pos: "ctx_ok c \<Longrightarrow> 0 < pk_total c"
  by (auto simp: ctx_ok_def intro!: div_ceil_pos)

lemma block_start_lt:
  assumes "ctx_ok c" "b < pk_blocks c"
  shows "block_start c b < pk_total c"
proof -
  have "b \<le> (pk_total c - 1) div pk_ndpb c" using assms by (auto simp: ctx_ok_def)
  then have "b * pk_ndpb c \<le> (pk_total c - 1) div pk_ndpb c * pk_ndpb c" by (rule mult_right_mono) simp
  also have "\<dots> \<le> pk_total c - 1" by simp
  finally show ?thesis using total_pos[OF assms(1)] by (simp add: block_start_def)
qed

lemma block_end_le: "block_end c b \<le> pk_total c"
  by (simp add: block_end_def)

lemma block_start_less_end:
  assumes "ctx_ok c" "b < pk_blocks c"
  shows "block_start c b < block_end c b"
  using block_start_lt[OF assms] ndpb_bounds[OF assms(1)]
  by (auto simp: block_end_def block_start_def)

lemma block_data_pos: "ctx_ok c \<Longrightarrow> b < pk_blocks c \<Longrightarrow> 0 < block_data c b"
  using block_start_less_end by (simp add: block_data_def)

lemma block_end_next:
  assumes "ctx_ok c" "Suc b < pk_blocks c"
  shows "block_end c b = block_start c (Suc b)"
  using block_start_lt[OF assms] assms(2) by (auto simp: block_end_def block_start_def)

lemma block_end_last: "ctx_ok c \<Longrightarrow> block_end c (pk_blocks c - 1) = pk_total c"
  by (simp add: block_end_def)

lemma block_index_in_total:
  "ctx_ok c \<Longrightarrow> b < pk_blocks c \<Longrightarrow> i < block_data c b \<Longrightarrow> block_start c b + i < pk_total c"
  using block_end_le[of c b] by (simp add: block_data_def)

text \<open>A frame fits when the last block, which takes the excess, stays within 255 data shards.\<close>

definition frame_fits :: "pkt_ctx \<Rightarrow> bool" where
  "frame_fits c \<longleftrightarrow> pk_total c \<le> 3 * pk_ndpb c + 255"

lemma block_data_le:
  assumes "ctx_ok c" "frame_fits c" "b < pk_blocks c"
  shows "block_data c b \<le> 255"
proof (cases "b = pk_blocks c - 1")
  case False
  then show ?thesis using assms ndpb_bounds[OF assms(1)]
    by (simp add: block_data_def block_end_def block_start_def)
next
  case True
  have n: "pk_ndpb c \<le> 255" "0 < pk_ndpb c" using ndpb_bounds[OF assms(1)] by auto
  show ?thesis
  proof (cases "pk_blocks c = 4")
    case b4: True
    then show ?thesis using True assms(2) by (simp add: block_data_def block_end_def block_start_def frame_fits_def)
  next
    case False
    then have b: "pk_blocks c = (pk_total c - 1) div pk_ndpb c + 1" using assms(1) by (auto simp: ctx_ok_def min_def split: if_splits)
    have "pk_total c - 1 < ((pk_total c - 1) div pk_ndpb c + 1) * pk_ndpb c"
      using n(2) dividend_less_div_times[of "pk_ndpb c" "pk_total c - 1"] by simp
    then have "pk_total c - (pk_blocks c - 1) * pk_ndpb c \<le> pk_ndpb c" using b by simp
    then show ?thesis using True n by (simp add: block_data_def block_end_def block_start_def)
  qed
qed

lemma block_total_le:
  "ctx_ok c \<Longrightarrow> frame_fits c \<Longrightarrow> b < pk_blocks c \<Longrightarrow> block_data c b + block_parity c b \<le> 255"
  using block_data_le parity_shard_count_bound by (simp add: block_parity_def)

section \<open>The shards of a block\<close>

definition carries :: "pkt_ctx \<Rightarrow> nat \<Rightarrow> nat \<Rightarrow> u32 \<Rightarrow> bytes \<Rightarrow> bool" where
  "carries c b j seq dg \<longleftrightarrow>
     length dg = 32 + pk_spp c \<and> dg ! 0 = RTP_VERSION_FLAGS
     \<and> (\<exists>h. rtp_read dg = Some h \<and> rtp_sequence_number h = ucast (seq + of_nat j))
     \<and> (\<exists>nv. nv_read_from_shard dg = Some nv \<and> nv_frame_index nv = pk_frame c
          \<and> nv_multi_fec_blocks nv = pack_multi_fec_blocks b (pk_blocks c)
          \<and> nv_fec_info nv = pack_fec_info j (block_data c b) (pk_pct c))"

lemma data_datagram_carries: "carries c b i seq (data_datagram c b seq i spi)"
proof -
  have "data_datagram c b seq i spi ! 0 = RTP_VERSION_FLAGS"
    by (simp add: data_datagram_def rtp_header_bytes_def)
  moreover have "rtp_read (data_datagram c b seq i spi) =
      Some \<lparr>rtp_sequence_number = ucast (seq + of_nat i), rtp_timestamp = pk_ts c, rtp_ssrc = 0\<rparr>"
    by (simp add: data_datagram_def wire_simps)
  moreover have "drop 16 (data_datagram c b seq i spi) =
      nv_packet_bytes (data_nv c b i spi) @ pkt_slice c (block_start c b + i)"
    by (simp add: data_datagram_def)
  ultimately show ?thesis
    by (simp add: carries_def nv_read_from_shard_def wire_simps data_nv_def)
qed

lemma data_datagram_payload [simp]:
  "drop 32 (data_datagram c b seq i spi) = pkt_slice c (block_start c b + i)"
  by (simp add: data_datagram_def)

lemma patch_parity_carries:
  assumes "length shard = 32 + pk_spp c"
  shows "\<exists>dg. patch_parity c b seq j shard = Some dg \<and> carries c b j seq dg \<and> drop 32 dg = drop 32 shard"
proof -
  define dg where "dg = blit 28 (u32_to_le_bytes (pack_fec_info j (block_data c b) (pk_pct c)))
    (blit 27 [pack_multi_fec_blocks b (pk_blocks c)]
      (blit 20 (u32_to_le_bytes (pk_frame c))
        (blit 0 ([RTP_VERSION_FLAGS, 0] @ u16_to_be_bytes (ucast (seq + of_nat j))) shard)))"
  have len: "length dg = 32 + pk_spp c" using assms by (simp add: dg_def)
  have nth: "dg ! 0 = RTP_VERSION_FLAGS" "dg ! 2 = ucast (drop_bit 8 (ucast (seq + of_nat j) :: u16))"
    "dg ! 3 = ucast (ucast (seq + of_nat j) :: u16)"
    "dg ! 20 = ucast (pk_frame c)" "dg ! 21 = ucast (drop_bit 8 (pk_frame c))"
    "dg ! 22 = ucast (drop_bit 16 (pk_frame c))" "dg ! 23 = ucast (drop_bit 24 (pk_frame c))"
    "dg ! 27 = pack_multi_fec_blocks b (pk_blocks c)"
    "dg ! 28 = ucast (pack_fec_info j (block_data c b) (pk_pct c))"
    "dg ! 29 = ucast (drop_bit 8 (pack_fec_info j (block_data c b) (pk_pct c)))"
    "dg ! 30 = ucast (drop_bit 16 (pack_fec_info j (block_data c b) (pk_pct c)))"
    "dg ! 31 = ucast (drop_bit 24 (pack_fec_info j (block_data c b) (pk_pct c)))"
    unfolding dg_def using assms by (simp_all add: nth_blit to_bytes_defs)
  have "patch_parity c b seq j shard = Some dg"
    using assms by (simp add: patch_parity_def Let_def dg_def)
  moreover have "carries c b j seq dg"
    using len nth by (simp add: carries_def rtp_read_def nv_read_from_shard_def nv_read_def del: ucast_drop_bit_eq)
  moreover have "drop 32 dg = drop 32 shard"
    unfolding dg_def using assms by (simp add: drop_blit_above)
  ultimately show ?thesis by blast
qed


section \<open>Closed form of a block and of a frame\<close>

definition data_datagrams :: "pkt_ctx \<Rightarrow> nat \<Rightarrow> u32 \<Rightarrow> u32 \<Rightarrow> bytes list" where
  "data_datagrams c b seq spi =
     map (\<lambda>i. data_datagram c b seq i (spi + of_nat i)) [0..<block_data c b]"

text \<open>
  \<open>ss\<close> are the shards of block \<open>b\<close>: the data datagrams, then parity datagrams whose payloads are those
  the erasure code computed; each names its block, its position and its sequence number.
\<close>

definition block_shards :: "rs_impl \<Rightarrow> pkt_ctx \<Rightarrow> nat \<Rightarrow> u32 \<Rightarrow> u32 \<Rightarrow> bytes list \<Rightarrow> bool" where
  "block_shards rs c b seq spi ss \<longleftrightarrow>
     (\<exists>P. length P = block_parity c b \<and> (\<forall>x\<in>set P. length x = 32 + pk_spp c)
        \<and> (0 < block_parity c b \<longrightarrow>
             rs_encode rs (block_data c b) (block_parity c b)
               (data_datagrams c b seq spi @ replicate (block_parity c b) (replicate (32 + pk_spp c) 0))
             = (data_datagrams c b seq spi @ P, True))
        \<and> length ss = block_data c b + block_parity c b
        \<and> take (block_data c b) ss = data_datagrams c b seq spi
        \<and> (\<forall>j < block_data c b + block_parity c b.
             carries c b j seq (ss ! j) \<and> drop 32 (ss ! j) = drop 32 ((data_datagrams c b seq spi @ P) ! j)))"

definition block_code_ok :: "rs_impl \<Rightarrow> pkt_ctx \<Rightarrow> nat \<Rightarrow> bool" where
  "block_code_ok rs c b \<longleftrightarrow> (0 < block_parity c b \<longrightarrow> rs_correct rs (block_data c b) (block_parity c b))"

lemma length_data_datagrams [simp]: "length (data_datagrams c b seq spi) = block_data c b"
  by (simp add: data_datagrams_def)

lemma nth_data_datagrams [simp]:
  "i < block_data c b \<Longrightarrow> data_datagrams c b seq spi ! i = data_datagram c b seq i (spi + of_nat i)"
  by (simp add: data_datagrams_def)

lemma data_datagrams_lengths: "x \<in> set (data_datagrams c b seq spi) \<Longrightarrow> length x = 32 + pk_spp c"
  by (auto simp: data_datagrams_def)

lemma write_data_shards_eq:
  assumes "\<And>i s. k \<le> i \<Longrightarrow> i < k + n \<Longrightarrow> mk i s = Some (f i s)"
  shows "write_data_shards mk [k..<k + n] spi =
     Some (map (\<lambda>i. f i (spi + of_nat (i - k))) [k..<k + n], spi + of_nat n)"
  using assms
proof (induction n arbitrary: k spi)
  case (Suc n)
  have "map (\<lambda>i. f i (spi + 1 + of_nat (i - Suc k))) [Suc k..<Suc k + n] =
        map (\<lambda>i. f i (spi + of_nat (i - k))) [Suc k..<Suc k + n]"
    by (rule map_cong) (auto simp: Suc_diff_Suc of_nat_Suc[symmetric] add.assoc simp del: of_nat_Suc)
  moreover have "[k..<k + Suc n] = k # [Suc k..<Suc k + n]" by (simp add: upt_conv_Cons)
  ultimately show ?case using Suc.IH[of "Suc k" "spi + 1"] Suc.prems
    by (simp add: algebra_simps)
qed simp

lemma write_data_shards_block:
  assumes "ctx_ok c" "b < pk_blocks c"
  shows "write_data_shards (data_shard c b seq) [0..<block_data c b] spi =
     Some (data_datagrams c b seq spi, spi + of_nat (block_data c b))"
  using write_data_shards_eq[of 0 "block_data c b" "data_shard c b seq" "data_datagram c b seq" spi]
    data_shard_eq[OF assms(1)] block_index_in_total[OF assms]
  by (simp add: data_datagrams_def)

lemma patch_parities_carries:
  assumes "\<And>j. j \<in> set js \<Longrightarrow> j < length block \<and> length (block ! j) = 32 + pk_spp c"
  shows "\<exists>ss. patch_parities c b seq block js = Some ss \<and> length ss = length js
    \<and> (\<forall>k<length js. carries c b (js ! k) seq (ss ! k) \<and> drop 32 (ss ! k) = drop 32 (block ! (js ! k)))"
  using assms
proof (induction js)
  case (Cons j js)
  then obtain ss where ss: "patch_parities c b seq block js = Some ss" "length ss = length js"
      "\<forall>k<length js. carries c b (js ! k) seq (ss ! k) \<and> drop 32 (ss ! k) = drop 32 (block ! (js ! k))"
    by auto
  moreover obtain dg where "patch_parity c b seq j (block ! j) = Some dg" "carries c b j seq dg"
      "drop 32 dg = drop 32 (block ! j)"
    using patch_parity_carries[of "block ! j" c b seq j] Cons.prems by auto
  ultimately show ?case using Cons.prems
    by (auto simp: nth_Cons' not_less[symmetric] intro!: exI[of _ "dg # ss"])
qed simp

lemma fec_encode_block:
  assumes "block_code_ok rs c b" "0 < pk_spp c"
  obtains P where "fec_encode rs (block_data c b) (block_parity c b)
      (data_datagrams c b seq spi @ replicate (block_parity c b) (replicate (32 + pk_spp c) 0)) =
      data_datagrams c b seq spi @ P"
    "length P = block_parity c b" "\<forall>x\<in>set P. length x = 32 + pk_spp c"
    "0 < block_parity c b \<longrightarrow> rs_encode rs (block_data c b) (block_parity c b)
       (data_datagrams c b seq spi @ replicate (block_parity c b) (replicate (32 + pk_spp c) 0)) =
       (data_datagrams c b seq spi @ P, True)"
proof (cases "0 < block_parity c b")
  case False
  then show ?thesis using that[of "[]"] by (simp add: fec_encode_def)
next
  case True
  then have "rs_encode_ok rs (block_data c b) (block_parity c b)" and n: "rs_new rs (block_data c b) (block_parity c b)"
    using assms(1) by (auto simp: block_code_ok_def rs_correct_def)
  then obtain P where "rs_encode rs (block_data c b) (block_parity c b)
      (data_datagrams c b seq spi @ replicate (block_parity c b) (replicate (32 + pk_spp c) 0)) =
      (data_datagrams c b seq spi @ P, True)" "length P = block_parity c b" "\<forall>x\<in>set P. length x = 32 + pk_spp c"
    unfolding rs_encode_ok_def
    using data_datagrams_lengths[of _ c b seq spi]
    by (elim allE[of _ "data_datagrams c b seq spi"] allE[of _ "32 + pk_spp c"] impE exE conjE) auto
  then show ?thesis using that[of P] True n by (simp add: fec_encode_def)
qed

lemma packetize_block_ok:
  assumes "ctx_ok c" "b < pk_blocks c" "block_code_ok rs c b"
  obtains ss where "packetize_block rs c b seq spi =
      Some (ss, seq + of_nat (block_data c b + block_parity c b), spi + of_nat (block_data c b))"
    "block_shards rs c b seq spi ss"
proof -
  let ?d = "block_data c b" and ?p = "block_parity c b" and ?D = "data_datagrams c b seq spi"
  obtain P where P: "fec_encode rs ?d ?p (?D @ replicate ?p (replicate (32 + pk_spp c) 0)) = ?D @ P"
      "length P = ?p" "\<forall>x\<in>set P. length x = 32 + pk_spp c"
      "0 < ?p \<longrightarrow> rs_encode rs ?d ?p (?D @ replicate ?p (replicate (32 + pk_spp c) 0)) = (?D @ P, True)"
    using fec_encode_block[OF assms(3)] assms(1) unfolding ctx_ok_def by blast
  have "j < length (?D @ P) \<and> length ((?D @ P) ! j) = 32 + pk_spp c" if "j \<in> set [?d..<?d + ?p]" for j
    using that P by (auto simp: nth_append)
  from patch_parities_carries[OF this] obtain ps where
      "patch_parities c b seq (?D @ P) [?d..<?d + ?p] = Some ps \<and> length ps = length [?d..<?d + ?p]
       \<and> (\<forall>k<length [?d..<?d + ?p]. carries c b ([?d..<?d + ?p] ! k) seq (ps ! k)
            \<and> drop 32 (ps ! k) = drop 32 ((?D @ P) ! ([?d..<?d + ?p] ! k)))" ..
  then have ps: "patch_parities c b seq (?D @ P) [?d..<?d + ?p] = Some ps" "length ps = ?p"
      "\<forall>k<?p. carries c b (?d + k) seq (ps ! k) \<and> drop 32 (ps ! k) = drop 32 ((?D @ P) ! (?d + k))"
    by simp_all
  have "carries c b j seq ((?D @ ps) ! j) \<and> drop 32 ((?D @ ps) ! j) = drop 32 ((?D @ P) ! j)"
    if "j < ?d + ?p" for j
  proof (cases "j < ?d")
    case True
    then show ?thesis by (simp add: nth_append data_datagram_carries)
  next
    case False
    then show ?thesis using ps(3)[rule_format, of "j - ?d"] that by (simp add: nth_append)
  qed
  then have "block_shards rs c b seq spi (?D @ ps)"
    unfolding block_shards_def using P ps(2) by (intro exI[of _ P]) auto
  moreover have "packetize_block rs c b seq spi = Some (?D @ ps, seq + of_nat (?d + ?p), spi + of_nat ?d)"
    using write_data_shards_block[OF assms(1,2)] P(1) ps(1) by (simp add: packetize_block_def Let_def)
  ultimately show ?thesis using that by blast
qed

text \<open>The counters at the start of block \<open>b\<close> of a frame.\<close>

definition shards_before :: "pkt_ctx \<Rightarrow> nat \<Rightarrow> nat" where
  "shards_before c b = (\<Sum>b'<b. block_data c b' + block_parity c b')"

definition block_seq :: "pkt_ctx \<Rightarrow> u32 \<Rightarrow> nat \<Rightarrow> u32" where
  "block_seq c seq b = seq + of_nat (shards_before c b)"

definition block_spi :: "pkt_ctx \<Rightarrow> u32 \<Rightarrow> nat \<Rightarrow> u32" where
  "block_spi c spi b = spi + of_nat (\<Sum>b'<b. block_data c b')"

lemma block_counters_0 [simp]: "block_seq c seq 0 = seq" "block_spi c spi 0 = spi"
  by (simp_all add: block_seq_def block_spi_def shards_before_def)

lemma block_counters_Suc:
  "block_seq c seq (Suc b) = block_seq c seq b + of_nat (block_data c b + block_parity c b)"
  "block_spi c spi (Suc b) = block_spi c spi b + of_nat (block_data c b)"
  by (simp_all add: block_seq_def block_spi_def shards_before_def)

definition frame_blocks :: "rs_impl \<Rightarrow> pkt_ctx \<Rightarrow> u32 \<Rightarrow> u32 \<Rightarrow> bytes list list \<Rightarrow> bool" where
  "frame_blocks rs c seq spi sss \<longleftrightarrow> length sss = pk_blocks c
     \<and> (\<forall>b<pk_blocks c. block_shards rs c b (block_seq c seq b) (block_spi c spi b) (sss ! b))"

lemma packetize_blocks_ok:
  assumes "ctx_ok c" "\<forall>b<pk_blocks c. block_code_ok rs c b" "b + n = pk_blocks c"
  shows "\<exists>sss. packetize_blocks rs c [b..<b + n] (block_seq c seq b) (block_spi c spi b) =
      Some (concat sss, block_seq c seq (pk_blocks c), block_spi c spi (pk_blocks c)) \<and> length sss = n
      \<and> (\<forall>k<n. block_shards rs c (b + k) (block_seq c seq (b + k)) (block_spi c spi (b + k)) (sss ! k))"
  using assms(3)
proof (induction n arbitrary: b)
  case (Suc n)
  then obtain sss where IH: "packetize_blocks rs c [Suc b..<Suc b + n] (block_seq c seq (Suc b)) (block_spi c spi (Suc b)) =
      Some (concat sss, block_seq c seq (pk_blocks c), block_spi c spi (pk_blocks c))" "length sss = n"
      "\<forall>k<n. block_shards rs c (Suc b + k) (block_seq c seq (Suc b + k)) (block_spi c spi (Suc b + k)) (sss ! k)"
    using Suc.IH[of "Suc b"] Suc.prems by (auto simp del: upt_Suc)
  have b: "b < pk_blocks c" using Suc.prems by simp
  obtain ss where ss: "packetize_block rs c b (block_seq c seq b) (block_spi c spi b) =
      Some (ss, block_seq c seq (Suc b), block_spi c spi (Suc b))"
      "block_shards rs c b (block_seq c seq b) (block_spi c spi b) ss"
    using packetize_block_ok[OF assms(1) b, of rs "block_seq c seq b" "block_spi c spi b"] assms(2) b
    unfolding block_counters_Suc by blast
  have "block_shards rs c (b + k) (block_seq c seq (b + k)) (block_spi c spi (b + k)) ((ss # sss) ! k)"
    if "k < Suc n" for k using that IH(3) ss(2) by (cases k) auto
  moreover have "[b..<b + Suc n] = b # [Suc b..<Suc b + n]" by (simp add: upt_conv_Cons)
  ultimately show ?case using IH(1,2) ss(1) block_data_pos[OF assms(1) b]
    by (intro exI[of _ "ss # sss"]) (simp del: upt_Suc)
qed simp

lemma packetize_frame_blocks:
  assumes "16 < psize" "c = pkt_setup enc key psize frame ts pct" "\<forall>b<pk_blocks c. block_code_ok rs c b"
  obtains sss where "packetize_frame rs enc key psize frame seq spi ts pct =
      Some (concat sss, block_seq c seq (pk_blocks c), block_spi c spi (pk_blocks c))"
    "frame_blocks rs c seq spi sss"
proof -
  have "ctx_ok c" using ctx_ok_setup[OF assms(1)] assms(2) by simp
  from packetize_blocks_ok[OF this assms(3), of 0 "pk_blocks c" seq spi] obtain sss where
      "packetize_blocks rs c [0..<pk_blocks c] seq spi =
        Some (concat sss, block_seq c seq (pk_blocks c), block_spi c spi (pk_blocks c))"
      "frame_blocks rs c seq spi sss"
    by (auto simp: frame_blocks_def)
  then show ?thesis using that[of sss] assms(1) by (simp add: packetize_frame_def Let_def assms(2))
qed

lemma sum_block_data:
  assumes "ctx_ok c" "b < pk_blocks c"
  shows "(\<Sum>b'<b. block_data c b') = block_start c b"
  using assms(2)
proof (induction b)
  case 0
  then show ?case by (simp add: block_start_def)
next
  case (Suc b)
  then show ?case using block_end_next[OF assms(1)] block_start_less_end[OF assms(1), of b]
    by (simp add: block_data_def)
qed

lemma sum_block_data_total: "ctx_ok c \<Longrightarrow> (\<Sum>b<pk_blocks c. block_data c b) = pk_total c"
  using sum_block_data[of c "pk_blocks c - 1"] blocks_bounds[of c] block_end_last[of c]
    block_start_less_end[of c "pk_blocks c - 1"] sum.lessThan_Suc[of "block_data c" "pk_blocks c - 1"]
  by (auto simp: block_data_def)

lemma shards_before_Suc: "shards_before c (Suc b) = shards_before c b + (block_data c b + block_parity c b)"
  by (simp add: shards_before_def)

lemma nth_shards:
  assumes "length sss = n" "\<And>b. b < n \<Longrightarrow> length (sss ! b) = block_data c b + block_parity c b"
    "i < length (concat sss)"
  obtains b j where "b < n" "j < length (sss ! b)" "i = shards_before c b + j" "concat sss ! i = sss ! b ! j"
  using assms
proof (induction sss arbitrary: n i thesis rule: rev_induct)
  case (snoc ss sss)
  have n: "n = Suc (length sss)" using snoc.prems(2) by simp
  have lens: "length (sss ! b) = block_data c b + block_parity c b" if "b < length sss" for b
    using snoc.prems(3)[of b] that n by (simp add: nth_append)
  have tot: "length (concat sss) = shards_before c (length sss)"
    unfolding length_concat shards_before_def using lens
    by (simp add: sum_list_sum_nth atLeast0LessThan)
  show ?case
  proof (cases "i < length (concat sss)")
    case True
    then obtain b j where "b < length sss" "j < length (sss ! b)" "i = shards_before c b + j" "concat sss ! i = sss ! b ! j"
      using snoc.IH[of "length sss" i] lens by blast
    then show ?thesis using snoc.prems(1)[of b j] n True by (simp add: nth_append)
  next
    case False
    then show ?thesis using snoc.prems(1)[of "length sss" "i - length (concat sss)"] snoc.prems(4) n tot
      by (simp add: nth_append)
  qed
qed simp

lemma frame_blocks_lengths:
  "frame_blocks rs c seq spi sss \<Longrightarrow> b < pk_blocks c \<Longrightarrow> length (sss ! b) = block_data c b + block_parity c b"
  by (auto simp: frame_blocks_def block_shards_def)

lemma frame_blocks_nth:
  assumes "frame_blocks rs c seq spi sss" "i < length (concat sss)"
  shows "\<exists>h. length (concat sss ! i) = 32 + pk_spp c \<and> rtp_read (concat sss ! i) = Some h
    \<and> rtp_sequence_number h = ucast (seq + of_nat i)"
proof -
  have "length sss = pk_blocks c" using assms(1) by (simp add: frame_blocks_def)
  from nth_shards[OF this frame_blocks_lengths[OF assms(1)] assms(2)]
  obtain b j where bj: "b < pk_blocks c" "j < length (sss ! b)" "i = shards_before c b + j"
    "concat sss ! i = sss ! b ! j" .
  have "carries c b j (block_seq c seq b) (sss ! b ! j)"
    using assms(1) bj(1,2) frame_blocks_lengths[OF assms(1) bj(1)] by (auto simp: frame_blocks_def block_shards_def)
  then show ?thesis using bj(3,4) by (auto simp: carries_def block_seq_def add.assoc)
qed

lemma frame_blocks_count:
  assumes "frame_blocks rs c seq spi sss"
  shows "length (concat sss) = shards_before c (pk_blocks c)"
proof -
  have "length sss = pk_blocks c" using assms by (simp add: frame_blocks_def)
  then show ?thesis using frame_blocks_lengths[OF assms]
    by (simp add: length_concat shards_before_def sum_list_sum_nth atLeast0LessThan)
qed

section \<open>Properties\<close>

text \<open>
  The packetizer is total on every packet size above the header's and every erasure code that
  works, and its counters are right: it returns the shards of all blocks, each of the negotiated size,
  the \<open>i\<close>-th with RTP sequence number \<open>seq + i\<close> (modulo 2 ^ 16); the sequence counter advances by the number
  of datagrams and the packet index by the number of data shards only.
\<close>

theorem packetize_frame_counters:
  assumes "16 < psize" "c = pkt_setup enc key psize frame ts pct" "\<forall>b<pk_blocks c. block_code_ok rs c b"
  shows "\<exists>shards. packetize_frame rs enc key psize frame seq spi ts pct =
      Some (shards, seq + of_nat (length shards), spi + of_nat (pk_total c))
    \<and> (\<forall>i<length shards. length (shards ! i) = psize + 16
        \<and> (\<exists>h. rtp_read (shards ! i) = Some h \<and> rtp_sequence_number h = ucast (seq + of_nat i)))"
proof -
  obtain sss where sss: "packetize_frame rs enc key psize frame seq spi ts pct =
      Some (concat sss, block_seq c seq (pk_blocks c), block_spi c spi (pk_blocks c))" "frame_blocks rs c seq spi sss"
    using packetize_frame_blocks[OF assms] .
  have "ctx_ok c" using ctx_ok_setup[OF assms(1)] assms(2) by simp
  then have "block_spi c spi (pk_blocks c) = spi + of_nat (pk_total c)"
    using sum_block_data_total[of c] by (simp add: block_spi_def flip: of_nat_sum)
  moreover have "block_seq c seq (pk_blocks c) = seq + of_nat (length (concat sss))"
    using frame_blocks_count[OF sss(2)] by (simp add: block_seq_def)
  moreover have "32 + pk_spp c = psize + 16" using assms(1,2) by (simp add: pkt_setup_def Let_def)
  ultimately show ?thesis using sss(1) frame_blocks_nth[OF sss(2)] by (intro exI[of _ "concat sss"]) auto
qed


text \<open>A frame of three data shards and one parity shard.\<close>

definition sample_frame :: bytes where
  "sample_frame = [0, 0, 0, 1, 0x65, 0x11, 0x22, 0x33, 0x44]"

lemma sample_frame_code_ok:
  "c = pkt_setup sample_frame key 24 frame ts 20 \<Longrightarrow> \<forall>b<pk_blocks c. block_code_ok rs_xor c b"
  using rs_xor_correct[of 3]
  by (simp add: sample_frame_def pkt_setup_def Let_def div_ceil_def clamp_nat_def block_code_ok_def
      block_parity_def block_data_def block_end_def block_start_def parity_shard_count_def)

definition sample_packets :: "bytes list" where
  "sample_packets =
     [[144, 0, 255, 254, 0, 1, 95, 144, 0, 0, 0, 0, 0, 0, 0, 0, 0, 41, 0, 0, 7, 0, 0, 0, 5, 0, 16, 0, 64, 1, 192, 0, 1, 0, 0, 2, 1, 0, 0, 0],
      [144, 0, 255, 255, 0, 1, 95, 144, 0, 0, 0, 0, 0, 0, 0, 0, 0, 42, 0, 0, 7, 0, 0, 0, 1, 0, 16, 0, 64, 17, 192, 0, 0, 0, 0, 1, 101, 17, 34, 51],
      [144, 0, 0, 0, 0, 1, 95, 144, 0, 0, 0, 0, 0, 0, 0, 0, 0, 43, 0, 0, 7, 0, 0, 0, 3, 0, 16, 0, 64, 33, 192, 0, 68, 0, 0, 0, 0, 0, 0, 0],
      [144, 0, 0, 1, 0, 1, 95, 144, 0, 0, 0, 0, 0, 0, 0, 0, 0, 40, 0, 0, 7, 0, 0, 0, 7, 0, 16, 0, 64, 49, 192, 0, 69, 0, 0, 3, 100, 17, 34, 51]]"

lemma sample_packets_sent:
  "packetize_frame rs_xor sample_frame True 24 7 65534 41 90000 20 = Some (sample_packets, 65538, 44)"
  by code_simp

theorem packetize_frame_counters_witness:
  "length sample_packets = 4 \<and> length (sample_packets ! 3) = 40
   \<and> (\<exists>h. rtp_read (sample_packets ! 3) = Some h \<and> rtp_sequence_number h = 1)"
proof -
  obtain shards where s: "packetize_frame rs_xor sample_frame True 24 7 65534 41 90000 20 =
      Some (shards, 65534 + of_nat (length shards), 41 + of_nat (pk_total (pkt_setup sample_frame True 24 7 90000 20)))"
    "\<forall>i<length shards. length (shards ! i) = 24 + 16
        \<and> (\<exists>h. rtp_read (shards ! i) = Some h \<and> rtp_sequence_number h = ucast ((65534 :: u32) + of_nat i))"
    using packetize_frame_counters[of 24 _ sample_frame True 7 90000 20 rs_xor 65534 41, OF _ refl sample_frame_code_ok[OF refl]]
    by auto
  have len: "length sample_packets = 4" by (simp add: sample_packets_def)
  have "shards = sample_packets" using s(1) sample_packets_sent by simp
  moreover have "ucast ((65534 :: u32) + of_nat 3) = (1 :: u16)" by code_simp
  ultimately have "\<exists>h. rtp_read (sample_packets ! 3) = Some h \<and> rtp_sequence_number h = 1"
    using s(2)[rule_format, of 3] len by force
  then show ?thesis using s(2) len \<open>shards = sample_packets\<close> by simp
qed

end
