(* ===== verification/Kmc_Depacketizer.thy ===== *)
theory Kmc_Depacketizer
  imports Kmc_Packetizer
begin

text \<open>
  \<^verbatim>\<open>kmc-moonclient/src/video.rs\<close>: the client's depacketizer, which reassembles frames from datagrams,
  recovers lost data shards through the erasure code and reports losses, and the receive loop around
  it. \<^term>\<open>None\<close> as a result of an operation on the depacketizer is a panic (a failed \<^verbatim>\<open>expect\<close> or an
  index out of range); the invariant \<open>dp_inv\<close> is what rules it out.
\<close>

section \<open>Data\<close>

definition MAX_INFLIGHT_FRAMES :: nat where [simp]: "MAX_INFLIGHT_FRAMES = 4"
definition ASSEMBLY_BUDGET :: instant where "ASSEMBLY_BUDGET = millis 100"
definition PING_INTERVAL :: instant where "PING_INTERVAL = millis 500"
definition MAX_DATAGRAM :: nat where "MAX_DATAGRAM = 2048"

record au_frame =
  au_keyframe :: bool
  au_data :: bytes

datatype video_event = Frame au_frame | Lost u32 | Fec frame_fec_status

definition is_before16 :: "u16 \<Rightarrow> u16 \<Rightarrow> bool" where
  "is_before16 x y \<longleftrightarrow> sint (x - y) < 0"

record block_asm =
  ba_data_shards :: nat
  ba_fec_percentage :: nat
  ba_slots :: "bytes option list"
  ba_received :: "bool list"
  ba_received_data :: u16
  ba_received_parity :: u16
  ba_seen_first :: bool
  ba_lowest_seq :: u16
  ba_highest_seq :: u16
  ba_next_contiguous_seq :: u16
  ba_missing_before_highest :: u16
  ba_fast_path :: bool

section \<open>One FEC block\<close>

definition block_new :: "nat \<Rightarrow> nat \<Rightarrow> nat \<Rightarrow> block_asm" where
  "block_new ds parity pct =
     \<lparr>ba_data_shards = ds, ba_fec_percentage = pct, ba_slots = replicate (ds + parity) None,
      ba_received = replicate (ds + parity) False, ba_received_data = 0, ba_received_parity = 0,
      ba_seen_first = False, ba_lowest_seq = 0, ba_highest_seq = 0, ba_next_contiguous_seq = 0,
      ba_missing_before_highest = 0, ba_fast_path = True\<rparr>"

definition parity_slots :: "block_asm \<Rightarrow> nat" where
  "parity_slots b = length (ba_slots b) - ba_data_shards b"

definition note_seq :: "u16 \<Rightarrow> nat \<Rightarrow> block_asm \<Rightarrow> block_asm" where
  "note_seq seq si b =
     (let b1 =
        (if \<not> ba_seen_first b then
           let lo = seq - of_nat si
           in b\<lparr>ba_seen_first := True, ba_lowest_seq := lo, ba_next_contiguous_seq := lo,
                ba_highest_seq := seq, ba_missing_before_highest := seq - lo\<rparr>
         else if is_before16 (ba_highest_seq b) seq then
           b\<lparr>ba_missing_before_highest := ba_missing_before_highest b + ((seq - ba_highest_seq b) - 1),
             ba_highest_seq := seq\<rparr>
         else b\<lparr>ba_missing_before_highest := word_saturating_sub (ba_missing_before_highest b) 1\<rparr>)
      in if ba_fast_path b1 \<and> seq = ba_next_contiguous_seq b1 then
           b1\<lparr>ba_next_contiguous_seq := ba_next_contiguous_seq b1 + 1\<rparr>
         else if seq \<noteq> ba_next_contiguous_seq b1 then b1\<lparr>ba_fast_path := False\<rparr>
         else b1)"

definition data_complete :: "block_asm \<Rightarrow> bool" where
  "data_complete b = list_all (\<lambda>s. s \<noteq> None) (take (ba_data_shards b) (ba_slots b))"

definition try_recover :: "rs_impl \<Rightarrow> block_asm \<Rightarrow> block_asm \<times> bool" where
  "try_recover rs b =
     (if data_complete b then (b, True)
      else let parity = parity_slots b
      in if parity = 0 then (b, False)
      else if length (filter (\<lambda>s. s \<noteq> None) (ba_slots b)) < ba_data_shards b then (b, False)
      else if \<not> rs_new rs (ba_data_shards b) parity then (b, False)
      else case rs_reconstruct rs (ba_data_shards b) parity (ba_slots b) of
        (slots', ok) \<Rightarrow> let b' = b\<lparr>ba_slots := slots'\<rparr> in (b', ok \<and> data_complete b'))"

definition fec_status :: "block_asm \<Rightarrow> u32 \<Rightarrow> nat \<Rightarrow> nat \<Rightarrow> frame_fec_status" where
  "fec_status b frame_index bi bc =
     \<lparr>ff_frame_index = frame_index,
      ff_highest_received_seq = ba_highest_seq b,
      ff_next_contiguous_seq = ba_next_contiguous_seq b,
      ff_missing_before_highest = ba_missing_before_highest b,
      ff_total_data_shards = of_nat (ba_data_shards b),
      ff_total_parity_shards = of_nat (parity_slots b),
      ff_received_data_shards = ba_received_data b,
      ff_received_parity_shards = ba_received_parity b,
      ff_fec_percentage = of_nat (min (ba_fec_percentage b) 255),
      ff_block_index = of_nat bi,
      ff_block_count = of_nat bc\<rparr>"

section \<open>One frame\<close>

record frame_asm =
  fa_frame_index :: u32
  fa_first_seen :: instant
  fa_block_count :: nat
  fa_blocks :: "block_asm option list"
  fa_shard_payload_len :: nat
  fa_delivered :: bool

definition frame_new :: "u32 \<Rightarrow> nat \<Rightarrow> nat \<Rightarrow> instant \<Rightarrow> frame_asm" where
  "frame_new frame_index bc plen now =
     \<lparr>fa_frame_index = frame_index, fa_first_seen = now, fa_block_count = bc,
      fa_blocks = replicate MAX_FEC_BLOCKS None, fa_shard_payload_len = plen, fa_delivered = False\<rparr>"

definition frame_complete :: "frame_asm \<Rightarrow> bool" where
  "frame_complete f =
     list_all (\<lambda>b. case fa_blocks f ! b of Some blk \<Rightarrow> data_complete blk | None \<Rightarrow> False) [0..<fa_block_count f]"

text \<open>The copy loop of \<^verbatim>\<open>assemble\<close>: keep of each payload its intersection with \<open>[8, logical)\<close>.\<close>

fun append_slots :: "nat \<Rightarrow> bytes option list \<Rightarrow> nat \<times> bytes \<Rightarrow> (nat \<times> bytes) option" where
  "append_slots logical [] st = Some st"
| "append_slots logical (slot # slots) (off, data) =
     do {
       p \<leftarrow> slot;
       let end' = off + length p;
       let lo = max off VIDEO_FRAME_HEADER_SIZE;
       let hi = min end' logical;
       append_slots logical slots
         (end', if lo < hi then data @ take (hi - lo) (drop (lo - off) p) else data)
     }"

fun append_blocks :: "nat \<Rightarrow> block_asm option list \<Rightarrow> nat \<times> bytes \<Rightarrow> (nat \<times> bytes) option" where
  "append_blocks logical [] st = Some st"
| "append_blocks logical (ob # obs) st =
     do {
       blk \<leftarrow> ob;
       st' \<leftarrow> append_slots logical (take (ba_data_shards blk) (ba_slots blk)) st;
       append_blocks logical obs st'
     }"

fun sum_data_shards :: "block_asm option list \<Rightarrow> nat option" where
  "sum_data_shards [] = Some 0"
| "sum_data_shards (ob # obs) =
     do { blk \<leftarrow> ob; n \<leftarrow> sum_data_shards obs; Some (ba_data_shards blk + n) }"

definition assemble :: "frame_asm \<Rightarrow> au_frame option" where
  "assemble f =
     (let plen = fa_shard_payload_len f; blocks = take (fa_block_count f) (fa_blocks f)
      in if plen < VIDEO_FRAME_HEADER_SIZE then None
      else do {
        total_data \<leftarrow> sum_data_shards blocks;
        if total_data = 0 then None
        else do {
          blk0 \<leftarrow> fa_blocks f ! 0;
          p0 \<leftarrow> ba_slots blk0 ! 0;
          hdr \<leftarrow> vf_read p0;
          let last' = unat (vf_last_payload_len hdr);
          if last' = 0 \<or> last' > plen then None
          else do {
            let logical = (total_data - 1) * plen + last';
            if logical \<le> VIDEO_FRAME_HEADER_SIZE then None
            else do {
              (off, data) \<leftarrow> append_blocks logical blocks (0, [if vf_is_key_frame hdr then 1 else 0]);
              Some \<lparr>au_keyframe = vf_is_key_frame hdr, au_data = data\<rparr>
            }
          }
        }
      })"

section \<open>The depacketizer\<close>

record depacketizer =
  dp_frames :: "(u32, frame_asm) btree"
  dp_last_retired :: "u32 option"
  dp_events :: "video_event list"

definition dp_new :: depacketizer where
  "dp_new = \<lparr>dp_frames = [], dp_last_retired = None, dp_events = []\<rparr>"

definition pop_event :: "depacketizer \<Rightarrow> video_event option \<times> depacketizer" where
  "pop_event d = (case dp_events d of [] \<Rightarrow> (None, d) | e # es \<Rightarrow> (Some e, d\<lparr>dp_events := es\<rparr>))"

abbreviation push_event :: "video_event \<Rightarrow> depacketizer \<Rightarrow> depacketizer" where
  "push_event e d \<equiv> d\<lparr>dp_events := dp_events d @ [e]\<rparr>"

definition find_template :: "frame_asm \<Rightarrow> block_asm option" where
  "find_template f =
     (case filter (\<lambda>ob. ob \<noteq> None) (take (fa_block_count f) (fa_blocks f)) of [] \<Rightarrow> None | ob # _ \<Rightarrow> ob)"

definition block_report :: "frame_asm \<Rightarrow> bool \<Rightarrow> nat \<Rightarrow> video_event list" where
  "block_report f lost b =
     (case fa_blocks f ! b of
        Some blk \<Rightarrow>
          if unat (ba_received_data blk) < ba_data_shards blk
          then [Fec (fec_status blk (fa_frame_index f) b (fa_block_count f))] else []
      | None \<Rightarrow>
          if lost then
            case find_template f of
              Some t \<Rightarrow>
                let st = fec_status t (fa_frame_index f) b (fa_block_count f)
                in [Fec (st\<lparr>ff_received_data_shards := 0, ff_received_parity_shards := 0,
                            ff_highest_received_seq := 0, ff_next_contiguous_seq := 0,
                            ff_missing_before_highest := ff_total_data_shards st + ff_total_parity_shards st\<rparr>)]
            | None \<Rightarrow> []
          else [])"

definition report_fec :: "frame_asm \<Rightarrow> bool \<Rightarrow> depacketizer \<Rightarrow> depacketizer" where
  "report_fec f lost d = d\<lparr>dp_events := dp_events d @ concat (map (block_report f lost) [0..<fa_block_count f])\<rparr>"

definition retire :: "frame_asm \<Rightarrow> depacketizer \<Rightarrow> depacketizer" where
  "retire f d =
     (let frame_index = fa_frame_index f;
          lost = (\<not> fa_delivered f);
          d1 = report_fec f lost d;
          d2 = (if lost then push_event (Lost frame_index) d1 else d1)
      in d2\<lparr>dp_last_retired :=
             Some (case dp_last_retired d2 of
                     Some c \<Rightarrow> if c > frame_index then c else frame_index
                   | None \<Rightarrow> frame_index)\<rparr>)"

text \<open>\<^verbatim>\<open>for k in keys { let f = self.frames.remove(&k).expect(..); self.retire(f); }\<close>\<close>

fun retire_keys :: "u32 list \<Rightarrow> depacketizer \<Rightarrow> depacketizer option" where
  "retire_keys [] d = Some d"
| "retire_keys (k # ks) d =
     do { f \<leftarrow> bt_get (dp_frames d) k;
          retire_keys ks (retire f (d\<lparr>dp_frames := bt_remove k (dp_frames d)\<rparr>)) }"

definition emit_completed :: "u32 \<Rightarrow> depacketizer \<Rightarrow> depacketizer option" where
  "emit_completed frame_index d =
     do {
       d1 \<leftarrow> retire_keys (filter (\<lambda>k. k < frame_index) (map fst (dp_frames d))) d;
       frame \<leftarrow> bt_get (dp_frames d1) frame_index;
       let frame' = frame\<lparr>fa_delivered := True\<rparr>;
       let d2 = d1\<lparr>dp_frames := bt_insert frame_index frame' (dp_frames d1)\<rparr>;
       Some (case assemble frame' of
               Some au \<Rightarrow> push_event (Frame au) d2
             | None \<Rightarrow> push_event (Lost frame_index) d2)
     }"

definition expire :: "instant \<Rightarrow> depacketizer \<Rightarrow> depacketizer option" where
  "expire now d =
     retire_keys (map fst (filter (\<lambda>(k, f). max 0 (now - fa_first_seen f) > ASSEMBLY_BUDGET) (dp_frames d))) d"

text \<open>
  \<^verbatim>\<open>push\<close> in three parts: the frame's slot (the flag says whether to go on), the shard within its block,
  and the whole operation. \<open>dp_open\<close> returns \<^term>\<open>False\<close> where the code returns.
\<close>

definition dp_open :: "u32 \<Rightarrow> nat \<Rightarrow> nat \<Rightarrow> instant \<Rightarrow> depacketizer \<Rightarrow> (bool \<times> depacketizer) option" where
  "dp_open frame_index bc plen now d =
     (let ins = (\<lambda>d. d\<lparr>dp_frames := bt_insert frame_index (frame_new frame_index bc plen now) (dp_frames d)\<rparr>)
      in if bt_get (dp_frames d) frame_index \<noteq> None then Some (True, d)
      else if length (dp_frames d) \<ge> MAX_INFLIGHT_FRAMES then
        case dp_frames d of
          [] \<Rightarrow> None
        | (oldest, _) # _ \<Rightarrow>
            if oldest > frame_index then Some (False, d)
            else do {
              f \<leftarrow> bt_get (dp_frames d) oldest;
              Some (True, ins (retire f (d\<lparr>dp_frames := bt_remove oldest (dp_frames d)\<rparr>)))
            }
      else Some (True, ins d))"

definition block_accept :: "u16 \<Rightarrow> nat \<Rightarrow> bytes \<Rightarrow> block_asm \<Rightarrow> block_asm" where
  "block_accept seq si payload b =
     (let b1 = note_seq seq si (b\<lparr>ba_received := (ba_received b)[si := True]\<rparr>);
          b2 = (if si < ba_data_shards b then b1\<lparr>ba_received_data := ba_received_data b1 + 1\<rparr>
                else b1\<lparr>ba_received_parity := ba_received_parity b1 + 1\<rparr>)
      in b2\<lparr>ba_slots := (ba_slots b2)[si := Some payload]\<rparr>)"

definition put_block :: "frame_asm \<Rightarrow> nat \<Rightarrow> block_asm \<Rightarrow> frame_asm" where
  "put_block f bi blk = f\<lparr>fa_blocks := (fa_blocks f)[bi := Some blk]\<rparr>"

definition put_frame :: "frame_asm \<Rightarrow> u32 \<Rightarrow> depacketizer \<Rightarrow> depacketizer" where
  "put_frame f frame_index d = d\<lparr>dp_frames := bt_insert frame_index f (dp_frames d)\<rparr>"

definition dp_store :: "rs_impl \<Rightarrow> bytes \<Rightarrow> nat \<Rightarrow> rtp_header \<Rightarrow> nv_video_packet \<Rightarrow> depacketizer \<Rightarrow> depacketizer option" where
  "dp_store rs datagram plen rtp nv d =
     do {
       frame \<leftarrow> bt_get (dp_frames d) (nv_frame_index nv);
       if fa_shard_payload_len frame \<noteq> plen \<or> fa_block_count frame \<noteq> block_count nv then Some d
       else if length (fa_blocks frame) \<le> block_index nv then None
       else
         let blk = (case fa_blocks frame ! block_index nv of
                      Some b \<Rightarrow> b
                    | None \<Rightarrow> block_new (data_shards nv) (parity_shards nv) (fec_percentage nv));
             put = (\<lambda>b. put_block frame (block_index nv) b);
             si = shard_index nv
         in if ba_data_shards blk \<noteq> data_shards nv \<or> si \<ge> length (ba_slots blk)
            then Some (put_frame (put blk) (nv_frame_index nv) d)
         else if length (ba_received blk) \<le> si then None
         else if ba_received blk ! si then Some (put_frame (put blk) (nv_frame_index nv) d)
         else
           let blk1 = block_accept (rtp_sequence_number rtp) si (drop PAYLOAD_OFFSET datagram) blk
           in if fa_delivered frame then Some (put_frame (put blk1) (nv_frame_index nv) d)
           else
             let blk2 = (if data_complete blk1 then blk1 else fst (try_recover rs blk1));
                 frame2 = put blk2;
                 d2 = put_frame frame2 (nv_frame_index nv) d
             in if frame_complete frame2 then emit_completed (nv_frame_index nv) d2 else Some d2
     }"

definition dp_push :: "rs_impl \<Rightarrow> bytes \<Rightarrow> instant \<Rightarrow> depacketizer \<Rightarrow> depacketizer option" where
  "dp_push rs datagram now d =
     (case shard_payload_len (length datagram) of
        None \<Rightarrow> Some d
      | Some plen \<Rightarrow>
          if datagram ! 0 \<noteq> RTP_VERSION_FLAGS then Some d
          else case (rtp_read datagram, nv_read_from_shard datagram) of
            (Some rtp, Some nv) \<Rightarrow>
              if block_index nv \<ge> block_count nv \<or> data_shards nv = 0 \<or> data_shards nv > MAX_SHARDS
                 \<or> shard_index nv \<ge> MAX_SHARDS then Some d
              else if (case dp_last_retired d of Some c \<Rightarrow> nv_frame_index nv \<le> c | None \<Rightarrow> False) then Some d
              else do {
                (go, d1) \<leftarrow> dp_open (nv_frame_index nv) (block_count nv) plen now d;
                if go then dp_store rs datagram plen rtp nv d1 else Some d1
              }
          | _ \<Rightarrow> Some d)"

section \<open>Runs\<close>

datatype dp_event = Datagram bytes instant | Expire instant | Pop

definition dp_step :: "rs_impl \<Rightarrow> dp_event \<Rightarrow> depacketizer \<Rightarrow> depacketizer option" where
  "dp_step rs e d =
     (case e of Datagram dg now \<Rightarrow> dp_push rs dg now d | Expire now \<Rightarrow> expire now d
      | Pop \<Rightarrow> Some (snd (pop_event d)))"

section \<open>The invariant\<close>

definition block_asm_ok :: "block_asm \<Rightarrow> bool" where
  "block_asm_ok b \<longleftrightarrow> length (ba_received b) = length (ba_slots b) \<and> 0 < ba_data_shards b
     \<and> ba_data_shards b \<le> length (ba_slots b) \<and> length (ba_slots b) \<le> MAX_SHARDS
     \<and> unat (ba_received_data b) = length (filter id (take (ba_data_shards b) (ba_received b)))
     \<and> unat (ba_received_parity b) = length (filter id (drop (ba_data_shards b) (ba_received b)))"

definition frame_asm_ok :: "u32 \<Rightarrow> frame_asm \<Rightarrow> bool" where
  "frame_asm_ok k f \<longleftrightarrow> fa_frame_index f = k \<and> length (fa_blocks f) = MAX_FEC_BLOCKS
     \<and> 1 \<le> fa_block_count f \<and> fa_block_count f \<le> MAX_FEC_BLOCKS
     \<and> (\<forall>blk. Some blk \<in> set (fa_blocks f) \<longrightarrow> block_asm_ok blk)"

definition dp_inv :: "depacketizer \<Rightarrow> bool" where
  "dp_inv d \<longleftrightarrow> bt_inv (dp_frames d) \<and> length (dp_frames d) \<le> MAX_INFLIGHT_FRAMES
     \<and> (\<forall>k f. bt_get (dp_frames d) k = Some f \<longrightarrow> frame_asm_ok k f)"

lemma dp_invD:
  "dp_inv d \<Longrightarrow> bt_inv (dp_frames d)" "dp_inv d \<Longrightarrow> length (dp_frames d) \<le> 4"
  "dp_inv d \<Longrightarrow> bt_get (dp_frames d) k = Some f \<Longrightarrow> frame_asm_ok k f"
  by (auto simp: dp_inv_def)

lemma frames_retire [simp]: "dp_frames (retire f d) = dp_frames d"
  by (simp add: retire_def report_fec_def Let_def)

lemma bt_count [simp]: "length (map fst m) = length m"
  by simp

lemma dp_inv_remove: "dp_inv d \<Longrightarrow> dp_inv (d\<lparr>dp_frames := bt_remove k (dp_frames d)\<rparr>)"
  using length_filter_le[of "\<lambda>kv. fst kv \<noteq> k" "dp_frames d"]
  by (auto simp: dp_inv_def bt_inv_remove bt_get_remove bt_remove_def[symmetric] split: if_splits)

lemma dp_inv_frames: "dp_frames d' = dp_frames d \<Longrightarrow> dp_inv d' = dp_inv d"
  by (simp add: dp_inv_def)

lemma dp_inv_put:
  assumes "dp_inv d" "frame_asm_ok k f" "bt_get (dp_frames d) k \<noteq> None \<or> length (dp_frames d) < 4"
  shows "dp_inv (put_frame f k d)"
  using assms bt.count_insert_old[of "dp_frames d" k f] bt.count_insert_new[of "dp_frames d" k f]
  by (cases "bt_get (dp_frames d) k = None")
    (auto simp: dp_inv_def put_frame_def bt_inv_insert bt_get_insert split: if_splits)

lemma retire_keys_ok:
  assumes "dp_inv d" "distinct ks" "\<forall>k\<in>set ks. bt_get (dp_frames d) k \<noteq> None"
  shows "\<exists>d'. retire_keys ks d = Some d' \<and> dp_inv d'
    \<and> dp_frames d' = filter (\<lambda>kv. fst kv \<notin> set ks) (dp_frames d)"
  using assms
proof (induction ks arbitrary: d)
  case (Cons k ks)
  then obtain f where f: "bt_get (dp_frames d) k = Some f" by auto
  let ?d = "retire f (d\<lparr>dp_frames := bt_remove k (dp_frames d)\<rparr>)"
  have "dp_inv ?d" using dp_inv_remove[OF Cons.prems(1)] by (rule dp_inv_frames[THEN iffD2, rotated]) simp
  moreover have "\<forall>k'\<in>set ks. bt_get (dp_frames ?d) k' \<noteq> None"
    using Cons.prems by (auto simp: bt_get_remove)
  ultimately show ?case using Cons.IH[of ?d] Cons.prems(2) f
    by (auto simp: bt_remove_def conj_commute)
qed simp

lemma keys_in_map: "bt_inv m \<Longrightarrow> k \<in> set (map fst m) \<Longrightarrow> bt_get m k \<noteq> None"
  using bt.keys_get by blast

lemma expire_ok:
  assumes "dp_inv d"
  shows "\<exists>d'. expire now d = Some d' \<and> dp_inv d'"
proof -
  let ?ks = "map fst (filter (\<lambda>(k, f). max 0 (now - fa_first_seen f) > ASSEMBLY_BUDGET) (dp_frames d))"
  have "distinct ?ks"
    using bt.keys_distinct[OF dp_invD(1)[OF assms]] by (rule distinct_map_filter)
  moreover have "\<forall>k\<in>set ?ks. bt_get (dp_frames d) k \<noteq> None"
    using keys_in_map[OF dp_invD(1)[OF assms]] by auto
  ultimately show ?thesis unfolding expire_def using retire_keys_ok[OF assms] by blast
qed

lemma frame_asm_ok_delivered: "frame_asm_ok k f \<Longrightarrow> frame_asm_ok k (f\<lparr>fa_delivered := True\<rparr>)"
  by (simp add: frame_asm_ok_def)

lemma emit_completed_form:
  assumes "dp_inv d" "bt_get (dp_frames d) k = Some f"
  obtains d1 where "retire_keys (filter (\<lambda>k'. k' < k) (map fst (dp_frames d))) d = Some d1" "dp_inv d1"
    "bt_get (dp_frames d1) k = Some f"
    "emit_completed k d = Some (push_event (case assemble (f\<lparr>fa_delivered := True\<rparr>) of Some au \<Rightarrow> Frame au | None \<Rightarrow> Lost k)
       (put_frame (f\<lparr>fa_delivered := True\<rparr>) k d1))"
proof -
  let ?ks = "filter (\<lambda>k'. k' < k) (map fst (dp_frames d))"
  have "distinct ?ks" using bt.keys_distinct[OF dp_invD(1)[OF assms(1)]] by simp
  moreover have "\<forall>k\<in>set ?ks. bt_get (dp_frames d) k \<noteq> None"
    using keys_in_map[OF dp_invD(1)[OF assms(1)]] by auto
  ultimately obtain d1 where d1: "retire_keys ?ks d = Some d1" "dp_inv d1"
      "dp_frames d1 = filter (\<lambda>kv. fst kv \<notin> set ?ks) (dp_frames d)"
    using retire_keys_ok[OF assms(1)] by blast
  have "bt_get (dp_frames d1) k = Some f"
    using assms(2) bt_get_filter[of "\<lambda>k'. k' \<notin> set ?ks" "dp_frames d" k] by (simp add: d1(3))
  then show ?thesis using that[of d1] d1
    by (simp add: emit_completed_def put_frame_def split: option.split)
qed

lemma emit_completed_ok:
  assumes "dp_inv d" "bt_get (dp_frames d) k = Some f"
  shows "\<exists>d'. emit_completed k d = Some d' \<and> dp_inv d'"
proof -
  obtain d1 where d1: "dp_inv d1" "bt_get (dp_frames d1) k = Some f"
    "emit_completed k d = Some (push_event (case assemble (f\<lparr>fa_delivered := True\<rparr>) of Some au \<Rightarrow> Frame au | None \<Rightarrow> Lost k)
       (put_frame (f\<lparr>fa_delivered := True\<rparr>) k d1))"
    using emit_completed_form[OF assms] by metis
  have "dp_inv (put_frame (f\<lparr>fa_delivered := True\<rparr>) k d1)"
    using d1 dp_invD(3)[OF assms] by (intro dp_inv_put frame_asm_ok_delivered) auto
  then show ?thesis using d1(3) by (simp add: dp_inv_def)
qed


lemma frame_new_ok: "1 \<le> bc \<Longrightarrow> bc \<le> 4 \<Longrightarrow> frame_asm_ok k (frame_new k bc plen now)"
  by (auto simp: frame_asm_ok_def frame_new_def)

lemma dp_open_ok:
  assumes "dp_inv d" "1 \<le> bc" "bc \<le> 4"
  shows "\<exists>go d'. dp_open k bc plen now d = Some (go, d') \<and> dp_inv d' \<and> (go \<longrightarrow> bt_get (dp_frames d') k \<noteq> None)"
proof (cases "bt_get (dp_frames d) k \<noteq> None")
  case True
  then have "dp_open k bc plen now d = Some (True, d)" by (simp add: dp_open_def)
  then show ?thesis using assms(1) True by blast
next
  case new: False
  have ins: "dp_inv (put_frame (frame_new k bc plen now) k d')" if "dp_inv d'" "length (dp_frames d') < 4" for d'
    using that assms by (intro dp_inv_put frame_new_ok) auto
  have get: "bt_get (dp_frames (put_frame f k d')) k \<noteq> None" if "dp_inv d'" for f d'
    using that by (simp add: put_frame_def bt_get_insert dp_invD)
  show ?thesis
  proof (cases "length (dp_frames d) < 4")
    case True
    then show ?thesis using new assms(1) ins[of d] get[of d]
      by (auto simp: dp_open_def Let_def put_frame_def)
  next
    case False
    then obtain oldest f fs where fr: "dp_frames d = (oldest, f) # fs"
      by (cases "dp_frames d") auto
    then have f: "bt_get (dp_frames d) oldest = Some f" by (simp add: bt_get_def)
    let ?d = "retire f (d\<lparr>dp_frames := bt_remove oldest (dp_frames d)\<rparr>)"
    have i: "dp_inv ?d" using dp_inv_remove[OF assms(1)] by (rule dp_inv_frames[THEN iffD2, rotated]) simp
    have "length (dp_frames ?d) < 4"
      using bt.count_remove[OF dp_invD(1)[OF assms(1)], of oldest] f dp_invD(2)[OF assms(1)] by simp
    then show ?thesis using False new fr f assms(1) ins[OF i] get[OF i]
      by (auto simp: dp_open_def Let_def put_frame_def)
  qed
qed

lemma length_filter_set:
  "i < length xs \<Longrightarrow> \<not> xs ! i \<Longrightarrow> length (filter id (xs[i := True])) = Suc (length (filter id xs))"
  by (induction xs arbitrary: i) (auto simp: nth_Cons split: nat.splits)

lemma note_seq_fields [simp]:
  "ba_data_shards (note_seq seq si b) = ba_data_shards b" "ba_slots (note_seq seq si b) = ba_slots b"
  "ba_received (note_seq seq si b) = ba_received b" "ba_received_data (note_seq seq si b) = ba_received_data b"
  "ba_received_parity (note_seq seq si b) = ba_received_parity b"
  "ba_fec_percentage (note_seq seq si b) = ba_fec_percentage b"
  by (simp_all add: note_seq_def Let_def)

lemma block_accept_fields [simp]:
  "ba_data_shards (block_accept seq si p b) = ba_data_shards b"
  "ba_slots (block_accept seq si p b) = (ba_slots b)[si := Some p]"
  "ba_received (block_accept seq si p b) = (ba_received b)[si := True]"
  by (simp_all add: block_accept_def Let_def)

lemma block_accept_ok:
  assumes "block_asm_ok b" "si < length (ba_slots b)" "\<not> ba_received b ! si"
  shows "block_asm_ok (block_accept seq si p b)"
proof -
  let ?d = "ba_data_shards b" and ?r = "ba_received b"
  have r: "length ?r = length (ba_slots b)" "?d \<le> length ?r" "length ?r \<le> 255" using assms(1) by (auto simp: block_asm_ok_def)
  have le: "length (filter id xs) \<le> length xs" for xs :: "bool list" by simp
  have u: "unat (ba_received_data b) < 256" "unat (ba_received_parity b) < 256"
    using assms(1) r le[of "take ?d ?r"] le[of "drop ?d ?r"] by (auto simp: block_asm_ok_def)
  have inc: "unat (w + 1) = Suc (unat w)" if "unat w < 256" for w :: u16
    using that by (simp add: unat_word_ariths)
  show ?thesis
  proof (cases "si < ?d")
    case True
    then show ?thesis using assms r u length_filter_set[of si "take ?d ?r"]
      by (simp add: block_asm_ok_def block_accept_def Let_def take_update_swap inc)
  next
    case False
    then show ?thesis using assms r u length_filter_set[of "si - ?d" "drop ?d ?r"]
      by (simp add: block_asm_ok_def block_accept_def Let_def drop_update_swap inc)
  qed
qed

lemma try_recover_ok:
  assumes "rs_shape rs" "block_asm_ok b"
  shows "block_asm_ok (fst (try_recover rs b))"
proof -
  have "length (fst (rs_reconstruct rs (ba_data_shards b) (parity_slots b) (ba_slots b))) = length (ba_slots b)"
    using assms(1) by (simp add: rs_shape_def)
  then show ?thesis using assms(2) by (auto simp: try_recover_def block_asm_ok_def Let_def split: prod.split)
qed

lemma block_new_ok: "0 < ds \<Longrightarrow> ds + parity \<le> 255 \<Longrightarrow> block_asm_ok (block_new ds parity pct)"
  by (simp add: block_asm_ok_def block_new_def)

lemma put_block_ok:
  assumes "frame_asm_ok k f" "block_asm_ok blk"
  shows "frame_asm_ok k (put_block f bi blk)"
  using assms set_update_subset_insert[of "fa_blocks f" bi "Some blk"]
  by (auto simp: frame_asm_ok_def put_block_def)

lemma store_block_ok:
  assumes "frame_asm_ok k f" "0 < data_shards nv" "data_shards nv \<le> 255" "block_index nv < 4"
  shows "block_asm_ok (case fa_blocks f ! block_index nv of Some b \<Rightarrow> b
      | None \<Rightarrow> block_new (data_shards nv) (parity_shards nv) (fec_percentage nv))"
proof (cases "fa_blocks f ! block_index nv")
  case None
  then show ?thesis using assms(2,3) parity_shard_count_bound[of "data_shards nv" "fec_percentage nv"]
    by (simp add: parity_shards_def block_new_ok)
next
  case (Some b)
  then have "Some b \<in> set (fa_blocks f)" using assms(1,4) by (metis frame_asm_ok_def nth_mem MAX_FEC_BLOCKS_def)
  then show ?thesis using Some assms(1) by (simp add: frame_asm_ok_def)
qed

lemma dp_store_ok:
  assumes "dp_inv d" "rs_shape rs" "bt_get (dp_frames d) (nv_frame_index nv) \<noteq> None"
    "0 < data_shards nv" "data_shards nv \<le> 255" "block_index nv < 4"
  shows "\<exists>d'. dp_store rs dg plen rtp nv d = Some d' \<and> dp_inv d'"
proof -
  let ?k = "nv_frame_index nv" and ?bi = "block_index nv" and ?si = "shard_index nv"
  obtain f where f: "bt_get (dp_frames d) ?k = Some f" using assms(3) by auto
  have fok: "frame_asm_ok ?k f" using dp_invD(3)[OF assms(1) f] .
  define blk where "blk = (case fa_blocks f ! ?bi of Some b \<Rightarrow> b
      | None \<Rightarrow> block_new (data_shards nv) (parity_shards nv) (fec_percentage nv))"
  have bok: "block_asm_ok blk" unfolding blk_def using store_block_ok[OF fok assms(4-6)] .
  have put: "dp_inv (put_frame (put_block f ?bi b) ?k d)" if "block_asm_ok b" for b
    using assms(1) put_block_ok[OF fok that] f by (intro dp_inv_put) auto
  have get: "bt_get (dp_frames (put_frame g ?k d)) ?k = Some g" for g
    using dp_invD(1)[OF assms(1)] by (simp add: put_frame_def bt_get_insert)
  have emit: "\<exists>d'. emit_completed ?k (put_frame (put_block f ?bi b) ?k d) = Some d' \<and> dp_inv d'"
    if "block_asm_ok b" for b using emit_completed_ok[OF put[OF that] get] .
  show ?thesis
    using f fok bok assms(1) put emit block_accept_ok[OF bok, of ?si] try_recover_ok[OF assms(2)]
      assms(6)
    by (auto simp: dp_store_def blk_def[symmetric] Let_def frame_asm_ok_def block_asm_ok_def)
qed

lemma dp_push_ok:
  assumes "dp_inv d" "rs_shape rs"
  shows "\<exists>d'. dp_push rs dg now d = Some d' \<and> dp_inv d'"
proof -
  have "\<exists>d'. do { (go, d1) \<leftarrow> dp_open (nv_frame_index nv) (block_count nv) plen now d;
              if go then dp_store rs dg plen rtp nv d1 else Some d1 } = Some d' \<and> dp_inv d'"
    if "block_index nv < block_count nv" "0 < data_shards nv" "data_shards nv \<le> 255" for rtp nv plen
    using dp_open_ok[OF assms(1), of "block_count nv" "nv_frame_index nv" plen now] that
      block_count_le[of nv] block_index_lt[of nv] dp_store_ok[OF _ assms(2)] by fastforce
  then show ?thesis using assms(1)
    by (auto simp: dp_push_def split: option.splits)
qed

lemma dp_step_ok: "rs_shape rs \<Longrightarrow> dp_inv d \<Longrightarrow> \<exists>d'. dp_step rs e d = Some d' \<and> dp_inv d'"
  using dp_push_ok expire_ok
  by (cases e) (auto simp: dp_step_def pop_event_def dp_inv_def split: list.split)

section \<open>What the output says\<close>

definition watermark_below :: "u32 \<Rightarrow> depacketizer \<Rightarrow> bool" where
  "watermark_below k d \<longleftrightarrow> (case dp_last_retired d of Some c \<Rightarrow> c < k | None \<Rightarrow> True)"

lemma get_put_frame: "dp_inv d \<Longrightarrow> bt_get (dp_frames (put_frame g k d)) k = Some g"
  by (simp add: put_frame_def bt_get_insert dp_invD)

definition wm_le :: "depacketizer \<Rightarrow> depacketizer \<Rightarrow> bool" where
  "wm_le d d' \<longleftrightarrow> (case dp_last_retired d of None \<Rightarrow> True
     | Some c \<Rightarrow> \<exists>c'. dp_last_retired d' = Some c' \<and> c \<le> c')"

fun lost_index :: "video_event \<Rightarrow> u32 list" where
  "lost_index (Lost k) = [k]"
| "lost_index _ = []"

definition losts :: "depacketizer \<Rightarrow> u32 list" where
  "losts d = concat (map lost_index (dp_events d))"

definition real_loss :: "frame_fec_status \<Rightarrow> bool" where
  "real_loss s \<longleftrightarrow> unat (ff_received_data_shards s) < unat (ff_total_data_shards s)
     \<and> unat (ff_received_parity_shards s) \<le> unat (ff_total_parity_shards s)
     \<and> unat (ff_total_data_shards s) + unat (ff_total_parity_shards s) \<le> 255"

text \<open>
  Every lost frame is announced once, and never while it is still in progress: its index is then below
  the watermark, or the frame is marked as delivered. Every report is about a block with data missing.
\<close>

definition ev_ok :: "depacketizer \<Rightarrow> bool" where
  "ev_ok d \<longleftrightarrow> distinct (losts d)
     \<and> (\<forall>k\<in>set (losts d). (bt_get (dp_frames d) k = None \<and> \<not> watermark_below k d)
          \<or> (\<exists>f. bt_get (dp_frames d) k = Some f \<and> fa_delivered f))
     \<and> (\<forall>s. Fec s \<in> set (dp_events d) \<longrightarrow> real_loss s)"

definition adv :: "depacketizer \<Rightarrow> depacketizer \<Rightarrow> bool" where
  "adv d d' \<longleftrightarrow> (ev_ok d \<longrightarrow> ev_ok d') \<and> wm_le d d'"

lemma wm_le_refl: "wm_le d d"
  by (auto simp: wm_le_def split: option.split)

lemma wm_le_trans: "wm_le a b \<Longrightarrow> wm_le b c \<Longrightarrow> wm_le a c"
  by (fastforce simp: wm_le_def split: option.splits)

lemma adv_refl: "adv d d"
  by (simp add: adv_def wm_le_refl)

lemma adv_trans: "adv a b \<Longrightarrow> adv b c \<Longrightarrow> adv a c"
  using wm_le_trans by (auto simp: adv_def)

lemma wm_le_above: "wm_le d d' \<Longrightarrow> \<not> watermark_below k d \<Longrightarrow> \<not> watermark_below k d'"
  by (auto simp: wm_le_def watermark_below_def not_less split: option.splits)

lemma filter_length_less: "length (filter P xs) < n \<Longrightarrow> length (filter P xs) \<le> length xs"
  by simp

lemma block_status_real:
  assumes "block_asm_ok blk" "unat (ba_received_data blk) < ba_data_shards blk"
  shows "real_loss (fec_status blk k b bc)"
proof -
  have n: "ba_data_shards blk \<le> length (ba_slots blk)" "length (ba_slots blk) \<le> 255"
    "unat (ba_received_parity blk) \<le> parity_slots blk"
    using assms(1) length_filter_le[of id "drop (ba_data_shards blk) (ba_received blk)"]
    by (auto simp: block_asm_ok_def parity_slots_def)
  moreover from n have "parity_slots blk \<le> 255" "ba_data_shards blk \<le> 255"
    "ba_data_shards blk + parity_slots blk \<le> 255" by (auto simp: parity_slots_def)
  ultimately show ?thesis using assms(2)
    by (simp add: real_loss_def fec_status_def unat_of_nat)
qed

lemma block_lost_real:
  assumes "block_asm_ok t" and "st = fec_status t k b bc"
  shows "real_loss (st\<lparr>ff_received_data_shards := 0, ff_received_parity_shards := 0,
            ff_highest_received_seq := x, ff_next_contiguous_seq := y, ff_missing_before_highest := z\<rparr>)"
proof -
  have n: "0 < ba_data_shards t" "ba_data_shards t \<le> 255" "ba_data_shards t + parity_slots t \<le> 255"
    using assms(1) by (auto simp: block_asm_ok_def parity_slots_def)
  then show ?thesis
    by (simp add: assms(2) real_loss_def fec_status_def unat_of_nat)
qed

lemma block_report_real:
  assumes "frame_asm_ok k f" "b < fa_block_count f" "Fec s \<in> set (block_report f lost b)"
  shows "real_loss s"
proof -
  have ok: "block_asm_ok blk" if "Some blk \<in> set (fa_blocks f)" for blk using assms(1) that by (simp add: frame_asm_ok_def)
  have b: "fa_blocks f ! b \<in> set (fa_blocks f)" using assms(1,2) by (simp add: frame_asm_ok_def)
  show ?thesis
  proof (cases "fa_blocks f ! b")
    case (Some blk)
    then show ?thesis using assms(3) b ok[of blk] block_status_real[of blk]
      by (auto simp: block_report_def split: if_splits)
  next
    case None
    then obtain t where t: "find_template f = Some t"
      and s: "s = (let st = fec_status t (fa_frame_index f) b (fa_block_count f)
                in st\<lparr>ff_received_data_shards := 0, ff_received_parity_shards := 0,
                            ff_highest_received_seq := 0, ff_next_contiguous_seq := 0,
                            ff_missing_before_highest := ff_total_data_shards st + ff_total_parity_shards st\<rparr>)"
      using assms(3) by (cases lost; cases "find_template f") (simp_all add: block_report_def Let_def)
    have "Some t \<in> set (filter (\<lambda>ob. ob \<noteq> None) (take (fa_block_count f) (fa_blocks f)))"
      using t unfolding find_template_def
      by (cases "filter (\<lambda>ob. ob \<noteq> None) (take (fa_block_count f) (fa_blocks f))") auto
    then have "Some t \<in> set (fa_blocks f)" by (auto dest: in_set_takeD)
    then show ?thesis using block_lost_real[OF ok] s by (simp add: Let_def)
  qed
qed

lemma block_report_losts: "concat (map lost_index (block_report f lost b)) = []"
  by (auto simp: block_report_def Let_def split: option.split)

lemma retire_events_form:
  "dp_events (retire f d) = dp_events d @ concat (map (block_report f (\<not> fa_delivered f)) [0..<fa_block_count f])
     @ (if fa_delivered f then [] else [Lost (fa_frame_index f)])"
  by (simp add: retire_def report_fec_def Let_def)

lemma losts_reports: "concat (map lost_index (concat (map (block_report f l) bs))) = []"
  by (induction bs) (auto simp: block_report_losts)

lemma losts_retire: "losts (retire f d) = losts d @ (if fa_delivered f then [] else [fa_frame_index f])"
  unfolding losts_def retire_events_form by (simp add: losts_reports)

lemma wm_retire: "wm_le d (retire f (d\<lparr>dp_frames := m\<rparr>))" "\<not> watermark_below (fa_frame_index f) (retire f d)"
  by (auto simp: wm_le_def watermark_below_def retire_def report_fec_def Let_def split: option.splits)

lemma adv_retire:
  assumes inv: "dp_inv d" and f: "bt_get (dp_frames d) k = Some f"
  shows "adv d (retire f (d\<lparr>dp_frames := bt_remove k (dp_frames d)\<rparr>))"
proof -
  let ?d = "retire f (d\<lparr>dp_frames := bt_remove k (dp_frames d)\<rparr>)"
  have fok: "frame_asm_ok k f" using dp_invD(3)[OF inv f] .
  then have k: "fa_frame_index f = k" by (simp add: frame_asm_ok_def)
  have wm: "wm_le d ?d" by (rule wm_retire)
  have "ev_ok ?d" if ev: "ev_ok d"
  proof -
    have l: "losts ?d = losts d @ (if fa_delivered f then [] else [k])"
      by (simp add: losts_retire k) (simp add: losts_def)
    have new: "fa_delivered f \<or> k \<notin> set (losts d)" using ev f by (auto simp: ev_ok_def)
    have below: "\<not> watermark_below k ?d" using wm_retire(2)[of f] k by simp
    have "real_loss s" if "Fec s \<in> set (dp_events ?d)" for s
      using that ev block_report_real[OF fok] by (auto simp: retire_events_form ev_ok_def split: if_splits)
    then show ?thesis
      using ev new wm_le_above[OF wm] below unfolding ev_ok_def l by (auto simp: bt_get_remove)
  qed
  then show ?thesis using wm by (simp add: adv_def)
qed

lemma adv_retire_keys: "dp_inv d \<Longrightarrow> retire_keys ks d = Some d' \<Longrightarrow> adv d d'"
proof (induction ks arbitrary: d)
  case (Cons k ks)
  then obtain f where f: "bt_get (dp_frames d) k = Some f"
    and r: "retire_keys ks (retire f (d\<lparr>dp_frames := bt_remove k (dp_frames d)\<rparr>)) = Some d'"
    by (auto split: Option.bind_splits)
  have "dp_inv (retire f (d\<lparr>dp_frames := bt_remove k (dp_frames d)\<rparr>))"
    using dp_inv_remove[OF Cons.prems(1)] by (rule dp_inv_frames[THEN iffD2, rotated]) simp
  then show ?case using Cons.IH[OF _ r] adv_retire[OF Cons.prems(1) f] adv_trans by blast
qed (simp add: adv_refl)

lemma put_frame_output [simp]:
  "losts (put_frame f k d) = losts d" "dp_events (put_frame f k d) = dp_events d"
  "watermark_below k' (put_frame f k d) = watermark_below k' d" "wm_le d (put_frame f k d)"
  by (auto simp: put_frame_def losts_def watermark_below_def wm_le_def split: option.split)

lemma get_put_frame_other:
  "dp_inv d \<Longrightarrow> bt_get (dp_frames (put_frame f k d)) k' = (if k' = k then Some f else bt_get (dp_frames d) k')"
  by (simp add: put_frame_def bt_get_insert dp_invD)

lemma push_event_output [simp]:
  "losts (d\<lparr>dp_events := dp_events d' @ es\<rparr>) = losts d' @ concat (map lost_index es)"
  "watermark_below k (d\<lparr>dp_events := evs\<rparr>) = watermark_below k d"
  "wm_le d' (d\<lparr>dp_events := evs\<rparr>) = wm_le d' d"
  by (auto simp: losts_def watermark_below_def wm_le_def split: option.split)

lemma adv_put:
  assumes "dp_inv d" "bt_get (dp_frames d) k = Some f" "fa_delivered f' = fa_delivered f"
  shows "adv d (put_frame f' k d)"
  using assms by (auto simp: adv_def ev_ok_def get_put_frame_other)

lemma adv_insert:
  assumes "dp_inv d" "bt_get (dp_frames d) k = None" "watermark_below k d"
  shows "adv d (put_frame f k d)"
  using assms by (auto simp: adv_def ev_ok_def get_put_frame_other)

lemma adv_deliver:
  assumes "dp_inv d" "bt_get (dp_frames d) k = Some f" "\<not> fa_delivered f" "fa_delivered f'"
  shows "adv d (push_event (case a of Some au \<Rightarrow> Frame au | None \<Rightarrow> Lost k) (put_frame f' k d))"
  using assms by (cases a) (auto simp: adv_def ev_ok_def get_put_frame_other)

lemma adv_emit_completed:
  assumes "dp_inv d" "bt_get (dp_frames d) k = Some f" "\<not> fa_delivered f" "emit_completed k d = Some d'"
  shows "adv d d'"
proof -
  obtain d1 where d1: "retire_keys (filter (\<lambda>k'. k' < k) (map fst (dp_frames d))) d = Some d1" "dp_inv d1"
    "bt_get (dp_frames d1) k = Some f"
    "emit_completed k d = Some (push_event (case assemble (f\<lparr>fa_delivered := True\<rparr>) of Some au \<Rightarrow> Frame au | None \<Rightarrow> Lost k)
       (put_frame (f\<lparr>fa_delivered := True\<rparr>) k d1))"
    using emit_completed_form[OF assms(1,2)] .
  show ?thesis
    using adv_trans[OF adv_retire_keys[OF assms(1) d1(1)] adv_deliver[OF d1(2,3) assms(3)]] d1(4) assms(4) by simp
qed

lemma adv_dp_open:
  assumes "dp_inv d" "watermark_below k d" "dp_open k bc plen now d = Some (go, d')"
  shows "adv d d'"
proof (cases "bt_get (dp_frames d) k = None \<and> go")
  case False
  then show ?thesis using assms(3)
    by (auto simp: dp_open_def Let_def adv_refl split: if_splits list.splits Option.bind_splits)
next
  case new: True
  let ?f = "frame_new k bc plen now"
  show ?thesis
  proof (cases "length (dp_frames d) < 4")
    case True
    then have "d' = put_frame ?f k d" using assms(3) new by (simp add: dp_open_def Let_def put_frame_def)
    then show ?thesis using adv_insert[OF assms(1)] assms(2) new by simp
  next
    case False
    then obtain oldest f fs where fr: "dp_frames d = (oldest, f) # fs" by (cases "dp_frames d") auto
    then have f: "bt_get (dp_frames d) oldest = Some f" by (simp add: bt_get_def)
    let ?d = "retire f (d\<lparr>dp_frames := bt_remove oldest (dp_frames d)\<rparr>)"
    have d': "d' = put_frame ?f k ?d" and le: "oldest \<le> k"
      using assms(3) new False fr f by (auto simp: dp_open_def Let_def put_frame_def split: if_splits)
    have "oldest < k" using le f new by (cases "oldest = k") auto
    then have "watermark_below k ?d"
      using assms(2) dp_invD(3)[OF assms(1) f]
      by (auto simp: frame_asm_ok_def retire_def report_fec_def watermark_below_def Let_def split: option.splits)
    moreover have "dp_inv ?d" using dp_inv_remove[OF assms(1)] by (rule dp_inv_frames[THEN iffD2, rotated]) simp
    moreover have "bt_get (dp_frames ?d) k = None" using new by (simp add: bt_get_remove)
    ultimately show ?thesis using adv_trans[OF adv_retire[OF assms(1) f] adv_insert] d' by blast
  qed
qed

lemma adv_dp_store:
  assumes inv: "dp_inv d" and shape: "rs_shape rs" and st: "dp_store rs dg plen rtp nv d = Some d'"
    and nv: "0 < data_shards nv" "data_shards nv \<le> 255" "block_index nv < 4"
  shows "adv d d'"
proof -
  let ?k = "nv_frame_index nv" and ?bi = "block_index nv" and ?si = "shard_index nv"
  obtain f where f: "bt_get (dp_frames d) ?k = Some f" using st by (auto simp: dp_store_def split: Option.bind_splits)
  have fok: "frame_asm_ok ?k f" using dp_invD(3)[OF inv f] .
  define blk where "blk = (case fa_blocks f ! ?bi of Some b \<Rightarrow> b
      | None \<Rightarrow> block_new (data_shards nv) (parity_shards nv) (fec_percentage nv))"
  define blk1 where "blk1 = block_accept (rtp_sequence_number rtp) ?si (drop 32 dg) blk"
  define blk2 where "blk2 = (if data_complete blk1 then blk1 else fst (try_recover rs blk1))"
  have bok: "block_asm_ok blk" unfolding blk_def using store_block_ok[OF fok nv] .
  have dl: "fa_delivered (put_block f ?bi b) = fa_delivered f" for b by (simp add: put_block_def)
  have put: "adv d (put_frame (put_block f ?bi b) ?k d)" for b using adv_put[OF inv f dl] .
  show ?thesis
  proof (cases "d' = d \<or> (\<exists>b. d' = put_frame (put_block f ?bi b) ?k d)")
    case True
    then show ?thesis using put adv_refl by blast
  next
    case False
    then have si: "?si < length (ba_slots blk)" "\<not> ba_received blk ! ?si" "\<not> fa_delivered f"
      and em: "emit_completed ?k (put_frame (put_block f ?bi blk2) ?k d) = Some d'"
      using st f unfolding dp_store_def Let_def
      by (auto simp: blk_def[symmetric] blk1_def[symmetric] blk2_def split: if_splits)
    have "block_asm_ok blk1" unfolding blk1_def using block_accept_ok[OF bok si(1,2)] .
    then have "block_asm_ok blk2" using try_recover_ok[OF shape] by (simp add: blk2_def)
    then have "dp_inv (put_frame (put_block f ?bi blk2) ?k d)"
      using inv f put_block_ok[OF fok] by (intro dp_inv_put) auto
    then show ?thesis
      using adv_trans[OF put adv_emit_completed[OF _ get_put_frame[OF inv] _ em]] dl si(3) by blast
  qed
qed

lemma adv_dp_push:
  assumes "dp_inv d" "rs_shape rs" "dp_push rs dg now d = Some d'"
  shows "adv d d'"
proof (cases "d' = d")
  case True
  then show ?thesis by (simp add: adv_refl)
next
  case False
  then obtain plen rtp nv go d1 where nv: "block_index nv < block_count nv" "0 < data_shards nv" "data_shards nv \<le> 255"
    and wm: "watermark_below (nv_frame_index nv) d"
    and op: "dp_open (nv_frame_index nv) (block_count nv) plen now d = Some (go, d1)"
    and st: "(if go then dp_store rs dg plen rtp nv d1 else Some d1) = Some d'"
    using assms(3)
    by (auto simp: dp_push_def watermark_below_def not_le split: option.splits if_splits Option.bind_splits)
  have bi: "1 \<le> block_count nv" "block_count nv \<le> 4" "block_index nv < 4" using nv(1) block_count_le[of nv] by auto
  have "dp_inv d1" using dp_open_ok[OF assms(1) bi(1,2)] op by (metis option.inject prod.inject)
  then show ?thesis
    using adv_trans[OF adv_dp_open[OF assms(1) wm op]] adv_dp_store[OF _ assms(2) _ nv(2,3) bi(3)] adv_dp_open[OF assms(1) wm op] st
    by (cases go) auto
qed

lemma adv_dp_step:
  assumes "dp_inv d" "rs_shape rs" "dp_step rs e d = Some d'"
  shows "adv d d'"
proof (cases e)
  case (Datagram dg now)
  then show ?thesis using assms adv_dp_push by (simp add: dp_step_def)
next
  case (Expire now)
  then show ?thesis using assms adv_retire_keys by (simp add: dp_step_def expire_def)
next
  case Pop
  then show ?thesis using assms
    by (cases "dp_events d") (auto simp: dp_step_def pop_event_def adv_refl,
        auto simp: adv_def ev_ok_def losts_def watermark_below_def wm_le_def split: option.split)
qed

interpretation dp: step_preorder "dp_step rs" "\<lambda>d. rs_shape rs \<and> dp_inv d" adv for rs
proof unfold_locales
  show "\<exists>s'. dp_step rs e s = Some s' \<and> rs_shape rs \<and> dp_inv s'" if "rs_shape rs \<and> dp_inv s" for e s
    using that dp_step_ok by blast
qed (use adv_refl adv_trans adv_dp_step in auto)

lemma dp_inv_new: "dp_inv dp_new" and ev_ok_new: "ev_ok dp_new"
  by (simp_all add: dp_inv_def dp_new_def bt_inv_def bt_get_def ev_ok_def losts_def)

text \<open>The first shard of a frame of three, and the state after it arrived and its time ran out.\<close>


abbreviation sample_shard :: bytes where
  "sample_shard \<equiv> sample_packets ! 0"

definition sample_expired :: "depacketizer" where
  "sample_expired = (case run_steps (dp_step rs_xor) [Datagram sample_shard 0, Expire 200000000] dp_new of
     Some d \<Rightarrow> d | None \<Rightarrow> dp_new)"

lemma sample_expired_run:
  "run_steps (dp_step rs_xor) [Datagram sample_shard 0, Expire 200000000] dp_new = Some sample_expired"
  "dp_inv sample_expired"
  using dp.run_inv[of rs_xor dp_new "[Datagram sample_shard 0, Expire 200000000]"] rs_xor_shape dp_inv_new
  unfolding sample_expired_def by (auto simp del: run_steps.simps)

section \<open>Properties\<close>





text \<open>
  A frame that has been closed stays closed. The watermark never falls along a run, so after any further
  events a datagram of a frame at or below it changes nothing.
\<close>

theorem retired_frame_ignored:
  assumes "rs_shape rs" "dp_inv d" "dp_last_retired d = Some c" "run_steps (dp_step rs) es d = Some d'"
    and "nv_read_from_shard dg = Some nv" "nv_frame_index nv \<le> c"
  shows "dp_push rs dg now d' = Some d'"
proof -
  have "adv d d'" using dp.run_le[of rs d es d'] assms by simp
  then obtain c' where "dp_last_retired d' = Some c'" "nv_frame_index nv \<le> c'"
    using assms(3,6) by (fastforce simp: adv_def wm_le_def)
  then show ?thesis using assms(5) by (auto simp: dp_push_def split: option.split)
qed

theorem retired_frame_ignored_witness:
  "dp_push rs_xor sample_shard 300000000 sample_expired = Some sample_expired"
proof -
  have "dp_last_retired sample_expired = Some 7" by code_simp
  moreover have "map_option nv_frame_index (nv_read_from_shard sample_shard) = Some 7" by code_simp
  then obtain nv where "nv_read_from_shard sample_shard = Some nv" "nv_frame_index nv \<le> 7" by auto
  ultimately show ?thesis
    using retired_frame_ignored[of rs_xor sample_expired 7 "[]" sample_expired sample_shard nv 300000000]
      rs_xor_shape sample_expired_run(2) by simp
qed

end
