(* ===== verification/Kmc_VideoPath.thy ===== *)
theory Kmc_VideoPath
  imports Kmc_Depacketizer
begin

text \<open>
  Host and client together: what the depacketizer makes of the datagrams the packetizer sends, when
  some are lost, repeated or reordered on the way.
\<close>

section \<open>Reassembly of the logical stream\<close>

lemma slice_append:
  fixes S p :: "'a list"
  defines "off \<equiv> length S"
  shows "drop 8 (take n (S @ p)) = drop 8 (take n S) @
     (let lo = max off 8; hi = min (off + length p) n
      in if lo < hi then take (hi - lo) (drop (lo - off) p) else [])"
proof (cases "n \<le> off")
  case True
  then show ?thesis by (simp add: off_def Let_def)
next
  case False
  then have "drop 8 (take n (S @ p)) = drop 8 S @ drop (8 - off) (take (n - off) p)"
    by (simp add: off_def)
  moreover have "drop (8 - off) (take (n - off) p) = take (n - off - (8 - off)) (drop (8 - off) p)"
    by (rule drop_take)
  moreover have "take (n - off - (8 - off)) (drop (8 - off) p) =
      (if max off 8 < min (off + length p) n
       then take (min (off + length p) n - max off 8) (drop (max off 8 - off) p) else [])"
    using False by (auto simp: max_def min_def)
  ultimately show ?thesis using False by (simp add: off_def Let_def)
qed

lemma append_slots_stream:
  "append_slots n (map Some ps) (length S, t @ drop 8 (take n S)) =
     Some (length (S @ concat ps), t @ drop 8 (take n (S @ concat ps)))"
proof (induction ps arbitrary: S)
  case (Cons p ps)
  have "append_slots n (map Some (p # ps)) (length S, t @ drop 8 (take n S)) =
      append_slots n (map Some ps) (length (S @ p), t @ drop 8 (take n (S @ p)))"
    unfolding slice_append by (simp add: Let_def)
  then show ?case using Cons.IH[of "S @ p"] by (simp only: concat.simps append_assoc)
qed simp

lemma append_blocks_stream:
  assumes "length blks = length pss"
    "\<And>b. b < length pss \<Longrightarrow> \<exists>blk. blks ! b = Some blk \<and> take (ba_data_shards blk) (ba_slots blk) = map Some (pss ! b)"
  shows "append_blocks n blks (length S, t @ drop 8 (take n S)) =
     Some (length (S @ concat (concat pss)), t @ drop 8 (take n (S @ concat (concat pss))))"
  using assms
proof (induction pss arbitrary: blks S)
  case (Cons ps pss)
  then obtain ob obs where blks: "blks = ob # obs" "length obs = length pss" by (cases blks) auto
  obtain blk where "ob = Some blk" "take (ba_data_shards blk) (ba_slots blk) = map Some ps"
    using Cons.prems(2)[of 0] blks by auto
  moreover have "\<exists>blk. obs ! b = Some blk \<and> take (ba_data_shards blk) (ba_slots blk) = map Some (pss ! b)"
    if "b < length pss" for b using Cons.prems(2)[of "Suc b"] blks that by simp
  ultimately show ?case using Cons.IH[of obs "S @ concat ps"] append_slots_stream[of n ps S t] blks
    by simp
qed simp

lemma concat_slices:
  assumes "S = pkt_stream c"
  shows "concat (map (pkt_slice c) [0..<n]) = take (n * pk_spp c) S @ replicate (n * pk_spp c - length S) 0"
proof (induction n)
  case (Suc n)
  have "take (Suc n * pk_spp c) S = take (n * pk_spp c) S @ take (pk_spp c) (drop (n * pk_spp c) S)"
    by (metis add.commute mult_Suc take_add)
  then show ?case
  proof (cases "length S \<le> n * pk_spp c")
    case True
    then show ?thesis using Suc
      by (simp add: pkt_slice_def Let_def assms[symmetric] replicate_add[symmetric] add.commute)
  next
    case False
    then show ?thesis using Suc \<open>take (Suc n * pk_spp c) S = _\<close>
      by (auto simp: pkt_slice_def Let_def assms[symmetric] min_def intro: arg_cong[of _ _ "\<lambda>n. replicate n 0"])
  qed
qed simp

lemma div_ceil_last:
  assumes "0 < a" "0 < (b :: nat)"
  shows "(div_ceil a b - 1) * b + (if a mod b = 0 then b else a mod b) = a"
proof -
  obtain a' where a: "a = Suc a'" using assms(1) by (cases a) auto
  then have "div_ceil a b = a' div b + 1" using assms(2) by (simp add: div_ceil_def)
  moreover have "(if a mod b = 0 then b else a mod b) = Suc (a' mod b)"
    using assms(2) by (auto simp: a mod_Suc)
  ultimately show ?thesis by (simp add: a)
qed

text \<open>The slices of the blocks, in order, are the slices of the whole stream.\<close>

definition block_slices :: "pkt_ctx \<Rightarrow> nat \<Rightarrow> bytes list" where
  "block_slices c b = map (\<lambda>i. pkt_slice c (block_start c b + i)) [0..<block_data c b]"

lemma block_slices_alt:
  assumes "ctx_ok c" "b < pk_blocks c"
  shows "block_slices c b = map (pkt_slice c) [block_start c b..<block_end c b]"
proof -
  have "[block_start c b..<block_end c b] = map (\<lambda>i. i + block_start c b) [0..<block_data c b]"
    using block_start_less_end[OF assms] by (simp add: map_add_upt block_data_def)
  then show ?thesis by (simp add: block_slices_def comp_def add.commute)
qed

lemma blocks_slices:
  assumes "ctx_ok c" "n \<le> pk_blocks c" "0 < n"
  shows "concat (map (block_slices c) [0..<n]) = map (pkt_slice c) [0..<block_end c (n - 1)]"
  using assms(2,3)
proof (induction n)
  case (Suc n)
  show ?case
  proof (cases "n = 0")
    case True
    then show ?thesis using Suc.prems block_slices_alt[OF assms(1), of 0] by (simp add: block_start_def)
  next
    case False
    then have "block_end c (n - 1) = block_start c n"
      using block_end_next[OF assms(1), of "n - 1"] Suc.prems by simp
    moreover have "[0..<block_end c n] = [0..<block_start c n] @ [block_start c n..<block_end c n]"
      using block_start_less_end[OF assms(1), of n] Suc.prems
        upt_add_eq_append[of 0 "block_start c n" "block_data c n"]
      by (simp add: block_data_def)
    ultimately show ?thesis using Suc False block_slices_alt[OF assms(1), of n] by simp
  qed
qed simp

lemma all_slices:
  assumes "ctx_ok c"
  shows "take (pk_data_len c) (concat (concat (map (block_slices c) [0..<pk_blocks c]))) = pkt_stream c"
proof -
  have len: "length (pkt_stream c) = pk_data_len c" using assms by (simp add: pkt_stream_def ctx_ok_def)
  have "pk_data_len c \<le> pk_total c * pk_spp c"
    using assms div_ceil_mult_ge[of "pk_spp c" "pk_data_len c"] by (simp add: ctx_ok_def)
  moreover have "concat (map (block_slices c) [0..<pk_blocks c]) = map (pkt_slice c) [0..<pk_total c]"
    using blocks_slices[OF assms, of "pk_blocks c"] blocks_bounds[OF assms] block_end_last[OF assms] by simp
  ultimately show ?thesis using concat_slices[OF refl, of c "pk_total c"] len by simp
qed

section \<open>A block of the client that holds shards of a block of the host\<close>

text \<open>
  \<open>blk\<close> has received exactly the shards \<open>R\<close> of a block with payloads \<open>pl\<close>, the first \<open>d\<close> of them data:
  with \<open>d\<close> shards or more its data are all there, with fewer it holds just what arrived.
\<close>

definition blk_match :: "nat \<Rightarrow> bytes list \<Rightarrow> nat set \<Rightarrow> block_asm \<Rightarrow> bool" where
  "blk_match d pl R blk \<longleftrightarrow>
     ba_data_shards blk = d \<and> length (ba_slots blk) = length pl \<and> length (ba_received blk) = length pl
     \<and> (\<forall>j<length pl. ba_received blk ! j = (j \<in> R))
     \<and> (if d \<le> card R then \<forall>i<d. ba_slots blk ! i = Some (pl ! i)
        else \<forall>j<length pl. ba_slots blk ! j = (if j \<in> R then Some (pl ! j) else None))"

text \<open>The decoder restores this block from any \<open>d\<close> of its payloads.\<close>

definition recovers :: "rs_impl \<Rightarrow> nat \<Rightarrow> bytes list \<Rightarrow> bool" where
  "recovers rs d pl \<longleftrightarrow> (d < length pl \<longrightarrow> rs_new rs d (length pl - d)
     \<and> (\<forall>slots. length slots = length pl \<and> (\<forall>i<length pl. slots ! i = None \<or> slots ! i = Some (pl ! i))
          \<and> d \<le> length (filter (\<lambda>s. s \<noteq> None) slots) \<longrightarrow>
          (\<exists>slots'. rs_reconstruct rs d (length pl - d) slots = (slots', True) \<and> length slots' = length pl
             \<and> (\<forall>i<d. slots' ! i = Some (pl ! i)))))"

lemma data_complete_iff:
  "ba_data_shards b \<le> length (ba_slots b) \<Longrightarrow>
   data_complete b = (\<forall>i<ba_data_shards b. ba_slots b ! i \<noteq> None)"
  by (auto simp: data_complete_def list_all_length)

lemma count_slots:
  assumes "length slots = n" "R \<subseteq> {..<n}" "\<forall>j<n. slots ! j = (if j \<in> R then Some (f j) else None)"
  shows "length (filter (\<lambda>s. s \<noteq> None) slots) = card R"
proof -
  have "{i. i < length slots \<and> slots ! i \<noteq> None} = R" using assms by (auto split: if_splits)
  then show ?thesis by (simp add: length_filter_conv_card)
qed

lemma blk_match_complete:
  assumes "blk_match d pl R blk" "R \<subseteq> {..<length pl}" "d \<le> length pl"
  shows "data_complete blk \<longleftrightarrow> d \<le> card R"
proof (cases "d \<le> card R")
  case True
  then show ?thesis using assms by (auto simp: blk_match_def data_complete_iff)
next
  case False
  have "\<not> {..<d} \<subseteq> R"
    using False card_mono[of R "{..<d}"] finite_subset[OF assms(2)] by auto
  then show ?thesis using False assms by (auto simp: blk_match_def data_complete_iff)
qed

lemma blk_match_new: "0 < d \<Longrightarrow> length pl = d + p \<Longrightarrow> blk_match d pl {} (block_new d p pct)"
  by (simp add: blk_match_def block_new_def)

lemma blk_match_accept_full:
  assumes "blk_match d pl R blk" "j < length pl" "d \<le> card R" "finite R" "j \<notin> R"
  shows "blk_match d pl (insert j R) (block_accept seq j (pl ! j) blk)"
  using assms by (auto simp: blk_match_def nth_list_update)

lemma blk_match_step:
  fixes seq :: u16
  assumes m: "blk_match d pl R blk" and R: "R \<subseteq> {..<length pl}" and d: "d \<le> length pl"
    and j: "j < length pl" "j \<notin> R" and rs: "recovers rs d pl"
  defines "blk1 \<equiv> block_accept seq j (pl ! j) blk"
  shows "blk_match d pl (insert j R) (if data_complete blk1 then blk1 else fst (try_recover rs blk1))"
proof (cases "d \<le> card R")
  case True
  then have "blk_match d pl (insert j R) blk1"
    using blk_match_accept_full[OF m j(1) True _ j(2)] finite_subset[OF R] by (simp add: blk1_def)
  moreover from this have "data_complete blk1"
    using blk_match_complete[of d pl "insert j R" blk1] R d j True card_insert_le[of R j] finite_subset[OF R] by auto
  ultimately show ?thesis by simp
next
  case False
  let ?R = "insert j R"
  have R': "?R \<subseteq> {..<length pl}" using R j by simp
  have card: "card ?R = Suc (card R)" using j finite_subset[OF R] by simp
  have s: "\<forall>i<length pl. ba_slots blk1 ! i = (if i \<in> ?R then Some (pl ! i) else None)"
    "length (ba_slots blk1) = length pl" "ba_data_shards blk1 = d"
    using m False j by (auto simp: blk_match_def blk1_def nth_list_update)
  have r: "length (ba_received blk1) = length pl" "\<forall>i<length pl. ba_received blk1 ! i = (i \<in> ?R)"
    using m j by (auto simp: blk_match_def blk1_def nth_list_update)
  have count: "length (filter (\<lambda>s. s \<noteq> None) (ba_slots blk1)) = card ?R"
    using count_slots[OF s(2) R' s(1)] .
  consider "data_complete blk1" | "\<not> data_complete blk1" "card ?R < d" | "\<not> data_complete blk1" "card ?R = d"
    using False card by linarith
  then show ?thesis
  proof cases
    case 1
    then have "\<forall>i<d. ba_slots blk1 ! i \<noteq> None" using data_complete_iff[of blk1] s d by simp
    then have "\<forall>i<d. i \<in> ?R" using s(1) d by (metis less_le_trans)
    then show ?thesis using 1 s r d by (auto simp: blk_match_def)
  next
    case 2
    then have "fst (try_recover rs blk1) = blk1" using count s by (simp add: try_recover_def Let_def)
    then show ?thesis using 2 s r by (auto simp: blk_match_def)
  next
    case 3
    have "d < length pl"
    proof (rule ccontr)
      assume "\<not> d < length pl"
      then have "?R = {..<length pl}" using 3 d R' by (intro card_subset_eq) auto
      then show False using 3 s d by (auto simp: data_complete_iff)
    qed
    then obtain slots' where "rs_reconstruct rs d (length pl - d) (ba_slots blk1) = (slots', True)"
        "length slots' = length pl" "\<forall>i<d. slots' ! i = Some (pl ! i)" "rs_new rs d (length pl - d)"
      using rs s count 3 unfolding recovers_def by (auto dest!: spec[of _ "ba_slots blk1"])
    moreover have "parity_slots blk1 = length pl - d" using s by (simp add: parity_slots_def)
    ultimately have "fst (try_recover rs blk1) = blk1\<lparr>ba_slots := slots'\<rparr>"
      using 3 s count \<open>d < length pl\<close> by (simp add: try_recover_def Let_def)
    then show ?thesis using 3 s r \<open>length slots' = _\<close> \<open>\<forall>i<d. slots' ! i = _\<close>
      by (auto simp: blk_match_def)
  qed
qed

section \<open>A frame in flight\<close>

definition sent_frame :: "rs_impl \<Rightarrow> pkt_ctx \<Rightarrow> u32 \<Rightarrow> u32 \<Rightarrow> bytes list list \<Rightarrow> bool" where
  "sent_frame rs c seq spi sss \<longleftrightarrow> ctx_ok c \<and> frame_fits c \<and> frame_blocks rs c seq spi sss
     \<and> (\<forall>b<pk_blocks c. block_code_ok rs c b)"

definition frame_match :: "pkt_ctx \<Rightarrow> bytes list list \<Rightarrow> (nat \<Rightarrow> nat set) \<Rightarrow> frame_asm \<Rightarrow> bool" where
  "frame_match c sss R f \<longleftrightarrow>
     fa_frame_index f = pk_frame c \<and> fa_block_count f = pk_blocks c
     \<and> length (fa_blocks f) = MAX_FEC_BLOCKS \<and> fa_shard_payload_len f = pk_spp c
     \<and> (\<forall>b<pk_blocks c. R b \<subseteq> {..<length (sss ! b)}
          \<and> (case fa_blocks f ! b of None \<Rightarrow> R b = {}
             | Some blk \<Rightarrow> blk_match (block_data c b) (map (drop 32) (sss ! b)) (R b) blk))"

definition enough :: "pkt_ctx \<Rightarrow> (nat \<Rightarrow> nat set) \<Rightarrow> bool" where
  "enough c R \<longleftrightarrow> (\<forall>b<pk_blocks c. block_data c b \<le> card (R b))"

lemma sent_frameD:
  assumes "sent_frame rs c seq spi sss" "b < pk_blocks c"
  shows "length (sss ! b) = block_data c b + block_parity c b" "length (sss ! b) \<le> 255"
    "j < length (sss ! b) \<Longrightarrow> carries c b j (block_seq c seq b) (sss ! b ! j)"
    "i < block_data c b \<Longrightarrow> drop 32 (sss ! b ! i) = block_slices c b ! i"
proof -
  have s: "block_shards rs c b (block_seq c seq b) (block_spi c spi b) (sss ! b)"
    using assms by (simp add: sent_frame_def frame_blocks_def)
  then show len: "length (sss ! b) = block_data c b + block_parity c b" by (auto simp: block_shards_def)
  show "length (sss ! b) \<le> 255" using len block_total_le[of c b] assms by (simp add: sent_frame_def)
  show "j < length (sss ! b) \<Longrightarrow> carries c b j (block_seq c seq b) (sss ! b ! j)"
    using s len by (auto simp: block_shards_def)
  show "i < block_data c b \<Longrightarrow> drop 32 (sss ! b ! i) = block_slices c b ! i"
    using s by (fastforce simp: block_shards_def block_slices_def nth_append)
qed

lemma sent_frame_recovers:
  assumes "sent_frame rs c seq spi sss" "b < pk_blocks c"
  shows "recovers rs (block_data c b) (map (drop 32) (sss ! b))"
proof (cases "0 < block_parity c b")
  case False
  then show ?thesis using sent_frameD(1)[OF assms] by (simp add: recovers_def)
next
  case True
  let ?d = "block_data c b" and ?p = "block_parity c b"
  let ?D = "data_datagrams c b (block_seq c seq b) (block_spi c spi b)"
  have "block_shards rs c b (block_seq c seq b) (block_spi c spi b) (sss ! b)"
    and "rs_correct rs ?d ?p" and spp: "0 < pk_spp c"
    using assms True by (auto simp: sent_frame_def frame_blocks_def block_code_ok_def ctx_ok_def)
  then obtain P where P: "rs_encode rs ?d ?p (?D @ replicate ?p (replicate (32 + pk_spp c) 0)) = (?D @ P, True)"
      "\<forall>j<?d + ?p. drop 32 (sss ! b ! j) = drop 32 ((?D @ P) ! j)" "length P = ?p"
      and n: "rs_new rs ?d ?p" and r: "rs_recover_ok rs ?d ?p"
    using True by (auto simp: block_shards_def rs_correct_def)
  have "\<exists>slots'. rs_reconstruct rs ?d ?p slots = (slots', True) \<and> length slots' = ?d + ?p
      \<and> (\<forall>i<?d. slots' ! i = Some (drop 32 (?D ! i)))"
    if "length slots = ?d + ?p" "\<forall>i<?d + ?p. slots ! i = None \<or> slots ! i = Some (drop 32 (sss ! b ! i))"
      "?d \<le> length (filter (\<lambda>s. s \<noteq> None) slots)" for slots
  proof -
    have "length ?D = ?d \<and> (\<forall>x\<in>set ?D. length x = 32 + pk_spp c) \<and> 32 < 32 + pk_spp c
        \<and> rs_encode rs ?d ?p (?D @ replicate ?p (replicate (32 + pk_spp c) 0)) = (?D @ P, True)
        \<and> length slots = ?d + ?p
        \<and> (\<forall>i<?d + ?p. slots ! i = None \<or> slots ! i = Some (drop 32 ((?D @ P) ! i)))
        \<and> ?d \<le> length (filter (\<lambda>s. s \<noteq> None) slots)"
      using that P spp data_datagrams_lengths by auto
    then show ?thesis using r unfolding rs_recover_ok_def by blast
  qed
  moreover have "drop 32 (?D ! i) = drop 32 (sss ! b ! i)" if "i < ?d" for i
    using P(2) that by (simp add: nth_append)
  ultimately show ?thesis using n sent_frameD(1)[OF assms] by (fastforce simp: recovers_def)
qed

lemma frame_match_complete:
  assumes "sent_frame rs c seq spi sss" "frame_match c sss R f"
  shows "frame_complete f \<longleftrightarrow> enough c R"
proof -
  have "(case fa_blocks f ! b of Some blk \<Rightarrow> data_complete blk | None \<Rightarrow> False) \<longleftrightarrow> block_data c b \<le> card (R b)"
    if b: "b < pk_blocks c" for b
  proof (cases "fa_blocks f ! b")
    case None
    then have "R b = {}" using assms(2) b by (force simp: frame_match_def)
    moreover have "0 < block_data c b" using assms(1) b by (simp add: sent_frame_def block_data_pos)
    ultimately show ?thesis using None by simp
  next
    case (Some blk)
    then have "blk_match (block_data c b) (map (drop 32) (sss ! b)) (R b) blk" "R b \<subseteq> {..<length (sss ! b)}"
      using assms(2) b by (force simp: frame_match_def)+
    then show ?thesis using Some blk_match_complete[of _ _ "R b" blk] sent_frameD(1)[OF assms(1) b] by simp
  qed
  moreover have "fa_block_count f = pk_blocks c" using assms(2) by (simp add: frame_match_def)
  ultimately show ?thesis by (auto simp: frame_complete_def enough_def list_all_iff)
qed

section \<open>The access unit\<close>

definition frame_au :: "bool \<Rightarrow> bytes \<Rightarrow> au_frame" where
  "frame_au key enc = \<lparr>au_keyframe = key, au_data = (if key then 1 else 0) # enc\<rparr>"

lemma sum_data_shards_eq:
  assumes "length blks = n" "\<And>b. b < n \<Longrightarrow> \<exists>blk. blks ! b = Some blk \<and> ba_data_shards blk = g b"
  shows "sum_data_shards blks = Some (\<Sum>b<n. g b)"
  using assms
proof (induction blks arbitrary: n g)
  case (Cons ob obs)
  then obtain m where n: "n = Suc m" by auto
  obtain blk where "ob = Some blk" "ba_data_shards blk = g 0" using Cons.prems(2)[of 0] n by auto
  moreover have "sum_data_shards obs = Some (\<Sum>b<m. g (Suc b))"
    using Cons.prems(1) n Cons.prems(2)[of "Suc b" for b] by (intro Cons.IH) auto
  ultimately show ?case by (simp add: n sum.lessThan_Suc_shift del: sum.lessThan_Suc)
qed simp

lemma enough_blocks:
  assumes "sent_frame rs c seq spi sss" "frame_match c sss R f" "enough c R" "b < pk_blocks c"
  obtains blk where "fa_blocks f ! b = Some blk" "ba_data_shards blk = block_data c b"
    "take (ba_data_shards blk) (ba_slots blk) = map Some (block_slices c b)"
proof (cases "fa_blocks f ! b")
  case None
  then have "R b = {}" using assms(2,4) by (force simp: frame_match_def)
  then show ?thesis using assms by (auto simp: enough_def sent_frame_def dest!: block_data_pos)
next
  case (Some blk)
  then have m: "blk_match (block_data c b) (map (drop 32) (sss ! b)) (R b) blk"
    using assms(2,4) by (force simp: frame_match_def)
  have le: "block_data c b \<le> length (sss ! b)" using sent_frameD(1)[OF assms(1,4)] by simp
  have "take (ba_data_shards blk) (ba_slots blk) = map Some (block_slices c b)"
    using m le assms(3,4) sent_frameD(4)[OF assms(1,4)]
    by (intro nth_equalityI) (auto simp: blk_match_def enough_def block_slices_def)
  then show ?thesis using that Some m by (simp add: blk_match_def)
qed

lemma assemble_sent:
  assumes "sent_frame rs c seq spi sss" "frame_match c sss R f" "enough c R"
    and c: "c = pkt_setup enc key psize frame ts pct" and enc: "enc \<noteq> []"
    and size: "24 \<le> psize" "psize < 2 ^ 32"
  shows "assemble f = Some (frame_au key enc)"
proof -
  let ?n = "pk_blocks c" and ?blks = "take (fa_block_count f) (fa_blocks f)"
  have ok: "ctx_ok c" using assms(1) by (simp add: sent_frame_def)
  have n: "1 \<le> ?n" "?n \<le> 4" using blocks_bounds[OF ok] by auto
  have f: "fa_block_count f = ?n" "fa_shard_payload_len f = pk_spp c" "length (fa_blocks f) = 4"
    using assms(2) by (auto simp: frame_match_def)
  define lst where "lst = (if pk_data_len c mod pk_spp c = 0 then pk_spp c else pk_data_len c mod pk_spp c)"
  define h where "h = \<lparr>vf_is_key_frame = key, vf_frame_processing_latency = 0, vf_last_payload_len = of_nat lst\<rparr>"
  have hdr: "pk_header c = vf_write h" and encd: "pk_encoded c = enc" and spp: "8 \<le> pk_spp c" "pk_spp c < 2 ^ 32"
    using size by (auto simp: c pkt_setup_def Let_def h_def lst_def)
  have lst_le: "0 < lst" "lst \<le> pk_spp c"
    using spp mod_less_divisor[of "pk_spp c" "pk_data_len c"] by (auto simp: lst_def)
  moreover from this have "unat (of_nat lst :: u32) = lst" using spp by (simp add: unat_of_nat)
  ultimately have lst: "0 < lst" "lst \<le> pk_spp c" "unat (of_nat lst :: u32) = lst" by auto
  have tot: "(pk_total c - 1) * pk_spp c + lst = pk_data_len c"
    using ok div_ceil_last[of "pk_data_len c" "pk_spp c"] by (simp add: ctx_ok_def lst_def)
  have len: "pk_data_len c = 8 + length enc" using ok encd by (simp add: ctx_ok_def)
  have blk: "\<exists>blk. ?blks ! b = Some blk \<and> ba_data_shards blk = block_data c b
      \<and> take (ba_data_shards blk) (ba_slots blk) = map Some (block_slices c b)" if "b < ?n" for b
    using enough_blocks[OF assms(1-3) that] f n that by (metis nth_take)
  have sum: "sum_data_shards ?blks = Some (pk_total c)"
    using sum_data_shards_eq[of ?blks ?n "block_data c"] blk f n sum_block_data_total[OF ok] by force
  have "append_blocks (pk_data_len c) ?blks (length ([] :: bytes), [t] @ drop 8 (take (pk_data_len c) [])) =
     Some (length ([] @ concat (concat (map (block_slices c) [0..<?n]))),
           [t] @ drop 8 (take (pk_data_len c) ([] @ concat (concat (map (block_slices c) [0..<?n])))))" for t
    using blk f n by (intro append_blocks_stream) auto
  moreover have "drop 8 (take (pk_data_len c) (concat (concat (map (block_slices c) [0..<?n])))) = enc"
    by (simp add: all_slices[OF ok] pkt_stream_def hdr encd)
  ultimately have app: "\<exists>off. append_blocks (pk_data_len c) ?blks (0, [t]) = Some (off, t # enc)" for t by simp
  obtain blk0 where b0: "fa_blocks f ! 0 = Some blk0" "ba_data_shards blk0 = block_data c 0"
      "take (ba_data_shards blk0) (ba_slots blk0) = map Some (block_slices c 0)"
    using blk[of 0] f n by auto
  have "0 < block_data c 0" using block_data_pos[OF ok, of 0] n by simp
  then have "ba_slots blk0 ! 0 = Some (pkt_slice c 0)"
    using arg_cong[OF b0(3), of "\<lambda>xs. xs ! 0"] b0(2) by (simp add: block_slices_def block_start_def)
  moreover have "vf_read (pkt_slice c 0) = Some h"
    using spp by (simp add: pkt_slice_def Let_def pkt_stream_def hdr wire_simps)
  ultimately show ?thesis
    using app[of "if key then 1 else 0"] f spp sum b0 lst tot len enc total_pos[OF ok]
    by (auto simp: assemble_def Let_def frame_au_def h_def)
qed

section \<open>Pushing a shard of the frame\<close>

definition nv_names :: "pkt_ctx \<Rightarrow> nat \<Rightarrow> nat \<Rightarrow> nv_video_packet \<Rightarrow> bool" where
  "nv_names c b j nv \<longleftrightarrow> nv_frame_index nv = pk_frame c \<and> block_index nv = b \<and> block_count nv = pk_blocks c
     \<and> data_shards nv = block_data c b \<and> shard_index nv = j \<and> parity_shards nv = block_parity c b"

lemma push_carries:
  assumes sf: "sent_frame rs c seq spi sss" and b: "b < pk_blocks c" and j: "j < length (sss ! b)"
  obtains rtp nv where "nv_names c b j nv" "nv_read_from_shard (sss ! b ! j) = Some nv"
    "\<And>rs' now d. watermark_below (pk_frame c) d \<Longrightarrow> dp_push rs' (sss ! b ! j) now d =
       do { (go, d1) \<leftarrow> dp_open (pk_frame c) (pk_blocks c) (pk_spp c) now d;
            if go then dp_store rs' (sss ! b ! j) (pk_spp c) rtp nv d1 else Some d1 }"
proof -
  let ?dg = "sss ! b ! j"
  have ok: "ctx_ok c" "frame_fits c" using sf by (auto simp: sent_frame_def)
  have bound: "pk_blocks c \<le> 4" "0 < block_data c b" "block_data c b \<le> 255" "j < 255" "pk_pct c \<le> 60" "0 < pk_spp c"
    using blocks_bounds[OF ok(1)] block_data_pos[OF ok(1) b] block_data_le[OF ok b] sent_frameD(2)[OF sf b] j ok(1)
    by (auto simp: ctx_ok_def)
  have car: "carries c b j (block_seq c seq b) ?dg" using sent_frameD(3)[OF sf b j] .
  then obtain rtp nv where rd: "rtp_read ?dg = Some rtp" "nv_read_from_shard ?dg = Some nv"
      "nv_frame_index nv = pk_frame c" "nv_multi_fec_blocks nv = pack_multi_fec_blocks b (pk_blocks c)"
      "nv_fec_info nv = pack_fec_info j (block_data c b) (pk_pct c)"
    by (auto simp: carries_def)
  have nv: "nv_names c b j nv"
    using rd packed_fec_info[OF rd(5)] packed_blocks[OF rd(4) b] bound
    by (simp add: nv_names_def block_parity_def)
  have "shard_payload_len (length ?dg) = Some (pk_spp c)" "?dg ! 0 = RTP_VERSION_FLAGS"
    using car bound by (auto simp: carries_def shard_payload_len_def)
  then have "dp_push rs' ?dg now d =
       do { (go, d1) \<leftarrow> dp_open (pk_frame c) (pk_blocks c) (pk_spp c) now d;
            if go then dp_store rs' ?dg (pk_spp c) rtp nv d1 else Some d1 }"
    if "watermark_below (pk_frame c) d" for rs' now d
    using that rd(1,2) nv bound b
    by (auto simp: dp_push_def nv_names_def watermark_below_def not_le split: option.splits)
  then show ?thesis using that nv rd(2) by blast
qed

lemma frame_match_put:
  assumes "frame_match c sss R f" "b < pk_blocks c" "pk_blocks c \<le> 4" "S \<subseteq> {..<length (sss ! b)}"
    "blk_match (block_data c b) (map (drop 32) (sss ! b)) S blk"
  shows "frame_match c sss (R(b := S)) (put_block f b blk)"
  using assms by (auto simp: frame_match_def put_block_def nth_list_update split: option.splits)

lemma store_match:
  assumes sf: "sent_frame rs c seq spi sss" and b: "b < pk_blocks c" and j: "j < length (sss ! b)"
    and nv: "nv_names c b j nv" and get: "bt_get (dp_frames d) (pk_frame c) = Some f"
    and fm: "frame_match c sss R f" and dl: "fa_delivered f = enough c R"
    and fok: "frame_asm_ok (pk_frame c) f" and shape: "rs_shape rs"
  defines "R' \<equiv> R(b := insert j (R b))"
  shows "\<exists>f'. frame_match c sss R' f' \<and> fa_delivered f' = fa_delivered f \<and> frame_asm_ok (pk_frame c) f'
    \<and> dp_store rs (sss ! b ! j) (pk_spp c) rtp nv d =
        (if enough c R' \<and> \<not> enough c R then emit_completed (pk_frame c) (put_frame f' (pk_frame c) d)
         else Some (put_frame f' (pk_frame c) d))"
proof -
  let ?pl = "map (drop 32) (sss ! b)" and ?d = "block_data c b" and ?k = "pk_frame c"
  have ok: "ctx_ok c" "pk_blocks c \<le> 4" using sf blocks_bounds[of c] by (auto simp: sent_frame_def)
  have len: "length ?pl = ?d + block_parity c b" using sent_frameD(1)[OF sf b] by simp
  have f: "fa_shard_payload_len f = pk_spp c" "fa_block_count f = pk_blocks c" "length (fa_blocks f) = 4"
    "R b \<subseteq> {..<length (sss ! b)}"
    using fm b by (auto simp: frame_match_def)
  have fin: "finite (R b)" using f(4) finite_subset by blast
  define blk where "blk = (case fa_blocks f ! b of Some b \<Rightarrow> b
      | None \<Rightarrow> block_new (data_shards nv) (parity_shards nv) (fec_percentage nv))"
  have m: "blk_match ?d ?pl (R b) blk"
    using fm b len nv blk_match_new[of ?d ?pl] block_data_pos[OF ok(1) b]
    by (cases "fa_blocks f ! b") (force simp: blk_def frame_match_def nv_names_def)+
  have bok: "block_asm_ok blk"
    using store_block_ok[OF fok, of nv] nv b ok(2) block_data_pos[OF ok(1) b] block_data_le[OF ok(1) _ b] sf
    unfolding blk_def by (simp add: nv_names_def sent_frame_def)
  have mf: "frame_match c sss (R(b := S)) (put_block f b blk')"
    if "blk_match ?d ?pl S blk'" "S \<subseteq> {..<length (sss ! b)}" for S blk'
    using frame_match_put[OF fm b ok(2) that(2,1)] .
  have dp [simp]: "fa_delivered (put_block f b blk') = fa_delivered f" for blk' by (simp add: put_block_def)
  have store: "dp_store rs (sss ! b ! j) (pk_spp c) rtp nv d =
     (if j \<in> R b then Some (put_frame (put_block f b blk) ?k d)
      else let blk1 = block_accept (rtp_sequence_number rtp) j (?pl ! j) blk
        in if enough c R then Some (put_frame (put_block f b blk1) ?k d)
        else let f2 = put_block f b (if data_complete blk1 then blk1 else fst (try_recover rs blk1))
          in if frame_complete f2 then emit_completed ?k (put_frame f2 ?k d) else Some (put_frame f2 ?k d))"
    using nv get f j b ok m dl unfolding blk_match_def nv_names_def
    by (clarsimp simp: dp_store_def blk_def[symmetric] Let_def)
  show ?thesis
  proof (cases "j \<in> R b")
    case True
    then have "R' = R" by (auto simp: R'_def insert_absorb)
    then show ?thesis using store True mf[OF m f(4)] put_block_ok[OF fok bok] by (intro exI[of _ "put_block f b blk"]) simp
  next
    case new: False
    let ?blk1 = "block_accept (rtp_sequence_number rtp) j (?pl ! j) blk"
    have aok: "block_asm_ok ?blk1" using block_accept_ok[OF bok] m new j by (simp add: blk_match_def)
    have sub: "insert j (R b) \<subseteq> {..<length (sss ! b)}" using f(4) j by simp
    show ?thesis
    proof (cases "enough c R")
      case True
      then have "blk_match ?d ?pl (insert j (R b)) ?blk1"
        using blk_match_accept_full[OF m] j new fin b by (simp add: enough_def)
      then show ?thesis using store True new mf[OF _ sub] put_block_ok[OF fok aok]
        by (intro exI[of _ "put_block f b ?blk1"]) (simp add: R'_def)
    next
      case False
      let ?blk2 = "if data_complete ?blk1 then ?blk1 else fst (try_recover rs ?blk1)"
      have "blk_match ?d ?pl (insert j (R b)) ?blk2"
        using blk_match_step[OF m _ _ _ new sent_frame_recovers[OF sf b]] f(4) j len by simp
      then have m2: "frame_match c sss R' (put_block f b ?blk2)" using mf[OF _ sub] by (simp add: R'_def)
      moreover have "frame_asm_ok ?k (put_block f b ?blk2)"
        using put_block_ok[OF fok] aok try_recover_ok[OF shape aok] by simp
      ultimately show ?thesis using store False new frame_match_complete[OF sf m2]
        by (intro exI[of _ "put_block f b ?blk2"]) (simp add: Let_def)
    qed
  qed
qed

section \<open>The frame along a run\<close>

abbreviation no_frames :: "video_event list \<Rightarrow> bool" where
  "no_frames evs \<equiv> \<forall>au. Frame au \<notin> set evs"

lemma block_report_no_frames: "Frame au \<notin> set (block_report f lost b)"
  by (auto simp: block_report_def Let_def split: option.splits if_splits)

lemma retire_events:
  "\<exists>evs. dp_events (retire f d) = dp_events d @ evs \<and> no_frames evs"
  using block_report_no_frames by (auto simp: retire_def report_fec_def Let_def)

lemma retire_watermark:
  "watermark_below k d \<Longrightarrow> fa_frame_index f < k \<Longrightarrow> watermark_below k (retire f d)"
  by (auto simp: watermark_below_def retire_def report_fec_def Let_def split: option.splits)

lemma retire_keys_events:
  assumes "retire_keys ks d = Some d'"
  shows "\<exists>evs. dp_events d' = dp_events d @ evs \<and> no_frames evs"
  using assms
proof (induction ks arbitrary: d)
  case (Cons k ks)
  then obtain f where r: "retire_keys ks (retire f (d\<lparr>dp_frames := bt_remove k (dp_frames d)\<rparr>)) = Some d'"
    by (auto split: Option.bind_splits)
  obtain e1 where "dp_events (retire f (d\<lparr>dp_frames := bt_remove k (dp_frames d)\<rparr>)) = dp_events d @ e1" "no_frames e1"
    using retire_events[of f "d\<lparr>dp_frames := bt_remove k (dp_frames d)\<rparr>"] by auto
  then show ?case using Cons.IH[OF r] by auto
qed simp

lemma retire_keys_watermark:
  assumes "retire_keys ks d = Some d'" "dp_inv d" "watermark_below k d" "\<forall>k'\<in>set ks. k' < k"
  shows "watermark_below k d'"
  using assms
proof (induction ks arbitrary: d)
  case (Cons k' ks)
  then obtain f where f: "bt_get (dp_frames d) k' = Some f"
    and r: "retire_keys ks (retire f (d\<lparr>dp_frames := bt_remove k' (dp_frames d)\<rparr>)) = Some d'"
    by (auto split: Option.bind_splits)
  let ?d = "retire f (d\<lparr>dp_frames := bt_remove k' (dp_frames d)\<rparr>)"
  have "dp_inv ?d" using dp_inv_remove[OF Cons.prems(2)] by (rule dp_inv_frames[THEN iffD2, rotated]) simp
  moreover have "fa_frame_index f = k'" using dp_invD(3)[OF Cons.prems(2) f] by (simp add: frame_asm_ok_def)
  then have "watermark_below k ?d"
    using Cons.prems(3,4) by (intro retire_watermark) (auto simp: watermark_below_def)
  ultimately show ?case using Cons.IH[OF r] Cons.prems(4) by simp
qed simp

definition in_flight :: "pkt_ctx \<Rightarrow> bytes list list \<Rightarrow> au_frame \<Rightarrow> video_event list \<Rightarrow> (nat \<Rightarrow> nat set) \<Rightarrow> depacketizer \<Rightarrow> bool" where
  "in_flight c sss au ev0 R d \<longleftrightarrow> dp_inv d \<and> watermark_below (pk_frame c) d
     \<and> (\<exists>f evs. bt_get (dp_frames d) (pk_frame c) = Some f \<and> frame_match c sss R f
          \<and> fa_delivered f = enough c R \<and> no_frames evs
          \<and> dp_events d = ev0 @ evs @ (if enough c R then [Frame au] else []))"

lemma enough_mono:
  assumes "enough c R" "R b \<subseteq> S" "finite S"
  shows "enough c (R(b := S))"
  using assms card_mono[OF assms(3,2)] by (fastforce simp: enough_def)

lemma in_flight_step:
  assumes sf: "sent_frame rs c seq spi sss" and b: "b < pk_blocks c" and j: "j < length (sss ! b)"
    and fl: "in_flight c sss au ev0 R d" and shape: "rs_shape rs"
    and au: "\<forall>R f. frame_match c sss R f \<and> enough c R \<longrightarrow> assemble f = Some au"
  shows "\<exists>d'. dp_push rs (sss ! b ! j) now d = Some d' \<and> in_flight c sss au ev0 (R(b := insert j (R b))) d'"
proof -
  let ?k = "pk_frame c" and ?R = "R(b := insert j (R b))" and ?fin = "\<lambda>R. if enough c R then [Frame au] else []"
  obtain f evs where inv: "dp_inv d" and wm: "watermark_below ?k d"
    and f: "bt_get (dp_frames d) ?k = Some f" "frame_match c sss R f" "fa_delivered f = enough c R"
    and ev: "no_frames evs" "dp_events d = ev0 @ evs @ ?fin R"
    using fl by (auto simp: in_flight_def)
  obtain rtp nv where nv: "nv_names c b j nv"
    and push: "dp_push rs (sss ! b ! j) now d = dp_store rs (sss ! b ! j) (pk_spp c) rtp nv d"
  proof (rule push_carries[OF sf b j], goal_cases)
    case (1 rtp nv)
    then show ?case using that[of nv rtp] wm f(1) by (simp add: dp_open_def)
  qed
  obtain f' where f': "frame_match c sss ?R f'" "fa_delivered f' = fa_delivered f" "frame_asm_ok ?k f'"
    and st: "dp_push rs (sss ! b ! j) now d = (if enough c ?R \<and> \<not> enough c R
        then emit_completed ?k (put_frame f' ?k d) else Some (put_frame f' ?k d))"
    using store_match[OF sf b j nv f(1-3) dp_invD(3)[OF inv f(1)] shape, of rtp] push by auto
  have inv': "dp_inv d'" if "dp_push rs (sss ! b ! j) now d = Some d'" for d'
    using dp_push_ok[OF inv shape] that by (metis option.inject)
  have mono: "enough c R \<Longrightarrow> enough c ?R"
    using f(2) b by (intro enough_mono) (auto simp: frame_match_def intro: finite_subset)
  show ?thesis
  proof (cases "enough c ?R \<and> \<not> enough c R")
    case False
    then have s: "dp_push rs (sss ! b ! j) now d = Some (put_frame f' ?k d)" "enough c ?R = enough c R"
      using st mono by auto
    have "in_flight c sss au ev0 ?R (put_frame f' ?k d)"
      using inv'[OF s(1)] get_put_frame[OF inv] f' f(3) s(2) ev wm
      by (auto simp: in_flight_def watermark_below_def put_frame_def)
    then show ?thesis using s(1) by blast
  next
    case True
    let ?d0 = "put_frame f' ?k d" and ?f = "f'\<lparr>fa_delivered := True\<rparr>"
    have i0: "dp_inv ?d0"
      using inv f(1) f'(3) by (intro dp_inv_put) auto
    obtain d1 where d1: "retire_keys (filter (\<lambda>k'. k' < ?k) (map fst (dp_frames ?d0))) ?d0 = Some d1" "dp_inv d1"
        "emit_completed ?k ?d0 = Some (push_event (case assemble ?f of Some au \<Rightarrow> Frame au | None \<Rightarrow> Lost ?k)
           (put_frame ?f ?k d1))"
      using emit_completed_form[OF i0 get_put_frame[OF inv]] by metis
    have "frame_match c sss ?R ?f" using f'(1) by (simp add: frame_match_def)
    moreover from this have "assemble ?f = Some au" using au True by blast
    moreover obtain evs' where "no_frames evs'" "dp_events d1 = dp_events d @ evs'"
      using retire_keys_events[OF d1(1)] by (auto simp: put_frame_def)
    moreover have "watermark_below ?k d1"
      using retire_keys_watermark[OF d1(1) i0] wm by (auto simp: watermark_below_def put_frame_def)
    ultimately show ?thesis
      using inv' st d1 True ev get_put_frame[OF d1(2), of ?f ?k]
      by (auto simp: in_flight_def watermark_below_def put_frame_def intro!: exI[of _ "evs @ evs'"])
  qed
qed

definition has_room :: "u32 \<Rightarrow> depacketizer \<Rightarrow> bool" where
  "has_room k d \<longleftrightarrow> length (dp_frames d) < MAX_INFLIGHT_FRAMES \<or> fst (hd (dp_frames d)) < k"

definition shard_block :: "bytes \<Rightarrow> nat option" where
  "shard_block dg = map_option block_index (nv_read_from_shard dg)"

lemma frame_match_new:
  "frame_match c sss (\<lambda>_. {}) (frame_new (pk_frame c) (pk_blocks c) (pk_spp c) now)"
  if "pk_blocks c \<le> 4"
  using that by (auto simp: frame_match_def frame_new_def)

lemma open_in_flight:
  assumes ok: "ctx_ok c" and inv: "dp_inv d" and new: "bt_get (dp_frames d) (pk_frame c) = None"
    and wm: "watermark_below (pk_frame c) d" and room: "has_room (pk_frame c) d"
  shows "\<exists>d0. dp_open (pk_frame c) (pk_blocks c) (pk_spp c) now d = Some (True, d0)
    \<and> in_flight c sss au (dp_events d) (\<lambda>_. {}) d0"
proof -
  let ?k = "pk_frame c" and ?fn = "frame_new (pk_frame c) (pk_blocks c) (pk_spp c) now"
  have n: "1 \<le> pk_blocks c" "pk_blocks c \<le> 4" using blocks_bounds[OF ok] by auto
  have ne: "\<not> enough c (\<lambda>_. {})" using block_data_pos[OF ok, of 0] n by (auto simp: enough_def intro!: exI[of _ 0])
  have fl: "in_flight c sss au (dp_events d) (\<lambda>_. {}) (put_frame ?fn ?k d1)"
    if "dp_inv d1" "watermark_below ?k d1" "length (dp_frames d1) < 4" "dp_events d1 = dp_events d @ evs" "no_frames evs" for d1 evs
  proof -
    have "dp_inv (put_frame ?fn ?k d1)" using that n by (intro dp_inv_put frame_new_ok) auto
    moreover have "\<not> fa_delivered ?fn" by (simp add: frame_new_def)
    ultimately show ?thesis using that ne frame_match_new[OF n(2), of sss now] get_put_frame[OF that(1), of ?fn ?k]
      by (auto simp: in_flight_def watermark_below_def put_frame_def)
  qed
  show ?thesis
  proof (cases "length (dp_frames d) < 4")
    case True
    then show ?thesis using new fl[OF inv wm, of "[]"] by (auto simp: dp_open_def put_frame_def Let_def)
  next
    case False
    then obtain oldest f fs where fr: "dp_frames d = (oldest, f) # fs" by (cases "dp_frames d") auto
    then have f: "bt_get (dp_frames d) oldest = Some f" "oldest < ?k"
      using room False by (auto simp: bt_get_def has_room_def)
    let ?d = "d\<lparr>dp_frames := bt_remove oldest (dp_frames d)\<rparr>"
    obtain evs where evs: "dp_events (retire f ?d) = dp_events d @ evs" "no_frames evs"
      using retire_events[of f ?d] by auto
    have "dp_inv (retire f ?d)" using dp_inv_remove[OF inv] by (rule dp_inv_frames[THEN iffD2, rotated]) simp
    moreover have "length (dp_frames (retire f ?d)) < 4"
      using bt.count_remove[OF dp_invD(1)[OF inv], of oldest] f dp_invD(2)[OF inv] by simp
    moreover have "watermark_below ?k (retire f ?d)"
      using wm f dp_invD(3)[OF inv f(1)] by (intro retire_watermark) (auto simp: watermark_below_def frame_asm_ok_def)
    ultimately have "in_flight c sss au (dp_events d) (\<lambda>_. {}) (put_frame ?fn ?k (retire f ?d))"
      using fl evs by blast
    moreover have "dp_open ?k (pk_blocks c) (pk_spp c) now d = Some (True, put_frame ?fn ?k (retire f ?d))"
      using False new f fr by (simp add: dp_open_def put_frame_def Let_def)
    ultimately show ?thesis by blast
  qed
qed

lemma push_after_open:
  assumes sf: "sent_frame rs c seq spi sss" and b: "b < pk_blocks c" and j: "j < length (sss ! b)"
    and wm: "watermark_below (pk_frame c) d" and fl: "in_flight c sss au ev0 R d0"
    and op: "dp_open (pk_frame c) (pk_blocks c) (pk_spp c) now d = Some (True, d0)"
  shows "dp_push rs (sss ! b ! j) now d = dp_push rs (sss ! b ! j) now d0"
proof -
  have "watermark_below (pk_frame c) d0" "bt_get (dp_frames d0) (pk_frame c) \<noteq> None"
    using fl by (auto simp: in_flight_def)
  moreover from this(2) have "dp_open (pk_frame c) (pk_blocks c) (pk_spp c) now d0 = Some (True, d0)"
    by (simp add: dp_open_def)
  ultimately show ?thesis using wm op by - (rule push_carries[OF sf b j], simp)
qed

lemma run_in_flight:
  assumes sf: "sent_frame rs c seq spi sss" and shape: "rs_shape rs"
    and au: "\<forall>R f. frame_match c sss R f \<and> enough c R \<longrightarrow> assemble f = Some au"
    and fl: "in_flight c sss au ev0 R d" and sub: "set (map fst dgs) \<subseteq> set (concat sss)"
  shows "\<exists>d' R'. run_steps (dp_step rs) (map (\<lambda>(dg, t). Datagram dg t) dgs) d = Some d' \<and> in_flight c sss au ev0 R' d'
    \<and> (\<forall>b. R b \<subseteq> R' b)
    \<and> (\<forall>dg\<in>set (map fst dgs). \<exists>b j. b < pk_blocks c \<and> j < length (sss ! b) \<and> dg = sss ! b ! j \<and> j \<in> R' b)"
  using fl sub
proof (induction dgs arbitrary: d R)
  case (Cons x dgs)
  obtain dg t where x: "x = (dg, t)" by (cases x)
  have "length sss = pk_blocks c" using sf by (simp add: sent_frame_def frame_blocks_def)
  then obtain b j where bj: "b < pk_blocks c" "j < length (sss ! b)" "dg = sss ! b ! j"
    using Cons.prems(2) by (force simp: x in_set_conv_nth)
  obtain d1 where d1: "dp_push rs dg t d = Some d1" "in_flight c sss au ev0 (R(b := insert j (R b))) d1"
    using in_flight_step[OF sf bj(1,2) Cons.prems(1) shape au] bj(3) by blast
  obtain d' R' where d': "run_steps (dp_step rs) (map (\<lambda>(dg, t). Datagram dg t) dgs) d1 = Some d'"
    "in_flight c sss au ev0 R' d'" "\<forall>b'. (R(b := insert j (R b))) b' \<subseteq> R' b'"
    "\<forall>dg\<in>set (map fst dgs). \<exists>b j. b < pk_blocks c \<and> j < length (sss ! b) \<and> dg = sss ! b ! j \<and> j \<in> R' b"
    using Cons.IH[OF d1(2)] Cons.prems(2) by auto
  have "j \<in> R' b" "\<forall>b'. R b' \<subseteq> R' b'" using d'(3) by (auto split: if_splits)
  moreover have "dp_step rs (Datagram dg t) d = Some d1" using d1(1) by (simp add: dp_step_def)
  ultimately show ?case using d' bj by (intro exI[of _ d'] exI[of _ R']) (auto simp: x)
qed auto

lemma shard_block_eq:
  assumes "sent_frame rs c seq spi sss" "b < pk_blocks c" "j < length (sss ! b)"
  shows "shard_block (sss ! b ! j) = Some b"
  using push_carries[OF assms] unfolding shard_block_def nv_names_def by (metis option.simps(9))

lemma run_enough:
  assumes sf: "sent_frame rs c seq spi sss" and fm: "frame_match c sss R f"
    and all: "\<forall>dg\<in>S. \<exists>b j. b < pk_blocks c \<and> j < length (sss ! b) \<and> dg = sss ! b ! j \<and> j \<in> R b"
    and count: "\<forall>b<pk_blocks c. block_data c b \<le> card {dg \<in> S. shard_block dg = Some b}"
  shows "enough c R"
  unfolding enough_def
proof (intro allI impI)
  fix b assume b: "b < pk_blocks c"
  have "{dg \<in> S. shard_block dg = Some b} \<subseteq> (\<lambda>j. sss ! b ! j) ` R b"
    using all shard_block_eq[OF sf] by fastforce
  moreover have "finite (R b)" using fm b by (auto simp: frame_match_def intro: finite_subset)
  ultimately have "card {dg \<in> S. shard_block dg = Some b} \<le> card (R b)"
    by (meson card_image_le card_mono finite_imageI le_trans)
  then show "block_data c b \<le> card (R b)" using count b le_trans by blast
qed

section \<open>Properties\<close>

text \<open>
  Delivery. Whatever the packetizer sends for a nonempty frame that fits the code, let any of its
  datagrams be lost, repeated and reordered, at any times: if of each FEC block as many distinct
  datagrams arrive as it has data shards, the client hands out the frame exactly once, bit for bit the
  encoded frame behind its type byte, and no other frame.
\<close>

theorem frame_delivered:
  assumes pf: "packetize_frame rs enc key psize frame seq spi ts pct = Some (shards, seq', spi')"
    and c: "c = pkt_setup enc key psize frame ts pct" and size: "24 \<le> psize" "psize < 2 ^ 32"
    and enc: "enc \<noteq> []" and fits: "frame_fits c"
    and code: "\<forall>b<pk_blocks c. block_code_ok rs c b" and shape: "rs_shape rs"
    and inv: "dp_inv d" and new: "bt_get (dp_frames d) frame = None"
    and wm: "watermark_below frame d" and room: "has_room frame d"
    and sub: "set (map fst dgs) \<subseteq> set shards"
    and count: "\<forall>b<pk_blocks c. block_data c b \<le> card {dg \<in> set (map fst dgs). shard_block dg = Some b}"
  shows "\<exists>d' evs. run_steps (dp_step rs) (map (\<lambda>(dg, t). Datagram dg t) dgs) d = Some d' \<and> no_frames evs
    \<and> dp_events d' = dp_events d @ evs @ [Frame (frame_au key enc)]"
proof -
  have psize: "16 < psize" using size by simp
  then have ok: "ctx_ok c" using ctx_ok_setup c by simp
  have k: "pk_frame c = frame" by (simp add: c pkt_setup_def Let_def)
  obtain sss where shards: "shards = concat sss" and fb: "frame_blocks rs c seq spi sss"
    using packetize_frame_blocks[OF psize c code, of seq spi] pf by auto
  then have sf: "sent_frame rs c seq spi sss" using ok fits code by (simp add: sent_frame_def)
  have au: "\<forall>R f. frame_match c sss R f \<and> enough c R \<longrightarrow> assemble f = Some (frame_au key enc)"
    using assemble_sent[OF sf _ _ c enc size] by blast
  have n: "0 < pk_blocks c" using blocks_bounds[OF ok] by simp
  have "dgs \<noteq> []" using count n block_data_pos[OF ok n] by fastforce
  then obtain dg t dgs' where dgs: "dgs = (dg, t) # dgs'" by (cases dgs) auto
  have "length sss = pk_blocks c" using fb by (simp add: frame_blocks_def)
  then obtain b j where bj: "b < pk_blocks c" "j < length (sss ! b)" "dg = sss ! b ! j"
    using sub by (force simp: dgs shards in_set_conv_nth)
  obtain d0 where d0: "dp_open (pk_frame c) (pk_blocks c) (pk_spp c) t d = Some (True, d0)"
      "in_flight c sss (frame_au key enc) (dp_events d) (\<lambda>_. {}) d0"
    using open_in_flight[OF ok inv] new wm room k by blast
  have "dp_push rs dg t d = dp_push rs dg t d0"
    using push_after_open[OF sf bj(1,2) _ d0(2,1)] wm k bj(3) by simp
  then have "run_steps (dp_step rs) (map (\<lambda>(dg, t). Datagram dg t) dgs) d =
      run_steps (dp_step rs) (map (\<lambda>(dg, t). Datagram dg t) dgs) d0" by (simp add: dgs dp_step_def)
  moreover obtain d' R' where r: "run_steps (dp_step rs) (map (\<lambda>(dg, t). Datagram dg t) dgs) d0 = Some d'"
      "in_flight c sss (frame_au key enc) (dp_events d) R' d'"
      "\<forall>dg\<in>set (map fst dgs). \<exists>b j. b < pk_blocks c \<and> j < length (sss ! b) \<and> dg = sss ! b ! j \<and> j \<in> R' b"
    using run_in_flight[OF sf shape au d0(2)] sub shards by blast
  moreover have "enough c R'"
    using run_enough[OF sf _ r(3) count] r(2) by (auto simp: in_flight_def)
  ultimately show ?thesis using r(2) by (auto simp: in_flight_def)
qed


text \<open>Data shard 1 is lost, the parity shard comes first and shard 0 twice.\<close>

theorem frame_delivered_witness:
  "\<exists>d' evs. run_steps (dp_step rs_xor) (map (\<lambda>(dg, t). Datagram dg t)
      [(sample_packets ! 3, 0), (sample_packets ! 0, 10), (sample_packets ! 0, 20), (sample_packets ! 2, 30)]) dp_new = Some d'
    \<and> no_frames evs \<and> dp_events d' = dp_events dp_new @ evs @ [Frame (frame_au True sample_frame)]"
proof -
  let ?c = "pkt_setup sample_frame True 24 7 90000 20"
  let ?dgs = "[(sample_packets ! 3, 0), (sample_packets ! 0, 10), (sample_packets ! 0, 20), (sample_packets ! 2, 30)]"
  have "length sample_packets = 4" by (simp add: sample_packets_def)
  then have sub: "set (map fst ?dgs) \<subseteq> set (sample_packets)" by simp
  have c: "pk_blocks ?c = 1" "block_data ?c 0 = 3" "frame_fits ?c" "sample_frame \<noteq> []" by code_simp+
  have "distinct [sample_packets ! 3, sample_packets ! 0, sample_packets ! 2]"
    "list_all (\<lambda>dg. shard_block dg = Some 0) [sample_packets ! 3, sample_packets ! 0, sample_packets ! 2]"
    by code_simp+
  then have "{dg \<in> set (map fst ?dgs). shard_block dg = Some 0} = set [sample_packets ! 3, sample_packets ! 0, sample_packets ! 2]"
    "card (set [sample_packets ! 3, sample_packets ! 0, sample_packets ! 2]) = 3"
    by (auto simp: card_insert_if)
  then have "\<forall>b<pk_blocks ?c. block_data ?c b \<le> card {dg \<in> set (map fst ?dgs). shard_block dg = Some b}"
    using c by simp
  moreover have "bt_get (dp_frames dp_new) 7 = None" "watermark_below 7 dp_new" "has_room 7 dp_new"
    by (simp_all add: dp_new_def bt_get_def watermark_below_def has_room_def)
  ultimately show ?thesis
    using frame_delivered[OF sample_packets_sent refl _ _ c(4,3) sample_frame_code_ok[OF refl] rs_xor_shape dp_inv_new _ _ _ sub] by simp
qed

text \<open>
  A frame too large for the code is never delivered. When the last block, which takes the excess over
  the four-block limit, has more than 255 data shards, the client discards every one of its data
  datagrams, whatever its state.
\<close>

theorem oversize_block_dropped:
  assumes "ctx_ok c" "\<not> frame_fits c" "pk_total c < 3 * pk_ndpb c + 1024" "i < block_data c (pk_blocks c - 1)"
  shows "block_parity c (pk_blocks c - 1) = 0
    \<and> dp_push rs (data_datagram c (pk_blocks c - 1) seq i spi) now d = Some d"
proof -
  let ?b = "pk_blocks c - 1"
  let ?dg = "data_datagram c ?b seq i spi"
  have n: "160 \<le> pk_ndpb c" using ndpb_bounds[OF assms(1)] by simp
  then have "3 \<le> (pk_total c - 1) div pk_ndpb c" using assms(2)
    by (simp add: frame_fits_def less_eq_div_iff_mult_less_eq)
  then have b4: "pk_blocks c = 4" using assms(1) by (simp add: ctx_ok_def)
  then have bd: "255 < block_data c ?b" "block_data c ?b < 1024"
    using assms(2,3) by (auto simp: block_data_def block_end_def block_start_def frame_fits_def)
  have pct: "pk_pct c < 256" using assms(1) by (simp add: ctx_ok_def)
  obtain nv where nv: "nv_read_from_shard ?dg = Some nv"
      "nv_fec_info nv = pack_fec_info i (block_data c ?b) (pk_pct c)"
    using data_datagram_carries[of c ?b i seq spi] by (auto simp: carries_def)
  have "data_shards nv = block_data c ?b"
    using packed_fec_info(2)[OF nv(2)] assms(4) bd pct by simp
  then show ?thesis using nv(1) bd
    by (auto simp: dp_push_def block_parity_def parity_shard_count_def split: option.split)
qed

definition huge_ctx :: pkt_ctx where
  "huge_ctx = pkt_setup (replicate 8000 0) True 24 1 0 20"

theorem oversize_block_dropped_witness:
  "block_parity huge_ctx 3 = 0 \<and> dp_push rs_xor (data_datagram huge_ctx 3 0 300 0) 0 dp_new = Some dp_new"
proof -
  have "ctx_ok huge_ctx" unfolding huge_ctx_def by (rule ctx_ok_setup) simp
  moreover have "pk_blocks huge_ctx = 4" "\<not> frame_fits huge_ctx" "pk_total huge_ctx < 3 * pk_ndpb huge_ctx + 1024"
    "300 < block_data huge_ctx 3"
    by (simp_all add: huge_ctx_def pkt_setup_def Let_def div_ceil_def clamp_nat_def frame_fits_def block_data_def
        block_start_def block_end_def)
  ultimately show ?thesis using oversize_block_dropped[of huge_ctx 300 rs_xor 0 0 0 dp_new] by simp
qed

definition packets_5 :: "bytes list" where
  "packets_5 =
     [[144, 0, 0, 0, 0, 0, 0, 0, 0, 0, 0, 0, 0, 0, 0, 0, 0, 0, 0, 0, 5, 0, 0, 0, 7, 0, 16, 0, 64, 1, 64, 0, 1, 0, 0, 1, 9, 0, 0, 0, 55, 0, 0, 0, 0, 0, 0, 0],
      [144, 0, 0, 1, 0, 0, 0, 0, 0, 0, 0, 0, 0, 0, 0, 0, 0, 0, 0, 0, 5, 0, 0, 0, 7, 0, 16, 0, 64, 17, 64, 0, 1, 0, 0, 1, 9, 0, 0, 0, 55, 0, 0, 0, 0, 0, 0, 0]]"

definition packets_4 :: "bytes list" where
  "packets_4 =
     [[144, 0, 0, 100, 0, 0, 0, 0, 0, 0, 0, 0, 0, 0, 0, 0, 0, 9, 0, 0, 4, 0, 0, 0, 7, 0, 16, 0, 64, 1, 64, 0, 1, 0, 0, 1, 9, 0, 0, 0, 44, 0, 0, 0, 0, 0, 0, 0],
      [144, 0, 0, 101, 0, 0, 0, 0, 0, 0, 0, 0, 0, 0, 0, 0, 0, 9, 0, 0, 4, 0, 0, 0, 7, 0, 16, 0, 64, 17, 64, 0, 1, 0, 0, 1, 9, 0, 0, 0, 44, 0, 0, 0, 0, 0, 0, 0]]"

lemma packets_5_sent: "packetize_frame rs_xor [55] False 32 5 0 0 0 20 = Some (packets_5, 2, 1)"
  by code_simp

lemma packets_4_sent: "packetize_frame rs_xor [44] False 32 4 100 9 0 20 = Some (packets_4, 102, 10)"
  by code_simp

text \<open>
  Frames are not always handed out in ascending order of their index. If frame 5 completes before the
  first datagram of frame 4 arrives, nothing raises the watermark, and frame 4 is handed out after it.
\<close>

theorem frames_out_of_order:
  "packetize_frame rs_xor [44] False 32 4 100 9 0 20 = Some (packets_4, 102, 10)
   \<and> packetize_frame rs_xor [55] False 32 5 0 0 0 20 = Some (packets_5, 2, 1)
   \<and> (\<exists>d. run_steps (dp_step rs_xor) [Datagram (packets_5 ! 0) 0, Datagram (packets_4 ! 0) 1] dp_new = Some d
        \<and> dp_events d = [Frame (frame_au False [55]), Frame (frame_au False [44])])"
proof -
  define r where "r = run_steps (dp_step rs_xor) [Datagram (packets_5 ! 0) 0, Datagram (packets_4 ! 0) 1] dp_new"
  have "map_option dp_events r = Some [Frame (frame_au False [55]), Frame (frame_au False [44])]"
    unfolding r_def by code_simp
  then show ?thesis unfolding r_def[symmetric] using packets_4_sent packets_5_sent by (cases r) auto
qed

end
