(* ===== verification/Kmc_Bitrate.thy ===== *)
theory Kmc_Bitrate
  imports Kmc_Prelude Kmc_Float
begin

text \<open>
  \<^verbatim>\<open>kmc-streamhost/src/bitrate.rs\<close>: the controller that adapts the encoder's target bit rate and the
  share of parity shards to loss reports and round-trip times. A \<^verbatim>\<open>u32\<close> is the integer it denotes, so
  that bit rates compute; casts from floats saturate, and the two sums that could leave the range wrap.
  Each operation takes the instant at which \<^verbatim>\<open>Instant::now()\<close> is read and is one atomic step: the
  control channel and the encoder loop call them one after the other under the \<^verbatim>\<open>timing\<close> lock.
  The precision of \<^verbatim>\<open>f64::powf\<close> is not specified, so the decay factor \<^verbatim>\<open>0.5.powf\<close> is the parameter \<open>hp\<close>.
\<close>

section \<open>Constants\<close>

definition DECREASE_FACTOR :: rat where "DECREASE_FACTOR = f64 (6 / 10)"
definition DECREASE_THROTTLE_MS :: int where "DECREASE_THROTTLE_MS = 400"
definition RECOVER_DELAY_MS :: int where "RECOVER_DELAY_MS = 5000"
definition RECOVER_INTERVAL_MS :: int where "RECOVER_INTERVAL_MS = 2000"
definition RECOVER_STEP_FRAC :: rat where "RECOVER_STEP_FRAC = f64 (3 / 100)"
definition RECOVER_LOSS_GATE :: rat where "RECOVER_LOSS_GATE = f64 (2 / 100)"
definition REPROBE_AFTER_MS :: int where "REPROBE_AFTER_MS = 30000"
definition FEC_MIN_PCT :: int where "FEC_MIN_PCT = 15"
definition FEC_MAX_PCT :: int where "FEC_MAX_PCT = 25"
definition LOSS_EWMA_ALPHA :: rat where "LOSS_EWMA_ALPHA = f64 (3 / 10)"
definition FEC_SATURATION_LOSS :: rat where "FEC_SATURATION_LOSS = f64 (10 / 100)"
definition LOSS_DECAY_GRACE_MS :: int where "LOSS_DECAY_GRACE_MS = 500"
definition LOSS_HALF_LIFE_MS :: rat where "LOSS_HALF_LIFE_MS = 2000"
definition RTT_INFLATION_MS :: int where "RTT_INFLATION_MS = 30"
definition RTT_TRIGGER_SAMPLES :: int where "RTT_TRIGGER_SAMPLES = 3"
definition RTT_DECREASE_FACTOR :: rat where "RTT_DECREASE_FACTOR = f64 (85 / 100)"
definition RTT_DECREASE_THROTTLE_MS :: int where "RTT_DECREASE_THROTTLE_MS = 1000"
definition MIN_RTT_WINDOW_MS :: int where "MIN_RTT_WINDOW_MS = 30000"
definition RTT_STALE_MS :: int where "RTT_STALE_MS = 3000"

definition U32_MAX :: int where "U32_MAX = 2 ^ 32 - 1"

section \<open>State\<close>

record timing =
  last_loss :: "instant option"
  last_decrease :: instant
  last_recover :: instant
  min_rtt_ms :: int
  win_min_rtt_ms :: int
  min_rtt_epoch :: instant
  last_rtt :: "(int \<times> instant) option"
  rtt_streak :: int
  last_rtt_decrease :: instant

record bitrate_controller =
  bc_target :: int
  bc_min :: int
  bc_max :: int
  bc_timing :: timing
  bc_loss_ewma_ppm :: int
  bc_learned_ceiling :: int
  bc_probe_cap :: int

text \<open>\<^verbatim>\<open>now.duration_since(t).as_millis()\<close>; the difference saturates at zero.\<close>

definition millis_since :: "instant \<Rightarrow> instant \<Rightarrow> int" where
  "millis_since now t = max 0 (now - t) div 1000000"

text \<open>Instants count from the start of the clock, so going back an hour may fail.\<close>

definition stale_instant :: "instant \<Rightarrow> instant" where
  "stale_instant now = (if now < 3600 * 1000000000 then now else now - 3600 * 1000000000)"

definition rtt_trigger_ms :: "int \<Rightarrow> int" where
  "rtt_trigger_ms m = max RTT_INFLATION_MS (m div 2)"

definition decayed_loss :: "(rat \<Rightarrow> rat) \<Rightarrow> rat \<Rightarrow> int option \<Rightarrow> rat" where
  "decayed_loss hp raw since_loss_ms =
     (case since_loss_ms of
        None \<Rightarrow> 0
      | Some since \<Rightarrow>
          if raw \<le> 0 then 0
          else if since < LOSS_DECAY_GRACE_MS then raw
          else f64 (raw * hp (f64 (f64 (of_int (since - LOSS_DECAY_GRACE_MS)) / LOSS_HALF_LIFE_MS))))"

definition current_ewma :: "(rat \<Rightarrow> rat) \<Rightarrow> instant \<Rightarrow> bitrate_controller \<Rightarrow> rat" where
  "current_ewma hp now b =
     decayed_loss hp (f64 (of_int (bc_loss_ewma_ppm b) / 1000000))
       (map_option (millis_since now) (last_loss (bc_timing b)))"

section \<open>Operations\<close>

definition bc_default :: "instant \<Rightarrow> bitrate_controller" where
  "bc_default now =
     \<lparr>bc_target = 0, bc_min = 0, bc_max = 0,
      bc_timing = \<lparr>last_loss = None, last_decrease = now, last_recover = now, min_rtt_ms = U32_MAX,
                   win_min_rtt_ms = U32_MAX, min_rtt_epoch = now, last_rtt = None, rtt_streak = 0,
                   last_rtt_decrease = now\<rparr>,
      bc_loss_ewma_ppm = 0, bc_learned_ceiling = 0, bc_probe_cap = 0\<rparr>"

definition configure :: "instant \<Rightarrow> int \<Rightarrow> bitrate_controller \<Rightarrow> bitrate_controller" where
  "configure now ceiling_bps b =
     (let ceiling = max ceiling_bps 1000000;
          floor' = min 1000000 ceiling;
          start = min (max (min 3000000 (ceiling div 4)) floor') ceiling
      in b\<lparr>bc_max := ceiling, bc_min := floor', bc_target := start,
           bc_timing := (bc_timing b)
             \<lparr>last_loss := None, last_decrease := stale_instant now, last_recover := now,
              min_rtt_ms := U32_MAX, win_min_rtt_ms := U32_MAX, min_rtt_epoch := now,
              last_rtt := None, rtt_streak := 0, last_rtt_decrease := stale_instant now\<rparr>,
           bc_loss_ewma_ppm := 0, bc_learned_ceiling := ceiling, bc_probe_cap := ceiling\<rparr>)"

definition scale :: "int \<Rightarrow> rat \<Rightarrow> int" where
  "scale n r = f64_as_u32 (f64 (of_int n * r))"

definition loss_factor :: "rat \<Rightarrow> rat" where
  "loss_factor lf = (if lf \<ge> f32 (3 / 10) then 1 / 2 else if lf \<le> f32 (5 / 100) then 3 / 4 else DECREASE_FACTOR)"

text \<open>The learned ceiling and the probe cap after a loss of at least a tenth at the bit rate \<open>cur\<close>.\<close>

definition learn :: "rat \<Rightarrow> int \<Rightarrow> bitrate_controller \<Rightarrow> bitrate_controller" where
  "learn lf cur b =
     (if lf \<ge> f32 (10 / 100) then
        let new_lc = min (max (scale cur (f64 (70 / 100))) (bc_min b)) (bc_learned_ceiling b);
            new_pc = min (max (scale cur (f64 (12 / 10))) new_lc) (bc_probe_cap b)
        in b\<lparr>bc_learned_ceiling := new_lc, bc_probe_cap := new_pc\<rparr>
      else b)"

definition on_loss :: "(rat \<Rightarrow> rat) \<Rightarrow> instant \<Rightarrow> rat \<Rightarrow> bitrate_controller \<Rightarrow> bitrate_controller" where
  "on_loss hp now loss_fraction b =
     (if bc_max b = 0 then b
      else
        let lf = max 0 (min 1 loss_fraction);
            prev = current_ewma hp now b;
            ewma = f64 (f64 (LOSS_EWMA_ALPHA * lf) + f64 (f64 (1 - LOSS_EWMA_ALPHA) * prev));
            b1 = b\<lparr>bc_loss_ewma_ppm := f64_as_u32 (f64 (ewma * 1000000)),
                   bc_timing := (bc_timing b)\<lparr>last_loss := Some now\<rparr>\<rparr>
        in if millis_since now (last_decrease (bc_timing b)) < DECREASE_THROTTLE_MS then b1
        else
          let cur = bc_target b;
              next' = max (scale cur (loss_factor loss_fraction)) (bc_min b);
              b2 = b1\<lparr>bc_target := next', bc_timing := (bc_timing b1)\<lparr>last_decrease := now\<rparr>\<rparr>
          in learn loss_fraction cur b2)"

text \<open>The bookkeeping of \<^verbatim>\<open>on_rtt\<close>: the minimum is relearned every window.\<close>

definition note_rtt :: "instant \<Rightarrow> int \<Rightarrow> timing \<Rightarrow> timing" where
  "note_rtt now rtt t =
     (let t1 = (if millis_since now (min_rtt_epoch t) \<ge> MIN_RTT_WINDOW_MS
                then t\<lparr>min_rtt_ms := win_min_rtt_ms t, win_min_rtt_ms := U32_MAX, min_rtt_epoch := now\<rparr>
                else t)
      in t1\<lparr>min_rtt_ms := min (min_rtt_ms t1) rtt, win_min_rtt_ms := min (win_min_rtt_ms t1) rtt,
            last_rtt := Some (rtt, now)\<rparr>)"

definition on_rtt :: "instant \<Rightarrow> int \<Rightarrow> bitrate_controller \<Rightarrow> bitrate_controller" where
  "on_rtt now rtt b =
     (if bc_max b = 0 then b
      else
        let t = note_rtt now rtt (bc_timing b)
        in if max 0 (rtt - min_rtt_ms t) < rtt_trigger_ms (min_rtt_ms t) then b\<lparr>bc_timing := t\<lparr>rtt_streak := 0\<rparr>\<rparr>
        else
          let t1 = t\<lparr>rtt_streak := (rtt_streak t + 1) mod 2 ^ 32\<rparr>
          in if rtt_streak t1 < RTT_TRIGGER_SAMPLES then b\<lparr>bc_timing := t1\<rparr>
          else if millis_since now (last_rtt_decrease t1) < RTT_DECREASE_THROTTLE_MS then b\<lparr>bc_timing := t1\<rparr>
          else b\<lparr>bc_target := max (scale (bc_target b) RTT_DECREASE_FACTOR) (bc_min b),
                 bc_timing := t1\<lparr>last_rtt_decrease := now, rtt_streak := 0\<rparr>\<rparr>)"

definition rtt_inflated :: "instant \<Rightarrow> timing \<Rightarrow> bool" where
  "rtt_inflated now t =
     (case last_rtt t of
        None \<Rightarrow> False
      | Some (rtt, seen) \<Rightarrow> millis_since now seen < RTT_STALE_MS \<and> min_rtt_ms t \<noteq> U32_MAX
          \<and> max 0 (rtt - min_rtt_ms t) \<ge> rtt_trigger_ms (min_rtt_ms t))"

definition since_loss_less :: "instant \<Rightarrow> timing \<Rightarrow> int \<Rightarrow> bool" where
  "since_loss_less now t ms = (case last_loss t of None \<Rightarrow> False | Some l \<Rightarrow> millis_since now l < ms)"

definition reprobe :: "instant \<Rightarrow> bitrate_controller \<Rightarrow> bitrate_controller" where
  "reprobe now b =
     (if bc_learned_ceiling b < bc_probe_cap b \<and> \<not> since_loss_less now (bc_timing b) REPROBE_AFTER_MS
      then b\<lparr>bc_learned_ceiling := min (scale (bc_learned_ceiling b) (f64 (102 / 100))) (bc_probe_cap b)\<rparr>
      else b)"

definition recover_step :: "bitrate_controller \<Rightarrow> int" where
  "recover_step b =
     max (max (scale (bc_max b) RECOVER_STEP_FRAC) (scale (bc_target b) (f64 (10 / 100)))) 250000"

definition poll_target :: "(rat \<Rightarrow> rat) \<Rightarrow> instant \<Rightarrow> bitrate_controller \<Rightarrow> int \<times> bitrate_controller" where
  "poll_target hp now b =
     (if bc_max b = 0 then (0, b)
      else if since_loss_less now (bc_timing b) RECOVER_DELAY_MS then (bc_target b, b)
      else if current_ewma hp now b \<ge> RECOVER_LOSS_GATE then (bc_target b, b)
      else if rtt_inflated now (bc_timing b) then (bc_target b, b)
      else if millis_since now (last_recover (bc_timing b)) < RECOVER_INTERVAL_MS then (bc_target b, b)
      else
        let b1 = reprobe now b; cap = min (bc_learned_ceiling b1) (bc_max b1)
        in if bc_target b1 \<ge> cap then (bc_target b1, b1)
           else
             let next' = min (min (bc_target b1 + recover_step b1) U32_MAX) cap
             in (next', b1\<lparr>bc_target := next', bc_timing := (bc_timing b1)\<lparr>last_recover := now\<rparr>\<rparr>))"

definition poll_fec_percentage :: "(rat \<Rightarrow> rat) \<Rightarrow> instant \<Rightarrow> bitrate_controller \<Rightarrow> int" where
  "poll_fec_percentage hp now b =
     (if bc_min b = 0 \<or> bc_target b \<le> bc_min b * 3 mod 2 ^ 32 div 2 then FEC_MIN_PCT
      else
        let frac = max 0 (min 1 (f64 (current_ewma hp now b / FEC_SATURATION_LOSS)))
        in FEC_MIN_PCT + f64_as_u32 (f64 (of_int (FEC_MAX_PCT - FEC_MIN_PCT) * frac)))"

section \<open>Runs\<close>

datatype bc_event = Configure instant u32 | Loss instant rat | Rtt instant u32 | Poll instant

definition bc_step :: "(rat \<Rightarrow> rat) \<Rightarrow> bc_event \<Rightarrow> bitrate_controller \<Rightarrow> bitrate_controller" where
  "bc_step hp e b =
     (case e of Configure now c \<Rightarrow> configure now (uint c) b | Loss now lf \<Rightarrow> on_loss hp now lf b
      | Rtt now rtt \<Rightarrow> on_rtt now (uint rtt) b | Poll now \<Rightarrow> snd (poll_target hp now b))"

section \<open>Scaling a bit rate\<close>

lemma of_int_less_pow: "n < 2 ^ 32 \<Longrightarrow> (of_int n :: rat) < 2 ^ 32"
  using of_int_less_iff[of n "2 ^ 32", where ?'a = rat] by simp

lemma scale_nonneg: "0 \<le> scale n r" and scale_less: "scale n r < 2 ^ 32"
  using f64_as_u32_bound by (auto simp: scale_def)

lemma scale_le:
  assumes "0 \<le> n" "n < 2 ^ 32" "0 \<le> r" "of_int n * r \<le> of_int m" "0 \<le> m" "m < 2 ^ 53"
  shows "scale n r \<le> m"
proof -
  have "f64 (of_int n * r) \<le> of_int m" unfolding f64_def using assms by (intro fl_le_int) auto
  then show ?thesis unfolding scale_def using assms(5) by (intro f64_as_u32_le) auto
qed

lemma scale_shrinks: "0 \<le> n \<Longrightarrow> n < 2 ^ 32 \<Longrightarrow> 0 \<le> r \<Longrightarrow> r \<le> 1 \<Longrightarrow> scale n r \<le> n"
  using scale_le[of n r n] mult_left_mono[of r 1 "of_int n :: rat"] by simp

lemma scale_grows:
  assumes "0 \<le> n" "n < 2 ^ 32" "1 \<le> r" "r \<le> 2"
  shows "n \<le> scale n r"
proof -
  have "of_int n * r \<le> of_int n * 2" using assms by (intro mult_left_mono) auto
  then have "of_int n * r < 2 ^ 53" using of_int_less_pow[OF assms(2)] by simp
  moreover have "of_int n \<le> of_int n * r" using assms mult_left_mono[of 1 r "of_int n :: rat"] by simp
  ultimately have "of_int n \<le> f64 (of_int n * r)" unfolding f64_def using assms by (intro fl_ge_int) auto
  then show ?thesis unfolding scale_def using assms by (intro f64_as_u32_ge) auto
qed

lemma f64_unit: "0 \<le> q \<Longrightarrow> q \<le> 1 \<Longrightarrow> 0 \<le> f64 q \<and> f64 q \<le> 1"
  unfolding f64_def by (rule fl_unit) auto

lemma f64_one_two: "1 \<le> q \<Longrightarrow> q \<le> 2 \<Longrightarrow> 1 \<le> f64 q \<and> f64 q \<le> 2"
  unfolding f64_def using fl_ge_int[of q 1 53] fl_le_int[of q 2 53] by simp

lemma loss_factor_bounds: "0 \<le> loss_factor lf" "loss_factor lf \<le> 3 / 4"
proof -
  have "0 \<le> f64 (6 / 10)" "f64 (6 / 10) \<le> 3 / 4" by code_simp+
  then show "0 \<le> loss_factor lf" "loss_factor lf \<le> 3 / 4" by (auto simp: loss_factor_def DECREASE_FACTOR_def)
qed

lemma RTT_factor_bounds: "0 \<le> RTT_DECREASE_FACTOR" "RTT_DECREASE_FACTOR \<le> 1"
  using f64_unit[of "85 / 100"] by (auto simp: RTT_DECREASE_FACTOR_def)

section \<open>The invariant\<close>

definition bc_inv :: "bitrate_controller \<Rightarrow> bool" where
  "bc_inv b \<longleftrightarrow>
     (bc_max b = 0 \<and> bc_min b = 0 \<and> bc_target b = 0 \<and> bc_learned_ceiling b = 0 \<and> bc_probe_cap b = 0)
     \<or> (bc_min b = 1000000 \<and> bc_min b \<le> bc_target b \<and> bc_target b \<le> bc_max b \<and> bc_max b < 2 ^ 32
        \<and> bc_min b \<le> bc_learned_ceiling b \<and> bc_learned_ceiling b \<le> bc_probe_cap b \<and> bc_probe_cap b \<le> bc_max b)"

lemma bc_inv_configure: "0 \<le> c \<Longrightarrow> c < 2 ^ 32 \<Longrightarrow> bc_inv (configure now c b)"
  by (auto simp: bc_inv_def configure_def Let_def min_def max_def)

lemma bc_inv_timing [simp]: "bc_inv (b\<lparr>bc_timing := t\<rparr>) = bc_inv b"
  by (simp add: bc_inv_def)

lemma bc_inv_lower:
  assumes "bc_inv b" "bc_max b \<noteq> 0" "0 \<le> r" "r \<le> 1"
  shows "bc_inv (b\<lparr>bc_target := max (scale (bc_target b) r) (bc_min b)\<rparr>)"
  using assms scale_shrinks[of "bc_target b" r] by (auto simp: bc_inv_def)

lemma bc_inv_learn:
  assumes "bc_inv b" "bc_max b \<noteq> 0"
  shows "bc_inv (learn lf cur b)"
  using assms by (auto simp: bc_inv_def learn_def Let_def)

lemma bc_inv_on_loss: "bc_inv b \<Longrightarrow> bc_inv (on_loss hp now lf b)"
proof -
  assume b: "bc_inv b"
  let ?b1 = "\<lambda>e. b\<lparr>bc_loss_ewma_ppm := e, bc_timing := (bc_timing b)\<lparr>last_loss := Some now\<rparr>\<rparr>"
  show ?thesis
  proof (cases "bc_max b = 0")
    case False
    have b1: "bc_inv (?b1 e)" for e using b by (simp add: bc_inv_def)
    have "bc_inv (learn lf cur ((?b1 e)\<lparr>bc_target := max (scale (bc_target b) (loss_factor lf)) (bc_min b),
        bc_timing := t\<rparr>))" for e t cur
      using bc_inv_lower[OF b1, of e "loss_factor lf"] loss_factor_bounds[of lf] False
      by (intro bc_inv_learn) (auto simp: bc_inv_def)
    then show ?thesis using b1 False by (simp add: on_loss_def Let_def)
  qed (simp add: on_loss_def b)
qed

lemma bc_inv_on_rtt: "bc_inv b \<Longrightarrow> bc_inv (on_rtt now rtt b)"
  using bc_inv_lower[of b RTT_DECREASE_FACTOR] RTT_factor_bounds
  by (auto simp: on_rtt_def Let_def bc_inv_def)

lemma reprobe_fields [simp]:
  "bc_target (reprobe now b) = bc_target b" "bc_max (reprobe now b) = bc_max b" "bc_min (reprobe now b) = bc_min b"
  "bc_timing (reprobe now b) = bc_timing b" "bc_probe_cap (reprobe now b) = bc_probe_cap b"
  by (auto simp: reprobe_def)

lemma bc_inv_reprobe: "bc_inv b \<Longrightarrow> bc_inv (reprobe now b)"
  using scale_grows[of "bc_learned_ceiling b" "f64 (102 / 100)"] f64_one_two[of "102 / 100"]
  by (auto simp: reprobe_def bc_inv_def)

lemma recover_step_pos: "250000 \<le> recover_step b"
  by (simp add: recover_step_def)

lemma bc_inv_poll_target: "bc_inv b \<Longrightarrow> bc_inv (snd (poll_target hp now b))"
  using bc_inv_reprobe[of b now] recover_step_pos[of "reprobe now b"]
  by (auto simp: poll_target_def Let_def bc_inv_def U32_MAX_def)

lemma bc_step_inv: "bc_inv b \<Longrightarrow> bc_inv (bc_step hp e b)"
  by (cases e) (auto simp: bc_step_def bc_inv_on_loss bc_inv_on_rtt bc_inv_poll_target
      intro!: bc_inv_configure simp: uint_lt2p[where ?'a = 32, simplified])

interpretation bc: step_invariant "\<lambda>e b. Some (bc_step hp e b)" bc_inv for hp
  by unfold_locales (simp add: bc_step_inv)

section \<open>Properties\<close>


text \<open>
  Loss lowers the bit rate. A loss report outside the throttle window cuts a target above the floor by
  at least a quarter (but not below the floor); inside the window the target stays. A heavy loss (a
  tenth or more) also pins the learned ceiling to at most 70 percent of the failing rate, or the
  floor, so that recovery stops below it.
\<close>

theorem loss_lowers_target:
  assumes "bc_inv b" "bc_max b \<noteq> 0" "\<not> millis_since now (last_decrease (bc_timing b)) < DECREASE_THROTTLE_MS"
    and "bc_min b < bc_target b"
  shows "bc_target (on_loss hp now lf b) < bc_target b
    \<and> bc_target (on_loss hp now lf b) \<le> max (bc_target b * 3 div 4 + 1) (bc_min b)
    \<and> (f32 (10 / 100) \<le> lf \<longrightarrow>
         bc_learned_ceiling (on_loss hp now lf b) \<le> max (bc_target b * 7 div 10 + 1) (bc_min b))"
proof -
  let ?n = "bc_target b" and ?b = "on_loss hp now lf b"
  have n: "1000000 \<le> ?n" "?n < 2 ^ 32" using assms(1,2) by (auto simp: bc_inv_def)
  have sc: "scale ?n r \<le> ?n * p div q + 1" if "0 \<le> r" "r \<le> of_int p / of_int q" "0 < p" "0 < q" "p \<le> q" for r p q
  proof (rule scale_le)
    have "of_int ?n * r \<le> of_int ?n * (of_int p / of_int q)" using that n by (intro mult_left_mono) auto
    also have "\<dots> = of_int (?n * p) / of_int q" by simp
    also have "\<dots> \<le> of_int (?n * p div q + 1)"
      using floor_divide_of_int_eq[of "?n * p" q, where ?'a = rat] by linarith
    finally show "of_int ?n * r \<le> of_int (?n * p div q + 1)" .
    have "?n * p \<le> ?n * q" using that n by (intro mult_left_mono) auto
    then have "?n * p div q \<le> ?n" using that zdiv_mono1[of "?n * p" "?n * q" q] by simp
    then show "?n * p div q + 1 < 2 ^ 53" using n by simp
    show "0 \<le> ?n * p div q + 1" using that n by (simp add: pos_imp_zdiv_nonneg_iff add_nonneg_nonneg)
  qed (use that n in auto)
  have "f64 (70 / 100) \<le> 7 / 10" "0 \<le> f64 (70 / 100)" by code_simp+
  then have lc: "scale ?n (f64 (70 / 100)) \<le> ?n * 7 div 10 + 1" using sc[of "f64 (70 / 100)" 7 10] by simp
  have "bc_target ?b = max (scale ?n (loss_factor lf)) (bc_min b)"
    using assms(2,3) by (simp add: on_loss_def Let_def learn_def)
  moreover have "scale ?n (loss_factor lf) \<le> ?n * 3 div 4 + 1" using sc[of "loss_factor lf" 3 4] loss_factor_bounds by simp
  moreover have "bc_learned_ceiling ?b \<le> max (?n * 7 div 10 + 1) (bc_min b)" if "f32 (10 / 100) \<le> lf"
    using that assms(2,3) lc by (auto simp: on_loss_def Let_def learn_def)
  ultimately show ?thesis using n assms(4) by auto
qed

text \<open>A controller negotiated at 20 Mbit/s, an hour and more after the start of the clock.\<close>

definition sample_bc :: bitrate_controller where
  "sample_bc = configure 4000000000000 20000000 (bc_default 0)"

lemma sample_bc_fields:
  "bc_inv sample_bc" "bc_max sample_bc = 20000000" "bc_min sample_bc = 1000000" "bc_target sample_bc = 3000000"
  "last_decrease (bc_timing sample_bc) = 400000000000" "last_loss (bc_timing sample_bc) = None"
  by (auto simp: sample_bc_def configure_def Let_def stale_instant_def bc_default_def bc_inv_def)

theorem loss_lowers_target_witness:
  "bc_target (on_loss (\<lambda>x. 1) 4000000000001 (f32 (4 / 10)) sample_bc) \<le> 2250001
   \<and> bc_learned_ceiling (on_loss (\<lambda>x. 1) 4000000000001 (f32 (4 / 10)) sample_bc) \<le> 2100001"
proof -
  have "f32 (10 / 100) \<le> f32 (4 / 10)" by code_simp
  then show ?thesis
    using loss_lowers_target[of sample_bc 4000000000001 "\<lambda>x. 1" "f32 (4 / 10)"] sample_bc_fields
    by (simp add: millis_since_def DECREASE_THROTTLE_MS_def)
qed

text \<open>
  No recovery on a bad line, and none past what was learned. A poll leaves the target alone within five
  seconds of a loss, while the decayed loss is above two percent, and while the round trip is inflated;
  when it raises the target, the result is at most the learned ceiling, the probe cap and the
  negotiated ceiling.
\<close>

theorem recovery_guarded:
  assumes "bc_inv b" "bc_max b \<noteq> 0"
  shows "(since_loss_less now (bc_timing b) RECOVER_DELAY_MS \<or> RECOVER_LOSS_GATE \<le> current_ewma hp now b
        \<or> rtt_inflated now (bc_timing b) \<longrightarrow> poll_target hp now b = (bc_target b, b))
    \<and> bc_target b \<le> fst (poll_target hp now b)
    \<and> fst (poll_target hp now b) = bc_target (snd (poll_target hp now b))
    \<and> (bc_target b < fst (poll_target hp now b) \<longrightarrow>
         fst (poll_target hp now b) \<le> bc_learned_ceiling (snd (poll_target hp now b))
         \<and> bc_learned_ceiling (snd (poll_target hp now b)) \<le> bc_probe_cap b)"
proof -
  let ?r = "reprobe now b"
  have "bc_inv ?r" using bc_inv_reprobe[OF assms(1)] .
  moreover have "bc_target b \<le> min (min (bc_target b + recover_step ?r) U32_MAX) (min (bc_learned_ceiling ?r) (bc_max b))"
    if "\<not> min (bc_learned_ceiling ?r) (bc_max b) \<le> bc_target b"
    using that recover_step_pos[of ?r] assms by (auto simp: bc_inv_def U32_MAX_def)
  ultimately show ?thesis using assms(2) by (auto simp: poll_target_def Let_def bc_inv_def)
qed

theorem recovery_guarded_witness:
  "bc_inv sample_bc \<and> 3000000 \<le> fst (poll_target (\<lambda>x. 1) 4003000000000 sample_bc)
   \<and> poll_target (\<lambda>x. 1) 4000100000000 (on_loss (\<lambda>x. 1) 4000000000001 (1 / 2) sample_bc)
      = (bc_target (on_loss (\<lambda>x. 1) 4000000000001 (1 / 2) sample_bc), on_loss (\<lambda>x. 1) 4000000000001 (1 / 2) sample_bc)"
proof -
  let ?l = "on_loss (\<lambda>x. 1) 4000000000001 (1 / 2) sample_bc"
  have l: "bc_max ?l \<noteq> 0" "last_loss (bc_timing ?l) = Some 4000000000001"
    using sample_bc_fields by (auto simp: on_loss_def Let_def learn_def)
  then have "since_loss_less 4000100000000 (bc_timing ?l) RECOVER_DELAY_MS"
    by (simp add: since_loss_less_def millis_since_def RECOVER_DELAY_MS_def)
  then show ?thesis
    using recovery_guarded[OF bc_inv_on_loss[OF sample_bc_fields(1)] l(1), of 4000100000000 "\<lambda>x. 1"]
      recovery_guarded[of sample_bc 4003000000000 "\<lambda>x. 1"] sample_bc_fields by simp
qed

text \<open>
  The parity share stays between 15 and 25 percent, and is 15 percent when the target is within one and a half
  times the floor: congestion is answered by the bit rate alone.
\<close>

theorem fec_percentage_bounds:
  "FEC_MIN_PCT \<le> poll_fec_percentage hp now b \<and> poll_fec_percentage hp now b \<le> FEC_MAX_PCT
   \<and> (bc_min b = 1000000 \<and> bc_target b \<le> 1500000 \<longrightarrow> poll_fec_percentage hp now b = FEC_MIN_PCT)"
proof -
  define frac where "frac = max 0 (min 1 (f64 (current_ewma hp now b / FEC_SATURATION_LOSS)))"
  have fr: "0 \<le> frac" "frac \<le> 1" by (auto simp: frac_def)
  have "f64 (10 * frac) \<le> of_int 10" unfolding f64_def using fr by (intro fl_le_int) auto
  then have "f64_as_u32 (f64 (10 * frac)) \<le> 10" by (intro f64_as_u32_le) auto
  then show ?thesis using f64_as_u32_bound[of "f64 (10 * frac)"]
    by (simp add: poll_fec_percentage_def Let_def FEC_MIN_PCT_def FEC_MAX_PCT_def flip: frac_def)
qed

theorem fec_percentage_bounds_witness:
  "15 \<le> poll_fec_percentage (\<lambda>x. 1) 0 sample_bc
   \<and> poll_fec_percentage (\<lambda>x. 1) 0 (sample_bc\<lparr>bc_target := 1200000\<rparr>) = FEC_MIN_PCT"
  using fec_percentage_bounds[of "\<lambda>x. 1" 0 sample_bc] fec_percentage_bounds[of "\<lambda>x. 1" 0 "sample_bc\<lparr>bc_target := 1200000\<rparr>"]
    sample_bc_fields by (simp add: FEC_MIN_PCT_def)

section \<open>Recovery\<close>

text \<open>Polls on a line without loss reports or round-trip samples, at least one recovery interval apart.\<close>

fun spaced :: "instant \<Rightarrow> instant list \<Rightarrow> bool" where
  "spaced t [] = True"
| "spaced t (u # us) \<longleftrightarrow> t + millis RECOVER_INTERVAL_MS \<le> u \<and> spaced u us"

lemma quiet_poll:
  fixes hp :: "rat \<Rightarrow> rat"
  assumes "bc_inv b" "bc_max b \<noteq> 0" "last_loss (bc_timing b) = None" "last_rtt (bc_timing b) = None"
    "last_recover (bc_timing b) + millis RECOVER_INTERVAL_MS \<le> u" "bc_learned_ceiling b = bc_max b" "bc_probe_cap b = bc_max b"
  defines "b' \<equiv> snd (poll_target hp u b)"
  shows "bc_inv b' \<and> bc_max b' = bc_max b \<and> last_loss (bc_timing b') = None \<and> last_rtt (bc_timing b') = None
    \<and> last_recover (bc_timing b') \<le> u \<and> bc_learned_ceiling b' = bc_max b \<and> bc_probe_cap b' = bc_max b
    \<and> min (bc_target b + 250000) (bc_max b) \<le> bc_target b'"
proof -
  have g: "\<not> since_loss_less u (bc_timing b) RECOVER_DELAY_MS" "\<not> rtt_inflated u (bc_timing b)"
    "\<not> RECOVER_LOSS_GATE \<le> current_ewma hp u b" "reprobe u b = b"
    "\<not> millis_since u (last_recover (bc_timing b)) < RECOVER_INTERVAL_MS"
  proof -
    have "0 < RECOVER_LOSS_GATE" unfolding RECOVER_LOSS_GATE_def f64_def by (rule fl_gt_zero) auto
    then show "\<not> RECOVER_LOSS_GATE \<le> current_ewma hp u b"
      using assms(3) by (simp add: current_ewma_def decayed_loss_def)
    have "RECOVER_INTERVAL_MS \<le> (u - last_recover (bc_timing b)) div 1000000"
      using assms(5) zdiv_mono1[of "millis RECOVER_INTERVAL_MS" "u - last_recover (bc_timing b)" 1000000] by simp
    then show "\<not> millis_since u (last_recover (bc_timing b)) < RECOVER_INTERVAL_MS"
      using assms(5) by (simp add: millis_since_def RECOVER_INTERVAL_MS_def)
  qed (use assms in \<open>auto simp: since_loss_less_def rtt_inflated_def reprobe_def\<close>)
  have le: "last_recover (bc_timing b) \<le> u" using assms(5) by (simp add: RECOVER_INTERVAL_MS_def)
  define n where "n = min (min (bc_target b + recover_step b) U32_MAX) (bc_max b)"
  have poll: "poll_target hp u b = (if bc_max b \<le> bc_target b then (bc_target b, b)
      else (n, b\<lparr>bc_target := n, bc_timing := (bc_timing b)\<lparr>last_recover := u\<rparr>\<rparr>))"
    using g assms(2,6) by (simp add: poll_target_def Let_def n_def)
  have "min (bc_target b + 250000) (bc_max b) \<le> n"
    using recover_step_pos[of b] assms(1) by (auto simp: n_def bc_inv_def U32_MAX_def)
  then show ?thesis
    using bc_inv_poll_target[OF assms(1), of hp u] le assms(3,4,6,7) unfolding b'_def poll by auto
qed

lemma quiet_polls:
  assumes "bc_inv b" "bc_max b \<noteq> 0" "last_loss (bc_timing b) = None" "last_rtt (bc_timing b) = None"
    "last_recover (bc_timing b) \<le> t" "spaced t us" "bc_learned_ceiling b = bc_max b" "bc_probe_cap b = bc_max b"
  shows "min (bc_target b + 250000 * int (length us)) (bc_max b) \<le> bc_target (fold (\<lambda>u b. snd (poll_target hp u b)) us b)"
  using assms
proof (induction us arbitrary: b t)
  case (Cons u us)
  let ?b = "snd (poll_target hp u b)"
  have q: "bc_inv ?b \<and> bc_max ?b = bc_max b \<and> last_loss (bc_timing ?b) = None \<and> last_rtt (bc_timing ?b) = None
    \<and> last_recover (bc_timing ?b) \<le> u \<and> bc_learned_ceiling ?b = bc_max b \<and> bc_probe_cap ?b = bc_max b
    \<and> min (bc_target b + 250000) (bc_max b) \<le> bc_target ?b"
    using Cons.prems by (intro quiet_poll) auto
  then have "min (bc_target ?b + 250000 * int (length us)) (bc_max ?b)
      \<le> bc_target (fold (\<lambda>u b. snd (poll_target hp u b)) us ?b)"
    using Cons.prems by (intro Cons.IH[of ?b u]) auto
  then show ?case using q by (auto simp: min_def split: if_splits)
qed (auto simp: bc_inv_def)



end
