(* ===== verification/Kmc_VideoTasks.thy ===== *)
theory Kmc_VideoTasks
  imports Kmc_Depacketizer Kmc_Bitrate
begin

text \<open>
  The two tasks at the ends of the video socket: the host's sender (\<^verbatim>\<open>kmc-streamhost/src/video/mod.rs\<close>), which lets one
  client register by its pings, measures the round trip and sends the newest frame, and the client's receive loop
  (\<^verbatim>\<open>run\<close> in \<^verbatim>\<open>kmc-moonclient/src/video.rs\<close>) around the depacketizer. A socket address is a pair of host and port.
\<close>

type_synonym sock_addr = "nat \<times> nat"

section \<open>The host's sender\<close>

definition VIDEO_OWNER_TIMEOUT :: instant where "VIDEO_OWNER_TIMEOUT = millis 2000"
definition MAX_SANE_RTT_MS :: u32 where "MAX_SANE_RTT_MS = 5000"
definition CLIENT_GONE :: instant where "CLIENT_GONE = millis 3000"
definition FRAME_CHANNEL :: nat where "FRAME_CHANNEL = 128"

record encoded_frame =
  ef_data :: bytes
  ef_is_key_frame :: bool
  ef_rtp_timestamp :: u32

record video_host =
  vh_packet_size :: nat
  vh_client :: "sock_addr option"
  vh_sequence_number :: u32
  vh_stream_packet_index :: u32
  vh_frame_number :: u32
  vh_last_ping :: instant
  vh_probe_epoch :: instant
  vh_session_reset :: bool
  vh_client_active :: bool
  vh_bitrate :: bitrate_controller
  vh_queue :: "encoded_frame list"
  vh_sent :: "(sock_addr \<times> bytes) list"
  vh_running :: bool

definition video_host_new :: "nat \<Rightarrow> instant \<Rightarrow> bitrate_controller \<Rightarrow> video_host" where
  "video_host_new packet_size now bc =
     \<lparr>vh_packet_size = packet_size, vh_client = None, vh_sequence_number = 0, vh_stream_packet_index = 0, vh_frame_number = 0,
      vh_last_ping = now, vh_probe_epoch = now, vh_session_reset = False, vh_client_active = False, vh_bitrate = bc,
      vh_queue = [], vh_sent = [], vh_running = True\<rparr>"

definition reset_counters :: "video_host \<Rightarrow> video_host" where
  "reset_counters h = h\<lparr>vh_frame_number := 0, vh_sequence_number := 0, vh_stream_packet_index := 0\<rparr>"

definition elapsed_us :: "instant \<Rightarrow> video_host \<Rightarrow> u64" where
  "elapsed_us now h = of_int (max 0 (now - vh_probe_epoch h) div 1000)"

definition video_ping :: "instant \<Rightarrow> sock_addr \<Rightarrow> video_host \<Rightarrow> video_host" where
  "video_ping now addr h =
     (let owner_active = (vh_client h \<noteq> None \<and> vh_client h \<noteq> Some addr \<and> max 0 (now - vh_last_ping h) < VIDEO_OWNER_TIMEOUT)
      in if owner_active then h
         else
           let h1 = (if vh_client h \<noteq> Some addr then reset_counters h else h)
           in h1\<lparr>vh_client := Some addr, vh_last_ping := now, vh_client_active := True,
                 vh_sent := vh_sent h1 @ [(addr, rtt_probe (elapsed_us now h1))]\<rparr>)"

definition video_recv :: "instant \<Rightarrow> bytes \<Rightarrow> sock_addr \<Rightarrow> video_host \<Rightarrow> video_host" where
  "video_recv now data addr h =
     (if data = PING_PAYLOAD then video_ping now addr h
      else case parse_rtt_probe data of
             Some sent_us \<Rightarrow>
               if vh_client h = Some addr then
                 let rtt_us = word_saturating_sub (elapsed_us now h) sent_us;
                     rtt_ms = (ucast (rtt_us div 1000) :: u32)
                 in if rtt_ms \<le> MAX_SANE_RTT_MS then h\<lparr>vh_bitrate := on_rtt now (uint rtt_ms) (vh_bitrate h)\<rparr> else h
               else h
           | None \<Rightarrow> h)"

text \<open>
  A frame is served: \<^verbatim>\<open>rx.recv()\<close> gives the first of the queue; without a client it is dropped, otherwise the newest
  of the queue goes out. \<open>sent\<close> is the number of datagrams the socket takes before the first error.
\<close>

definition video_serve :: "rs_impl \<Rightarrow> (rat \<Rightarrow> rat) \<Rightarrow> instant \<Rightarrow> nat \<Rightarrow> video_host \<Rightarrow> video_host option" where
  "video_serve rs hp now sent h =
     (case vh_queue h of
        [] \<Rightarrow> Some h
      | frame # newer \<Rightarrow>
          (case vh_client h of
             None \<Rightarrow> Some (h\<lparr>vh_queue := newer\<rparr>)
           | Some dst \<Rightarrow>
               let h1 = (if vh_session_reset h then (reset_counters h)\<lparr>vh_session_reset := False\<rparr> else h);
                   fr = last (frame # newer);
                   h2 = h1\<lparr>vh_queue := [], vh_frame_number := vh_frame_number h1 + 1\<rparr>;
                   fec_pct = poll_fec_percentage hp now (vh_bitrate h2)
               in case packetize_frame rs (ef_data fr) (ef_is_key_frame fr) (vh_packet_size h2) (vh_frame_number h2)
                         (vh_sequence_number h2) (vh_stream_packet_index h2) (ef_rtp_timestamp fr) (nat fec_pct) of
                    None \<Rightarrow> None
                  | Some (shards, seq, spi) \<Rightarrow>
                      Some (h2\<lparr>vh_sequence_number := seq, vh_stream_packet_index := spi,
                              vh_sent := vh_sent h2 @ map (Pair dst) (take sent shards),
                              vh_bitrate := snd (poll_target hp now (vh_bitrate h2))\<rparr>)))"

definition video_tick :: "instant \<Rightarrow> video_host \<Rightarrow> video_host" where
  "video_tick now h =
     (if vh_client h \<noteq> None \<and> max 0 (now - vh_last_ping h) > CLIENT_GONE
      then h\<lparr>vh_client := None, vh_client_active := False\<rparr> else h)"

definition video_conn_reset :: "video_host \<Rightarrow> video_host" where
  "video_conn_reset h = (if vh_client h \<noteq> None then h\<lparr>vh_client := None, vh_client_active := False\<rparr> else h)"

text \<open>
  What can happen: a datagram, the socket error 10054, another error, a turn of the frame branch, the timer, a frame
  from the encoder (the channel holds 128), a new PLAY, the end of the encoder.
\<close>

datatype video_host_event =
  VRecv instant bytes sock_addr | VReset | VRecvErr | VServe instant nat | VTick instant | VFrame encoded_frame | VPlay | VClosed

definition video_host_step :: "rs_impl \<Rightarrow> (rat \<Rightarrow> rat) \<Rightarrow> video_host_event \<Rightarrow> video_host \<Rightarrow> video_host option" where
  "video_host_step rs hp e h =
     (if \<not> vh_running h then Some h
      else case e of
        VRecv now data addr \<Rightarrow> Some (video_recv now data addr h)
      | VReset \<Rightarrow> Some (video_conn_reset h)
      | VRecvErr \<Rightarrow> Some h
      | VServe now sent \<Rightarrow> video_serve rs hp now sent h
      | VTick now \<Rightarrow> Some (video_tick now h)
      | VFrame f \<Rightarrow> Some (if length (vh_queue h) < FRAME_CHANNEL then h\<lparr>vh_queue := vh_queue h @ [f]\<rparr> else h)
      | VPlay \<Rightarrow> Some (h\<lparr>vh_session_reset := True\<rparr>)
      | VClosed \<Rightarrow> Some (if vh_queue h = [] then h\<lparr>vh_running := False\<rparr> else h))"

section \<open>The client's receive loop\<close>

datatype run_status = Running | Stopped | Failed

record video_client =
  vc_dp :: depacketizer
  vc_shutdown :: bool
  vc_sink_open :: bool
  vc_status :: run_status
  vc_aus :: "au_frame list"
  vc_fecs :: "frame_fec_status list"
  vc_losts :: "u32 list"
  vc_sent :: "bytes list"

definition video_client_new :: video_client where
  "video_client_new =
     \<lparr>vc_dp = dp_new, vc_shutdown = False, vc_sink_open = True, vc_status = Running, vc_aus = [], vc_fecs = [], vc_losts = [],
      vc_sent = [PING_PAYLOAD]\<rparr>"

text \<open>\<^verbatim>\<open>while let Some(ev) = dp.pop_event()\<close>: it ends because every turn takes an event and none adds one.\<close>

function drain_events :: "video_client \<Rightarrow> video_client" where
  "drain_events c =
     (case pop_event (vc_dp c) of
        (None, d) \<Rightarrow> c\<lparr>vc_dp := d\<rparr>
      | (Some (Frame au), d) \<Rightarrow>
          if vc_sink_open c then drain_events (c\<lparr>vc_dp := d, vc_aus := vc_aus c @ [au]\<rparr>) else c\<lparr>vc_dp := d, vc_status := Stopped\<rparr>
      | (Some (Fec st), d) \<Rightarrow> drain_events (c\<lparr>vc_dp := d, vc_fecs := vc_fecs c @ [st]\<rparr>)
      | (Some (Lost i), d) \<Rightarrow> drain_events (c\<lparr>vc_dp := d, vc_losts := vc_losts c @ [i]\<rparr>))"
  by pat_completeness auto
termination
  by (relation "measure (\<lambda>c. length (dp_events (vc_dp c)))") (auto simp: pop_event_def split: list.splits)

declare drain_events.simps [simp del]

datatype video_client_event =
  CRecv instant bytes sock_addr | CReset | CRecvErr | CTick instant | CShutdown | CSinkClosed

text \<open>One pass of the loop body; \<open>continue\<close> skips the draining.\<close>

definition video_body :: "rs_impl \<Rightarrow> sock_addr \<Rightarrow> video_client_event \<Rightarrow> video_client \<Rightarrow> video_client option" where
  "video_body rs host e c =
     (case e of
        CRecv now data from \<Rightarrow>
          if fst from \<noteq> fst host then Some c
          else if parse_rtt_probe data \<noteq> None then Some (c\<lparr>vc_sent := vc_sent c @ [data]\<rparr>)
          else map_option (\<lambda>d. drain_events (c\<lparr>vc_dp := d\<rparr>)) (dp_push rs data now (vc_dp c))
      | CReset \<Rightarrow> Some c
      | CRecvErr \<Rightarrow> Some (c\<lparr>vc_status := Failed\<rparr>)
      | CTick now \<Rightarrow>
          map_option (\<lambda>d. drain_events (c\<lparr>vc_dp := d, vc_sent := vc_sent c @ [PING_PAYLOAD]\<rparr>)) (expire now (vc_dp c))
      | _ \<Rightarrow> Some c)"

definition loop_top :: "video_client \<Rightarrow> video_client" where
  "loop_top c = (if vc_status c = Running \<and> vc_shutdown c then c\<lparr>vc_status := Stopped\<rparr> else c)"

definition video_client_step :: "rs_impl \<Rightarrow> sock_addr \<Rightarrow> video_client_event \<Rightarrow> video_client \<Rightarrow> video_client option" where
  "video_client_step rs host e c =
     (if vc_status c \<noteq> Running then Some c
      else case e of
        CShutdown \<Rightarrow> Some (c\<lparr>vc_shutdown := True\<rparr>)
      | CSinkClosed \<Rightarrow> Some (c\<lparr>vc_sink_open := False\<rparr>)
      | _ \<Rightarrow> map_option loop_top (video_body rs host e c))"

section \<open>The loop refines the depacketizer\<close>

text \<open>The events of a depacketizer are only appended to: what it does next does not depend on them.\<close>

definition add_events :: "video_event list \<Rightarrow> depacketizer \<Rightarrow> depacketizer" where
  "add_events es d = d\<lparr>dp_events := es @ dp_events d\<rparr>"

lemma add_events_simps [simp]:
  "dp_frames (add_events es d) = dp_frames d" "dp_last_retired (add_events es d) = dp_last_retired d"
  "dp_events (add_events es d) = es @ dp_events d"
  "(add_events es d)\<lparr>dp_frames := fs\<rparr> = add_events es (d\<lparr>dp_frames := fs\<rparr>)"
  "(add_events es d)\<lparr>dp_last_retired := l\<rparr> = add_events es (d\<lparr>dp_last_retired := l\<rparr>)"
  "(add_events es d)\<lparr>dp_events := (es @ dp_events d) @ ev\<rparr> = add_events es (d\<lparr>dp_events := dp_events d @ ev\<rparr>)"
  "(add_events es d)\<lparr>dp_events := es @ dp_events d @ ev\<rparr> = add_events es (d\<lparr>dp_events := dp_events d @ ev\<rparr>)"
  by (simp_all add: add_events_def)

lemma put_frame_add [simp]: "put_frame f k (add_events es d) = add_events es (put_frame f k d)"
  by (simp add: put_frame_def)

lemma retire_add [simp]: "retire f (add_events es d) = add_events es (retire f d)"
  by (simp add: retire_def report_fec_def Let_def)

lemma retire_keys_add [simp]: "retire_keys ks (add_events es d) = map_option (add_events es) (retire_keys ks d)"
  by (induction ks arbitrary: d) (simp_all add: Option.bind_map_option split: Option.bind_split)

lemma emit_completed_add [simp]: "emit_completed k (add_events es d) = map_option (add_events es) (emit_completed k d)"
  by (simp add: emit_completed_def Let_def split: Option.bind_split option.split)

lemma expire_add: "expire now (add_events es d) = map_option (add_events es) (expire now d)"
  by (simp add: expire_def)

lemma dp_open_add: "dp_open k bc plen now (add_events es d) = map_option (map_prod id (add_events es)) (dp_open k bc plen now d)"
  by (auto simp: dp_open_def Let_def split: list.split Option.bind_split)

lemma dp_store_add: "dp_store rs dg plen rtp nv (add_events es d) = map_option (add_events es) (dp_store rs dg plen rtp nv d)"
  by (auto simp: dp_store_def Let_def split: Option.bind_split)

lemma dp_push_add: "dp_push rs dg now (add_events es d) = map_option (add_events es) (dp_push rs dg now d)"
  by (auto simp: dp_push_def dp_open_add dp_store_add split: option.split Option.bind_split)

lemma dp_step_add:
  "e \<noteq> Pop \<Longrightarrow> dp_step rs e (add_events es d) = map_option (add_events es) (dp_step rs e d)"
  by (cases e) (simp_all add: dp_step_def dp_push_add expire_add)

text \<open>What the three kinds of events hand to the three channels.\<close>

fun frame_of :: "video_event \<Rightarrow> au_frame list" where
  "frame_of (Frame au) = [au]" | "frame_of (Lost i) = []" | "frame_of (Fec st) = []"

fun fec_of :: "video_event \<Rightarrow> frame_fec_status list" where
  "fec_of (Fec st) = [st]" | "fec_of (Frame au) = []" | "fec_of (Lost i) = []"

abbreviation frames_of :: "video_event list \<Rightarrow> au_frame list" where "frames_of es \<equiv> concat (map frame_of es)"
abbreviation fecs_of :: "video_event list \<Rightarrow> frame_fec_status list" where "fecs_of es \<equiv> concat (map fec_of es)"
abbreviation losts_of :: "video_event list \<Rightarrow> u32 list" where "losts_of es \<equiv> concat (map lost_index es)"

lemma drain_open:
  "vc_sink_open c \<Longrightarrow> drain_events c = c\<lparr>vc_dp := (vc_dp c)\<lparr>dp_events := []\<rparr>, vc_aus := vc_aus c @ frames_of (dp_events (vc_dp c)),
     vc_fecs := vc_fecs c @ fecs_of (dp_events (vc_dp c)), vc_losts := vc_losts c @ losts_of (dp_events (vc_dp c))\<rparr>"
proof (induction c rule: drain_events.induct)
  case (1 c)
  show ?case
  proof (cases "dp_events (vc_dp c)")
    case Nil
    then show ?thesis by (subst drain_events.simps) (simp add: pop_event_def)
  next
    case (Cons e es)
    then have p: "pop_event (vc_dp c) = (Some e, (vc_dp c)\<lparr>dp_events := es\<rparr>)" by (simp add: pop_event_def)
    show ?thesis using Cons 1 p by (subst drain_events.simps) (cases e; simp)
  qed
qed

text \<open>
  What the loop feeds to the depacketizer and what it sends to the host. The abstract state is a depacketizer that keeps
  all its events; the loop's state is the same depacketizer with the events moved to the channels.
\<close>

fun loop_event :: "video_client_event \<Rightarrow> bool" where
  "loop_event (CRecv now data from) = True" | "loop_event CReset = True" | "loop_event (CTick now) = True" | "loop_event _ = False"

fun feed :: "sock_addr \<Rightarrow> video_client_event \<Rightarrow> dp_event list" where
  "feed host (CRecv now data from) =
     (if fst from = fst host \<and> parse_rtt_probe data = None then [Datagram data now] else [])"
| "feed host (CTick now) = [Expire now]"
| "feed host _ = []"

fun replies :: "sock_addr \<Rightarrow> video_client_event \<Rightarrow> bytes list" where
  "replies host (CRecv now data from) =
     (if fst from = fst host \<and> parse_rtt_probe data \<noteq> None then [data] else [])"
| "replies host (CTick now) = [PING_PAYLOAD]"
| "replies host _ = []"

definition simulates :: "video_client \<Rightarrow> depacketizer \<Rightarrow> bool" where
  "simulates c d \<longleftrightarrow>
     vc_status c = Running \<and> \<not> vc_shutdown c \<and> vc_sink_open c \<and> dp_inv (vc_dp c) \<and> dp_events (vc_dp c) = []
     \<and> d = add_events (dp_events d) (vc_dp c)
     \<and> vc_aus c = frames_of (dp_events d) \<and> vc_fecs c = fecs_of (dp_events d) \<and> vc_losts c = losts_of (dp_events d)"

lemma simulates_inv: "simulates c d \<Longrightarrow> dp_inv d"
proof -
  assume s: "simulates c d"
  then have "d = add_events (dp_events d) (vc_dp c)" "dp_inv (vc_dp c)" unfolding simulates_def by blast+
  then have "dp_frames d = dp_frames (vc_dp c)" by (metis add_events_simps(1))
  then show ?thesis using \<open>dp_inv (vc_dp c)\<close> dp_inv_frames[of d "vc_dp c"] by simp
qed

lemma simulates_channels:
  "simulates c d \<Longrightarrow> vc_status c = Running \<and> vc_aus c = frames_of (dp_events d) \<and> vc_fecs c = fecs_of (dp_events d)
     \<and> vc_losts c = losts_of (dp_events d)"
  unfolding simulates_def by blast

lemma drain_simulates:
  assumes "simulates c d" "dp_step rs e (vc_dp c) = Some d1" "e \<noteq> Pop" "dp_inv d1"
  shows "dp_step rs e d = Some (add_events (dp_events d) d1)
    \<and> simulates (drain_events (c\<lparr>vc_dp := d1, vc_sent := s\<rparr>)) (add_events (dp_events d) d1)"
proof -
  have "dp_step rs e d = Some (add_events (dp_events d) d1)"
    using dp_step_add[OF assms(3), of rs "dp_events d" "vc_dp c"] assms(1,2) by (simp add: simulates_def)
  moreover have "dp_inv (d1\<lparr>dp_events := []\<rparr>)" using assms(4) by (simp add: dp_inv_frames[of "d1\<lparr>dp_events := []\<rparr>" d1])
  ultimately show ?thesis
    using assms(1) by (auto simp: simulates_def drain_open add_events_def)
qed

lemma drain_sent [simp]: "vc_sent (drain_events c) = vc_sent c"
  by (induction c rule: drain_events.induct) (subst drain_events.simps, auto split: prod.split option.split video_event.split)

lemma loop_top_running: "\<not> vc_shutdown c \<Longrightarrow> loop_top c = c"
  by (simp add: loop_top_def)

lemma loop_simulates:
  assumes "simulates c d" "loop_event e" "rs_shape rs"
  shows "\<exists>c' d'. video_client_step rs host e c = Some c' \<and> run_steps (dp_step rs) (feed host e) d = Some d' \<and> simulates c' d'
    \<and> vc_sent c' = vc_sent c @ replies host e"
proof -
  have run: "vc_status c = Running" "\<not> vc_shutdown c" "dp_inv (vc_dp c)" using assms(1) by (simp_all add: simulates_def)
  have fed: "\<exists>d'. map_option (\<lambda>d. loop_top (drain_events (c\<lparr>vc_dp := d, vc_sent := s\<rparr>))) (dp_step rs de (vc_dp c)) =
        Some (drain_events (c\<lparr>vc_dp := d', vc_sent := s\<rparr>))
      \<and> dp_step rs de d = Some (add_events (dp_events d) d')
      \<and> simulates (drain_events (c\<lparr>vc_dp := d', vc_sent := s\<rparr>)) (add_events (dp_events d) d')" if "de \<noteq> Pop" for de s
  proof -
    obtain d' where d': "dp_step rs de (vc_dp c) = Some d'" "dp_inv d'" using dp_step_ok[OF assms(3) run(3)] by blast
    note sim = drain_simulates[OF assms(1) d'(1) that d'(2), of s]
    then show ?thesis using d'(1) by (auto simp: simulates_def loop_top_running)
  qed
  show ?thesis
  proof (cases e)
    case (CRecv now data src)
    then show ?thesis
      using run assms(1) fed[of "Datagram data now" "vc_sent c"]
      by (auto simp: video_client_step_def video_body_def loop_top_running simulates_def dp_step_def option.map_comp comp_def)
  next
    case (CTick now)
    then show ?thesis
      using run fed[of "Expire now" "vc_sent c @ [PING_PAYLOAD]"]
      by (auto simp: video_client_step_def video_body_def dp_step_def option.map_comp comp_def)
  qed (use run assms in \<open>auto simp: video_client_step_def video_body_def loop_top_running\<close>)
qed

lemma loop_run_simulates:
  assumes "simulates c d" "\<forall>e\<in>set es. loop_event e" "rs_shape rs"
  shows "\<exists>c' d'. run_steps (video_client_step rs host) es c = Some c'
    \<and> run_steps (dp_step rs) (concat (map (feed host) es)) d = Some d' \<and> simulates c' d'
    \<and> vc_sent c' = vc_sent c @ concat (map (replies host) es)"
  using assms(1,2)
proof (induction es arbitrary: c d)
  case (Cons e es)
  obtain c1 d1 where s: "video_client_step rs host e c = Some c1" "run_steps (dp_step rs) (feed host e) d = Some d1" "simulates c1 d1"
      "vc_sent c1 = vc_sent c @ replies host e"
    using loop_simulates[OF Cons.prems(1) _ assms(3), of e host] Cons.prems(2) by auto
  show ?case using Cons.IH[OF s(3)] Cons.prems(2) s by (auto simp: run_steps_append)
qed auto

lemma simulates_new: "simulates video_client_new dp_new"
  using dp_inv_new by (simp add: simulates_def video_client_new_def dp_new_def add_events_def)

section \<open>The loop ends\<close>

lemma drain_keeps [simp]:
  "dp_frames (vc_dp (drain_events c)) = dp_frames (vc_dp c)" "vc_shutdown (drain_events c) = vc_shutdown c"
  by (induction c rule: drain_events.induct; subst drain_events.simps;
      auto simp: pop_event_def split: list.split video_event.split)+

lemma dp_inv_drain [simp]: "dp_inv (vc_dp (drain_events c)) = dp_inv (vc_dp c)"
  by (rule dp_inv_frames) simp

lemma loop_top_dp [simp]: "vc_dp (loop_top c) = vc_dp c" "vc_shutdown (loop_top c) = vc_shutdown c"
  by (simp_all add: loop_top_def)

lemma video_client_step_ok:
  assumes "rs_shape rs" "dp_inv (vc_dp c)"
  shows "\<exists>c'. video_client_step rs host e c = Some c' \<and> dp_inv (vc_dp c')"
proof (cases e)
  case (CRecv now data src)
  then show ?thesis using dp_push_ok[OF assms(2,1), of data now] assms(2)
    by (auto simp: video_client_step_def video_body_def)
next
  case (CTick now)
  then show ?thesis using expire_ok[OF assms(2), of now] assms(2)
    by (auto simp: video_client_step_def video_body_def)
qed (use assms(2) in \<open>auto simp: video_client_step_def video_body_def\<close>)

interpretation vcl: step_invariant "video_client_step rs host" "\<lambda>c. rs_shape rs \<and> dp_inv (vc_dp c)" for rs host
  by unfold_locales (use video_client_step_ok in blast)

fun is_turn :: "video_client_event \<Rightarrow> bool" where
  "is_turn CShutdown = False" | "is_turn CSinkClosed = False" | "is_turn _ = True"

lemma stopped_stays: "vc_status c \<noteq> Running \<Longrightarrow> run_steps (video_client_step rs host) es c = Some c"
  by (induction es) (simp_all add: video_client_step_def)

lemma shutdown_kept: "vc_shutdown c \<Longrightarrow> video_client_step rs host e c = Some c' \<Longrightarrow> vc_shutdown c'"
  by (cases e) (auto simp: video_client_step_def video_body_def split: if_splits)

lemma shutdown_kept_run: "vc_shutdown c \<Longrightarrow> run_steps (video_client_step rs host) es c = Some c' \<Longrightarrow> vc_shutdown c'"
proof (induction es arbitrary: c)
  case (Cons e es)
  then obtain c1 where "video_client_step rs host e c = Some c1" "run_steps (video_client_step rs host) es c1 = Some c'"
    by (auto split: Option.bind_splits)
  then show ?case using Cons shutdown_kept by blast
qed simp

lemma loop_top_stops: "vc_shutdown c \<Longrightarrow> vc_status (loop_top c) \<noteq> Running"
  by (simp add: loop_top_def)

lemma shutdown_turn: "vc_shutdown c \<Longrightarrow> is_turn e \<Longrightarrow> video_client_step rs host e c = Some c' \<Longrightarrow> vc_status c' \<noteq> Running"
  by (cases e) (auto simp: video_client_step_def video_body_def loop_top_stops split: if_splits)

section \<open>One client at a time\<close>

text \<open>Client \<open>a\<close> keeps the stream alive: its pings keep ahead of the other clients' pings and of the timer.\<close>

fun kept_alive :: "sock_addr \<Rightarrow> instant \<Rightarrow> video_host_event list \<Rightarrow> bool" where
  "kept_alive a ping [] = True"
| "kept_alive a ping (VRecv now data b # es) =
     (if data = PING_PAYLOAD then
        if b = a then kept_alive a now es else max 0 (now - ping) < VIDEO_OWNER_TIMEOUT \<and> kept_alive a ping es
      else kept_alive a ping es)"
| "kept_alive a ping (VTick now # es) = (max 0 (now - ping) \<le> CLIENT_GONE \<and> kept_alive a ping es)"
| "kept_alive a ping (VReset # es) = False"
| "kept_alive a ping (_ # es) = kept_alive a ping es"

definition sends_to :: "sock_addr \<Rightarrow> video_host \<Rightarrow> video_host \<Rightarrow> bool" where
  "sends_to a h h' \<longleftrightarrow> (\<exists>out. vh_sent h' = vh_sent h @ map (Pair a) out)"

lemma sends_to_same [simp]: "vh_sent h' = vh_sent h \<Longrightarrow> sends_to a h h'"
  by (simp add: sends_to_def)

lemma sends_to_trans: "sends_to a h h' \<Longrightarrow> sends_to a h' h'' \<Longrightarrow> sends_to a h h''"
  by (auto simp: sends_to_def simp flip: map_append)

definition owned :: "sock_addr \<Rightarrow> instant \<Rightarrow> video_host \<Rightarrow> video_host \<Rightarrow> bool" where
  "owned a ping h h' \<longleftrightarrow> vh_client h' = Some a \<and> vh_last_ping h' = ping \<and> sends_to a h h'"

lemma video_ping_owner: "vh_client h = Some a \<Longrightarrow> owned a now h (video_ping now a h)"
  by (simp add: video_ping_def owned_def sends_to_def) (metis list.simps(8,9))

lemma video_serve_owner:
  assumes "vh_client h = Some a" "video_serve rs hp now n h = Some h'"
  shows "owned a (vh_last_ping h) h h'"
  using assms
  by (auto simp: video_serve_def owned_def sends_to_def reset_counters_def Let_def split: list.splits option.splits prod.splits if_splits)

lemma host_stopped_stays: "\<not> vh_running h \<Longrightarrow> run_steps (video_host_step rs hp) es h = Some h"
  by (induction es) (simp_all add: video_host_step_def)

lemma video_host_step_owner:
  assumes "vh_running h" "vh_client h = Some a" "kept_alive a (vh_last_ping h) (e # es)" "video_host_step rs hp e h = Some h'"
  shows "\<exists>ping. owned a ping h h' \<and> kept_alive a ping es"
proof (cases e)
  case (VRecv now data b)
  then show ?thesis
  proof (cases "data = PING_PAYLOAD \<and> b = a")
    case True
    then show ?thesis using VRecv assms video_ping_owner[OF assms(2), of now]
      by (auto simp: video_host_step_def video_recv_def split: if_splits)
  next
    case False
    then show ?thesis using VRecv assms
      by (auto simp: video_host_step_def video_recv_def video_ping_def owned_def sends_to_def Let_def split: if_splits option.splits)
  qed
next
  case (VServe now n)
  then show ?thesis using assms video_serve_owner[OF assms(2), of rs hp now n h']
    by (auto simp: video_host_step_def owned_def split: if_splits)
qed (use assms in \<open>auto simp: video_host_step_def video_tick_def owned_def split: if_splits\<close>)

lemma video_host_run_owner:
  assumes "vh_client h = Some a" "kept_alive a (vh_last_ping h) es" "run_steps (video_host_step rs hp) es h = Some h'"
  shows "vh_client h' = Some a \<and> sends_to a h h'"
  using assms
proof (induction es arbitrary: h)
  case (Cons e es)
  show ?case
  proof (cases "vh_running h")
    case False
    then show ?thesis using host_stopped_stays[OF False, of rs hp "e # es"] Cons.prems by simp
  next
    case True
    obtain h1 where h1: "video_host_step rs hp e h = Some h1" "run_steps (video_host_step rs hp) es h1 = Some h'"
      using Cons.prems(3) by (auto split: Option.bind_splits)
    obtain ping where p: "owned a ping h h1" "kept_alive a ping es"
      using video_host_step_owner[OF True Cons.prems(1,2) h1(1)] by blast
    then show ?thesis using Cons.IH[of h1] h1(2) sends_to_trans[of a h h1 h'] by (auto simp: owned_def)
  qed
qed simp

section \<open>The round trip\<close>

lemma elapsed_us_mono:
  assumes "vh_probe_epoch h \<le> t0" "t0 \<le> t1" "(t1 - vh_probe_epoch h) div 1000 < 2 ^ 64"
  shows "uint (word_saturating_sub (elapsed_us t1 h) (elapsed_us t0 h)) =
    (t1 - vh_probe_epoch h) div 1000 - (t0 - vh_probe_epoch h) div 1000"
proof -
  let ?a = "(t0 - vh_probe_epoch h) div 1000" and ?b = "(t1 - vh_probe_epoch h) div 1000"
  have ab: "0 \<le> ?a" "?a \<le> ?b" using assms by (simp_all add: zdiv_mono1)
  have a: "uint (elapsed_us t0 h) = ?a" and b: "uint (elapsed_us t1 h) = ?b"
    using assms ab by (simp_all add: elapsed_us_def uint_word_of_int take_bit_int_eq_self max_def)
  then have "elapsed_us t0 h \<le> elapsed_us t1 h" using ab by (simp add: word_le_def)
  then show ?thesis using a b ab by (simp add: word_saturating_sub_def uint_sub_if' word_le_def)
qed

end
