(* ===== verification/Kmc_VideoLink.thy ===== *)
theory Kmc_VideoLink
  imports Kmc_VideoPath Kmc_VideoTasks
begin

text \<open>
  The video socket end to end: the properties of the sender and the receive loop together, from the frame in the host's
  queue to the frame in the client's channel, and the round-trip measurement between them.
\<close>

section \<open>A frame from queue to screen\<close>

lemma shards_not_probes:
  assumes "packetize_frame rs enc key psize frame seq spi ts pct = Some (shards, seq', spi')" "16 < psize"
    and "c = pkt_setup enc key psize frame ts pct" "\<forall>b<pk_blocks c. block_code_ok rs c b" "dg \<in> set shards"
  shows "parse_rtt_probe dg = None"
proof -
  obtain sss where sss: "packetize_frame rs enc key psize frame seq spi ts pct =
      Some (concat sss, block_seq c seq (pk_blocks c), block_spi c spi (pk_blocks c))" "frame_blocks rs c seq spi sss"
    using packetize_frame_blocks[OF assms(2-4)] .
  have "shards = concat sss" using sss(1) assms(1) by simp
  then obtain i where "i < length (concat sss)" "dg = concat sss ! i"
    using assms(5) unfolding \<open>shards = concat sss\<close> in_set_conv_nth by blast
  then have "length dg = 32 + pk_spp c" using frame_blocks_nth[OF sss(2)] by auto
  then show ?thesis by (simp add: parse_rtt_probe_def)
qed

lemma feed_datagrams:
  assumes "\<forall>dg\<in>set (map fst dgs). parse_rtt_probe dg = None"
  shows "concat (map (feed host) (map (\<lambda>(dg, t). CRecv t dg host) dgs)) = map (\<lambda>(dg, t). Datagram dg t) dgs"
  using assms by (induction dgs) auto

lemma no_frames_of: "no_frames evs \<Longrightarrow> frames_of evs = []"
proof (induction evs)
  case (Cons e evs)
  then show ?case by (cases e) auto
qed simp


text \<open>The sample frame, queued behind an older one; the parity share is 15 percent.\<close>

definition sample_video_host :: video_host where
  "sample_video_host =
     (video_host_new 24 0 (sample_bc\<lparr>bc_target := 1200000\<rparr>))\<lparr>vh_client := Some (5, 6), vh_frame_number := 6,
        vh_sequence_number := 65534, vh_stream_packet_index := 41,
        vh_queue := [\<lparr>ef_data = [0], ef_is_key_frame = False, ef_rtp_timestamp = 0\<rparr>,
                     \<lparr>ef_data = sample_frame, ef_is_key_frame = True, ef_rtp_timestamp = 90000\<rparr>]\<rparr>"

definition sample_datagrams :: "bytes list" where
  "sample_datagrams =
     [[144, 0, 255, 254, 0, 1, 95, 144, 0, 0, 0, 0, 0, 0, 0, 0, 0, 41, 0, 0, 7, 0, 0, 0, 5, 0, 16, 0, 240, 0, 192, 0, 1, 0, 0, 2, 1, 0, 0, 0],
      [144, 0, 255, 255, 0, 1, 95, 144, 0, 0, 0, 0, 0, 0, 0, 0, 0, 42, 0, 0, 7, 0, 0, 0, 1, 0, 16, 0, 240, 16, 192, 0, 0, 0, 0, 1, 101, 17, 34, 51],
      [144, 0, 0, 0, 0, 1, 95, 144, 0, 0, 0, 0, 0, 0, 0, 0, 0, 43, 0, 0, 7, 0, 0, 0, 3, 0, 16, 0, 240, 32, 192, 0, 68, 0, 0, 0, 0, 0, 0, 0],
      [144, 0, 0, 1, 0, 1, 95, 144, 0, 0, 0, 0, 0, 0, 0, 0, 0, 40, 0, 0, 7, 0, 0, 0, 7, 0, 16, 0, 240, 48, 192, 0, 69, 0, 0, 3, 100, 17, 34, 51]]"

lemma sample_datagrams_sent:
  "packetize_frame rs_xor sample_frame True 24 7 65534 41 90000 15 = Some (sample_datagrams, 65538, 44)"
  by code_simp

lemma sample_host_fec [simp]: "poll_fec_percentage hp now (sample_bc\<lparr>bc_target := 1200000\<rparr>) = 15"
  by (simp add: poll_fec_percentage_def sample_bc_fields FEC_MIN_PCT_def)

lemma sample_host_fields [simp]:
  "vh_running sample_video_host" "vh_client sample_video_host = Some (5, 6)" "vh_packet_size sample_video_host = 24"
  "vh_queue sample_video_host \<noteq> []" "\<not> vh_session_reset sample_video_host" "vh_frame_number sample_video_host = 6"
  "vh_bitrate sample_video_host = sample_bc\<lparr>bc_target := 1200000\<rparr>" "vh_sent sample_video_host = []"
  "vh_last_ping sample_video_host = 0" "vh_probe_epoch sample_video_host = 0"
  "last (vh_queue sample_video_host) = \<lparr>ef_data = sample_frame, ef_is_key_frame = True, ef_rtp_timestamp = 90000\<rparr>"
  by (simp_all add: sample_video_host_def video_host_new_def)


section \<open>The loop refines the depacketizer\<close>


text \<open>
  C26: the loop ends. Once the shutdown flag is set, whatever happened before, the next datagram, socket error or tick (at
  most a ping interval away) is the last turn; nothing that happens later changes the state.
\<close>

theorem receiver_stops:
  assumes "rs_shape rs" "is_turn e"
  shows "\<exists>c. run_steps (video_client_step rs host) (pre @ CShutdown # mid @ [e]) video_client_new = Some c \<and> vc_status c \<noteq> Running
    \<and> (\<forall>post. run_steps (video_client_step rs host) (pre @ CShutdown # mid @ e # post) video_client_new = Some c)"
proof -
  let ?run = "run_steps (video_client_step rs host)"
  have ok: "\<exists>c'. ?run es c = Some c' \<and> dp_inv (vc_dp c')" if "dp_inv (vc_dp c)" for es c
    using vcl.run_inv[of rs c host es] that assms(1) by blast
  obtain c1 where c1: "?run pre video_client_new = Some c1" "dp_inv (vc_dp c1)"
    using ok[of video_client_new] dp_inv_new by (auto simp: video_client_new_def)
  obtain c2 where c2: "video_client_step rs host CShutdown c1 = Some c2" "dp_inv (vc_dp c2)"
    using video_client_step_ok[OF assms(1) c1(2)] by blast
  obtain c3 where c3: "?run mid c2 = Some c3" "dp_inv (vc_dp c3)" using ok[OF c2(2)] by blast
  obtain c where c: "video_client_step rs host e c3 = Some c" using video_client_step_ok[OF assms(1) c3(2)] by blast
  have "vc_status c \<noteq> Running"
  proof (cases "vc_status c1 = Running")
    case True
    then have "vc_shutdown c2" using c2(1) by (auto simp: video_client_step_def)
    then show ?thesis using shutdown_kept_run[OF _ c3(1)] shutdown_turn[OF _ assms(2) c] by blast
  next
    case False
    then show ?thesis using stopped_stays[of c1 rs host "CShutdown # mid @ [e]"] c2(1) c3(1) c by (simp add: run_steps_append)
  qed
  then show ?thesis using c1(1) c2(1) c3(1) c stopped_stays[of c rs host] by (simp add: run_steps_append)
qed

theorem receiver_stops_witness:
  "\<exists>c. run_steps (video_client_step rs_xor (5, 6)) [CTick 0, CShutdown, CTick 500000000] video_client_new = Some c \<and> vc_status c \<noteq> Running"
  using receiver_stops[OF rs_xor_shape, of "CTick 500000000" "(5, 6)" "[CTick 0]" "[]"] by auto


section \<open>The sender's client\<close>

text \<open>
  C27: a client that keeps pinging keeps the stream. While its pings come before another client's ping is two seconds
  and the timer three seconds behind them, and the socket reports no reset, it stays the registered client, and every datagram
  the host sends in that time, probes included, goes to it.
\<close>

theorem video_owner_kept:
  assumes "vh_client h = Some a" "kept_alive a (vh_last_ping h) es" "run_steps (video_host_step rs hp) es h = Some h'"
  shows "vh_client h' = Some a \<and> (\<exists>out. vh_sent h' = vh_sent h @ map (Pair a) out)"
  using video_host_run_owner[OF assms] by (simp add: sends_to_def)

theorem video_owner_kept_witness:
  "\<exists>h'. run_steps (video_host_step rs_xor (\<lambda>x. 1))
      [VRecv 1500000000 PING_PAYLOAD (9, 9), VServe 1600000000 99, VTick 2000000000] sample_video_host = Some h'
    \<and> vh_client h' = Some (5, 6)"
proof -
  let ?es = "[VRecv 1500000000 PING_PAYLOAD (9, 9), VServe 1600000000 99, VTick 2000000000] :: video_host_event list"
  have "\<exists>h'. run_steps (video_host_step rs_xor (\<lambda>x. 1)) ?es sample_video_host = Some h'"
    using sample_datagrams_sent
    by (simp add: sample_video_host_def video_host_new_def video_host_step_def video_recv_def video_ping_def video_serve_def
        Let_def VIDEO_OWNER_TIMEOUT_def)
  then obtain h' where h': "run_steps (video_host_step rs_xor (\<lambda>x. 1)) ?es sample_video_host = Some h'" by blast
  have alive: "kept_alive (5, 6) (vh_last_ping sample_video_host) ?es"
    by (simp add: VIDEO_OWNER_TIMEOUT_def CLIENT_GONE_def)
  show ?thesis using video_owner_kept[OF _ alive h'] h' by simp
qed

lemma div_diff_bounds:
  fixes a b k :: int
  assumes "0 < k"
  shows "(b - a) div k \<le> b div k - a div k" "b div k - a div k \<le> (b - a) div k + 1"
proof -
  let ?r = "(a mod k + (b - a) mod k) div k"
  have "b div k = a div k + (b - a) div k + ?r" using div_add1_eq[of a "b - a" k] by simp
  moreover have "0 \<le> ?r" using assms by (simp add: pos_imp_zdiv_nonneg_iff)
  moreover have "a mod k + (b - a) mod k < 2 * k" using pos_mod_bound[OF assms, of a] pos_mod_bound[OF assms, of "b - a"] by linarith
  then have "?r * k < 2 * k" using assms div_mult_mod_eq[of "a mod k + (b - a) mod k" k] pos_mod_sign[OF assms, of "a mod k + (b - a) mod k"]
    by linarith
  then have "?r < 2" using assms by simp
  ultimately show "(b - a) div k \<le> b div k - a div k" "b div k - a div k \<le> (b - a) div k + 1" by linarith+
qed

text \<open>
  C19: the round trip. A ping of a client the host accepts is answered by a probe; the client's loop sends the probe back unchanged, and when
  it returns within five seconds the bit-rate controller gets the time since the ping in milliseconds, off by at most one; the same
  bytes from another address change nothing.
\<close>

theorem rtt_measured:
  assumes "vh_client h = None \<or> vh_client h = Some addr \<or> VIDEO_OWNER_TIMEOUT \<le> t0 - vh_last_ping h"
    and "vh_probe_epoch h \<le> t0" "t0 \<le> t1" "(t1 - vh_probe_epoch h) div 1000 < 2 ^ 64" "t1 - t0 < millis 5000"
    and "vc_status c = Running" "\<not> vc_shutdown c" "h1 = video_recv t0 PING_PAYLOAD addr h"
  shows "\<exists>probe rtt. vh_sent h1 = vh_sent h @ [(addr, probe)]
    \<and> video_client_step rs host (CRecv t probe host) c = Some (c\<lparr>vc_sent := vc_sent c @ [probe]\<rparr>)
    \<and> video_recv t1 probe addr h1 = h1\<lparr>vh_bitrate := on_rtt t1 rtt (vh_bitrate h1)\<rparr>
    \<and> (t1 - t0) div 1000000 \<le> rtt \<and> rtt \<le> (t1 - t0) div 1000000 + 1
    \<and> (\<forall>other. other \<noteq> addr \<longrightarrow> video_recv t1 probe other h1 = h1)"
proof -
  define epoch where "epoch = vh_probe_epoch h"
  define probe where "probe = rtt_probe (elapsed_us t0 h)"
  define rtt_us where "rtt_us = word_saturating_sub (elapsed_us t1 h) (elapsed_us t0 h)"
  have parse: "parse_rtt_probe probe = Some (elapsed_us t0 h)" "probe \<noteq> PING_PAYLOAD"
    using rtt_probe_roundtrip[of "elapsed_us t0 h"] unfolding probe_def by force+
  have h1: "vh_sent h1 = vh_sent h @ [(addr, probe)]" "vh_client h1 = Some addr" "vh_probe_epoch h1 = vh_probe_epoch h"
    using assms(1,8) by (auto simp: video_recv_def video_ping_def Let_def reset_counters_def probe_def elapsed_us_def)
  then have el: "elapsed_us t h1 = elapsed_us t h" for t by (simp add: elapsed_us_def)
  have us: "uint rtt_us = (t1 - epoch) div 1000 - (t0 - epoch) div 1000"
    unfolding rtt_us_def epoch_def by (rule elapsed_us_mono[OF assms(2,3,4)])
  have near: "(t1 - t0) div 1000 \<le> uint rtt_us" "uint rtt_us \<le> (t1 - t0) div 1000 + 1" "uint rtt_us \<le> 5000000"
    using div_diff_bounds[of 1000 "t1 - epoch" "t0 - epoch"] assms(5) by (simp_all add: us)
  define rtt where "rtt = uint rtt_us div 1000"
  have rtt: "(t1 - t0) div 1000000 \<le> rtt" "rtt \<le> (t1 - t0) div 1000000 + 1" "0 \<le> rtt" "rtt \<le> 5000"
    using near zdiv_mono1[OF near(1), of 1000] zdiv_mono1[OF near(2), of 1000] zdiv_mono1[OF near(3), of 1000]
      zdiv_zmult2_eq[of 1000 "t1 - t0" 1000] div_diff_bounds(2)[of 1000 "(t1 - t0) div 1000 + 1" "(t1 - t0) div 1000"]
    by (simp_all add: rtt_def pos_imp_zdiv_nonneg_iff)
  have ms: "uint (ucast (rtt_us div 1000) :: u32) = rtt"
    using rtt by (simp add: rtt_def unsigned_ucast_eq uint_div uint_word_of_int take_bit_int_eq_self)
  have "(ucast (rtt_us div 1000) :: u32) \<le> MAX_SANE_RTT_MS"
    using ms rtt by (simp add: word_le_def MAX_SANE_RTT_MS_def)
  then have "video_recv t1 probe addr h1 = h1\<lparr>vh_bitrate := on_rtt t1 rtt (vh_bitrate h1)\<rparr>"
    using parse h1(2) ms by (simp add: video_recv_def el Let_def flip: rtt_us_def)
  moreover have "\<forall>other. other \<noteq> addr \<longrightarrow> video_recv t1 probe other h1 = h1"
    using parse h1(2) by (simp add: video_recv_def)
  moreover have "video_client_step rs host (CRecv t probe host) c = Some (c\<lparr>vc_sent := vc_sent c @ [probe]\<rparr>)"
    using assms(6,7) parse by (simp add: video_client_step_def video_body_def loop_top_running)
  ultimately show ?thesis using h1(1) rtt by blast
qed

theorem rtt_measured_witness:
  "\<exists>rtt. video_recv 62000000 (rtt_probe 20000) (5, 6) (video_recv 20000000 PING_PAYLOAD (5, 6) sample_video_host) =
      (video_recv 20000000 PING_PAYLOAD (5, 6) sample_video_host)\<lparr>vh_bitrate := on_rtt 62000000 rtt (sample_bc\<lparr>bc_target := 1200000\<rparr>)\<rparr>
    \<and> 42 \<le> rtt \<and> rtt \<le> 43"
proof -
  let ?h1 = "video_recv 20000000 PING_PAYLOAD (5, 6) sample_video_host"
  have h1: "vh_sent ?h1 = [((5, 6), rtt_probe 20000)]" "vh_bitrate ?h1 = sample_bc\<lparr>bc_target := 1200000\<rparr>"
    by (simp_all add: video_recv_def video_ping_def elapsed_us_def)
  show ?thesis
    using rtt_measured[of sample_video_host "(5, 6)" 20000000 62000000 video_client_new ?h1 rs_xor "(8, 9)" 0] h1
    by (auto simp: video_client_new_def)
qed

end
