(* ===== verification/Kmc_Encoder.thy ===== *)
theory Kmc_Encoder
  imports Kmc_Prelude
begin

text \<open>
  The hardware encoders around the FFmpeg calls (\<^verbatim>\<open>kmc-streamhost/src/{qsv,gpu_encode,gpuconvert}.rs\<close>): the copies between
  padded and packed NV12 planes, when an encoder is rebuilt for another bit rate, the forced key frame of the
  RAM encoder and the texture ring of the zero-copy encoder. What FFmpeg answers is an argument.
\<close>

section \<open>When to rebuild\<close>

definition abs_diff :: "u32 \<Rightarrow> u32 \<Rightarrow> u32" where
  "abs_diff a b = (if b \<le> a then a - b else b - a)"

text \<open>The guard of \<^verbatim>\<open>set_bitrate\<close>, the same in both encoders; the products are on \<^verbatim>\<open>u32\<close> and wrap in a release build.\<close>

definition wants_rebuild :: "instant \<Rightarrow> instant \<Rightarrow> u32 \<Rightarrow> u32 \<Rightarrow> bool" where
  "wants_rebuild now last_reconfig cur bitrate_bps =
     (let going_down = bitrate_bps < cur;
          urgent_down = (going_down \<and> bitrate_bps \<le> 1200000);
          threshold_pct = (if going_down then 15 else 40);
          changed_enough = (cur * threshold_pct \<le> abs_diff bitrate_bps cur * 100);
          min_interval = (if going_down then 2000 else 8000 :: int)
      in if \<not> changed_enough \<and> \<not> urgent_down then False
         else if \<not> urgent_down \<and> max 0 (now - last_reconfig) div 1000000 < min_interval then False
         else True)"

section \<open>Planes\<close>

text \<open>
  A plane copied row by row between two strides. A slice out of range panics; the raw reads of the mapped texture are
  held to its size.
\<close>

definition copy_rows :: "nat \<Rightarrow> nat \<Rightarrow> (nat \<Rightarrow> nat) \<Rightarrow> (nat \<Rightarrow> nat) \<Rightarrow> bytes \<Rightarrow> bytes \<Rightarrow> bytes option" where
  "copy_rows rows w spos dpos src dst =
     run_steps (\<lambda>y d.
        if dpos y + w \<le> length d \<and> spos y + w \<le> length src
        then Some (take (dpos y) d @ take w (drop (spos y) src) @ drop (dpos y + w) d) else None) [0..<rows] dst"

text \<open>The download of a mapped NV12 texture into the packed buffer.\<close>

definition nv12_download :: "nat \<Rightarrow> nat \<Rightarrow> nat \<Rightarrow> bytes \<Rightarrow> bytes \<Rightarrow> bytes option" where
  "nv12_download w h row_pitch mapped nv12_buf =
     do {
       buf \<leftarrow> copy_rows h w (\<lambda>y. y * row_pitch) (\<lambda>y. y * w) mapped nv12_buf;
       copy_rows (h div 2) w (\<lambda>y. row_pitch * h + y * row_pitch) (\<lambda>y. w * h + y * w) mapped buf }"

text \<open>A picture buffer of FFmpeg: stride and bytes of each plane.\<close>

record picture =
  pc_stride0 :: nat
  pc_plane0 :: bytes
  pc_stride1 :: nat
  pc_plane1 :: bytes

definition fill_picture :: "nat \<Rightarrow> nat \<Rightarrow> bytes \<Rightarrow> picture \<Rightarrow> picture option" where
  "fill_picture w h nv12 p =
     do {
       p0 \<leftarrow> copy_rows h w (\<lambda>y. y * w) (\<lambda>y. y * pc_stride0 p) nv12 (pc_plane0 p);
       p1 \<leftarrow> copy_rows (h div 2) w (\<lambda>y. w * h + y * w) (\<lambda>y. y * pc_stride1 p) nv12 (pc_plane1 p);
       Some (p\<lparr>pc_plane0 := p0, pc_plane1 := p1\<rparr>) }"

section \<open>The RAM encoder\<close>

type_synonym packet = "bytes \<times> bool"
type_synonym answer = "unit + packet list"

text \<open>\<open>qe_sent\<close> are the pictures handed to \<^verbatim>\<open>send_frame\<close>, each with whether its kind was forced to I.\<close>

record qsv_encoder =
  qe_width :: nat
  qe_height :: nat
  qe_bitrate :: u32
  qe_pts :: int
  qe_force_idr :: bool
  qe_last_reconfig :: instant
  qe_sent :: "(picture \<times> bool) list"

definition qsv_new :: "nat \<Rightarrow> nat \<Rightarrow> u32 \<Rightarrow> instant \<Rightarrow> qsv_encoder" where
  "qsv_new w h bitrate_bps now =
     \<lparr>qe_width = w, qe_height = h, qe_bitrate = bitrate_bps, qe_pts = 0, qe_force_idr = False, qe_last_reconfig = now, qe_sent = []\<rparr>"

text \<open>\<open>opened\<close>: FFmpeg could open the new encoder; otherwise the old one stays and the call fails.\<close>

definition qsv_set_bitrate :: "instant \<Rightarrow> bool \<Rightarrow> u32 \<Rightarrow> qsv_encoder \<Rightarrow> bool \<times> qsv_encoder" where
  "qsv_set_bitrate now opened bitrate_bps e =
     (if \<not> wants_rebuild now (qe_last_reconfig e) (qe_bitrate e) bitrate_bps then (True, e)
      else if \<not> opened then (False, e)
      else (True, e\<lparr>qe_bitrate := bitrate_bps, qe_pts := 0, qe_force_idr := True, qe_last_reconfig := now\<rparr>))"

definition qsv_request_idr :: "qsv_encoder \<Rightarrow> qsv_encoder" where
  "qsv_request_idr e = e\<lparr>qe_force_idr := True\<rparr>"

text \<open>\<open>blank\<close> is the picture buffer FFmpeg allocates, \<open>ans\<close> what it answers to \<^verbatim>\<open>send_frame\<close> and \<^verbatim>\<open>receive_packet\<close>.\<close>

definition qsv_encode :: "picture \<Rightarrow> answer \<Rightarrow> bytes \<Rightarrow> qsv_encoder \<Rightarrow> (answer \<times> qsv_encoder) option" where
  "qsv_encode blank ans nv12 e =
     (if length nv12 < qe_width e * qe_height e * 3 div 2 then Some (Inl (), e)
      else do {
        vframe \<leftarrow> fill_picture (qe_width e) (qe_height e) nv12 blank;
        Some (ans, e\<lparr>qe_pts := qe_pts e + 1, qe_force_idr := False, qe_sent := qe_sent e @ [(vframe, qe_force_idr e)]\<rparr>) })"

section \<open>The zero-copy encoder\<close>

definition RING_SIZE :: nat where "RING_SIZE = 6"

record zc_encoder =
  ze_ring :: "bytes option list"
  ze_ring_pos :: nat
  ze_staged :: nat
  ze_pts :: int
  ze_bitrate :: u32
  ze_last_reconfig :: instant
  ze_sent :: "(bytes option \<times> bool) list"

definition zc_new :: "u32 \<Rightarrow> instant \<Rightarrow> zc_encoder" where
  "zc_new bitrate_bps now =
     \<lparr>ze_ring = replicate RING_SIZE None, ze_ring_pos = 0, ze_staged = 0, ze_pts = 0, ze_bitrate = bitrate_bps,
      ze_last_reconfig = now, ze_sent = []\<rparr>"

text \<open>\<open>bound\<close>: the ring's texture could be borrowed; the slot is taken either way.\<close>

definition zc_stage :: "bool \<Rightarrow> bytes \<Rightarrow> zc_encoder \<Rightarrow> zc_encoder" where
  "zc_stage bound nv12_tex e =
     (let idx = ze_ring_pos e; e1 = e\<lparr>ze_ring_pos := (idx + 1) mod length (ze_ring e), ze_staged := idx\<rparr>
      in if bound then e1\<lparr>ze_ring := (ze_ring e1)[idx := Some nv12_tex]\<rparr> else e1)"

definition zc_submit :: "bool \<Rightarrow> zc_encoder \<Rightarrow> zc_encoder" where
  "zc_submit force_idr e = e\<lparr>ze_pts := ze_pts e + 1, ze_sent := ze_sent e @ [(ze_ring e ! ze_staged e, force_idr)]\<rparr>"

definition zc_set_bitrate :: "instant \<Rightarrow> bool \<Rightarrow> u32 \<Rightarrow> zc_encoder \<Rightarrow> bool \<times> zc_encoder" where
  "zc_set_bitrate now opened bitrate_bps e =
     (if \<not> wants_rebuild now (ze_last_reconfig e) (ze_bitrate e) bitrate_bps then (True, e)
      else if \<not> opened then (False, e)
      else (True, e\<lparr>ze_bitrate := bitrate_bps, ze_last_reconfig := now\<rparr>))"

section \<open>Copied rows\<close>

lemma copy_rows_nth:
  assumes "w \<le> st" "\<forall>y<rows. off + y * st + w \<le> length d \<and> spos y + w \<le> length src"
  shows "\<exists>d'. copy_rows rows w spos (\<lambda>y. off + y * st) src d = Some d' \<and> length d' = length d
    \<and> (\<forall>y<rows. \<forall>j<w. d' ! (off + y * st + j) = src ! (spos y + j)) \<and> (\<forall>i<off. d' ! i = d ! i)"
  using assms(2)
proof (induction rows)
  case 0
  then show ?case by (simp add: copy_rows_def)
next
  case (Suc n)
  obtain d1 where d1: "copy_rows n w spos (\<lambda>y. off + y * st) src d = Some d1" "length d1 = length d"
      "\<forall>y<n. \<forall>j<w. d1 ! (off + y * st + j) = src ! (spos y + j)" "\<forall>i<off. d1 ! i = d ! i"
    using Suc by force
  have fit: "off + n * st + w \<le> length d" "spos n + w \<le> length src" using Suc.prems by auto
  define d2 where "d2 = take (off + n * st) d1 @ take w (drop (spos n) src) @ drop (off + n * st + w) d1"
  have "copy_rows (Suc n) w spos (\<lambda>y. off + y * st) src d = Some d2"
    using d1(1,2) fit by (simp add: copy_rows_def run_steps_append d2_def)
  moreover have "length d2 = length d" using fit d1(2) by (simp add: d2_def)
  moreover have old: "d2 ! i = d1 ! i" if "i < off + n * st" for i
    using that fit d1(2) by (simp add: d2_def nth_append)
  have "\<forall>y<Suc n. \<forall>j<w. d2 ! (off + y * st + j) = src ! (spos y + j)"
  proof (intro allI impI)
    fix y j assume y: "y < Suc n" and j: "j < w"
    show "d2 ! (off + y * st + j) = src ! (spos y + j)"
    proof (cases "y = n")
      case True
      then show ?thesis using j fit d1(2) by (simp add: d2_def nth_append)
    next
      case False
      then have "Suc y * st \<le> n * st" using y by (intro mult_le_mono1) simp
      then have "off + y * st + j < off + n * st" using j assms(1) by simp
      then show ?thesis using old d1(3) False y j by simp
    qed
  qed
  moreover have "\<forall>i<off. d2 ! i = d ! i" using old d1(4) by simp
  ultimately show ?case by blast
qed

text \<open>A row as a list, and the same fact for rows.\<close>

abbreviation row_at :: "bytes \<Rightarrow> nat \<Rightarrow> nat \<Rightarrow> bytes" where "row_at bs off w \<equiv> take w (drop off bs)"

lemma row_at_eq:
  assumes "a + w \<le> length xs" "b + w \<le> length ys" "\<forall>j<w. xs ! (a + j) = ys ! (b + j)"
  shows "row_at xs a w = row_at ys b w"
  using assms by (intro nth_equalityI) simp_all

lemma row_end: "y < n \<Longrightarrow> w \<le> st \<Longrightarrow> st * n \<le> l \<Longrightarrow> y * st + w \<le> l" for y n st w l :: nat
  using mult_le_mono1[of "Suc y" n st] by (simp add: mult.commute)

lemma nv12_download_rows:
  assumes "w \<le> row_pitch" "row_pitch * (h + m) \<le> length mapped" "length nv12_buf = w * h + w * m" "m = h div 2"
  shows "\<exists>buf. nv12_download w h row_pitch mapped nv12_buf = Some buf \<and> length buf = w * h + w * m
    \<and> (\<forall>y<h. \<forall>j<w. buf ! (y * w + j) = mapped ! (y * row_pitch + j))
    \<and> (\<forall>y<m. \<forall>j<w. buf ! (w * h + y * w + j) = mapped ! (row_pitch * h + y * row_pitch + j))"
proof -
  have src: "y * row_pitch + w \<le> length mapped" if "y < h + m" for y using row_end[OF that assms(1,2)] .
  have src': "row_pitch * h + y * row_pitch + w \<le> length mapped" if "y < m" for y
    using src[of "h + y"] that by (simp add: algebra_simps)
  have dst: "y * w + w \<le> w * n" if "y < n" for y n using row_end[OF that, of w w "w * n"] by simp
  obtain b1 where b1: "copy_rows h w (\<lambda>y. y * row_pitch) (\<lambda>y. 0 + y * w) mapped nv12_buf = Some b1" "length b1 = length nv12_buf"
      "\<forall>y<h. \<forall>j<w. b1 ! (0 + y * w + j) = mapped ! (y * row_pitch + j)"
    using copy_rows_nth[of w w h 0 nv12_buf "\<lambda>y. y * row_pitch" mapped] dst[of _ h] src assms(3) by force
  obtain buf where buf: "copy_rows m w (\<lambda>y. row_pitch * h + y * row_pitch) (\<lambda>y. w * h + y * w) mapped b1 = Some buf"
      "length buf = length b1" "\<forall>y<m. \<forall>j<w. buf ! (w * h + y * w + j) = mapped ! (row_pitch * h + y * row_pitch + j)"
      "\<forall>i<w * h. buf ! i = b1 ! i"
    using copy_rows_nth[of w w m "w * h" b1 "\<lambda>y. row_pitch * h + y * row_pitch" mapped] dst[of _ m] src' assms(3) b1(2) by force
  have "buf ! (y * w + j) = mapped ! (y * row_pitch + j)" if "y < h" "j < w" for y j
  proof -
    have "y * w + j < w * h" using dst[OF that(1)] that(2) by linarith
    then show ?thesis using buf(4) b1(3) that by simp
  qed
  then show ?thesis using b1(1,2) buf(1-3) assms(3,4) by (simp add: nv12_download_def)
qed

lemma fill_picture_rows:
  assumes "length buf = w * h + w * m" "m = h div 2"
    and "w \<le> pc_stride0 blank" "pc_stride0 blank * h \<le> length (pc_plane0 blank)"
    and "w \<le> pc_stride1 blank" "pc_stride1 blank * m \<le> length (pc_plane1 blank)"
  shows "\<exists>pic. fill_picture w h buf blank = Some pic
    \<and> length (pc_plane0 pic) = length (pc_plane0 blank) \<and> length (pc_plane1 pic) = length (pc_plane1 blank)
    \<and> (\<forall>y<h. \<forall>j<w. pc_plane0 pic ! (y * pc_stride0 blank + j) = buf ! (y * w + j))
    \<and> (\<forall>y<m. \<forall>j<w. pc_plane1 pic ! (y * pc_stride1 blank + j) = buf ! (w * h + y * w + j))"
proof -
  have src: "y * w + w \<le> w * n" if "y < n" for y n using row_end[OF that, of w w "w * n"] by simp
  obtain p0 where p0: "copy_rows h w (\<lambda>y. y * w) (\<lambda>y. 0 + y * pc_stride0 blank) buf (pc_plane0 blank) = Some p0"
      "length p0 = length (pc_plane0 blank)" "\<forall>y<h. \<forall>j<w. p0 ! (0 + y * pc_stride0 blank + j) = buf ! (y * w + j)"
    using copy_rows_nth[of w "pc_stride0 blank" h 0 "pc_plane0 blank" "\<lambda>y. y * w" buf] src[of _ h] assms(1,3)
      row_end[OF _ assms(3,4)] by force
  obtain p1 where p1: "copy_rows m w (\<lambda>y. w * h + y * w) (\<lambda>y. 0 + y * pc_stride1 blank) buf (pc_plane1 blank) = Some p1"
      "length p1 = length (pc_plane1 blank)" "\<forall>y<m. \<forall>j<w. p1 ! (0 + y * pc_stride1 blank + j) = buf ! (w * h + y * w + j)"
    using copy_rows_nth[of w "pc_stride1 blank" m 0 "pc_plane1 blank" "\<lambda>y. w * h + y * w" buf] src[of _ m] assms(1,5)
      row_end[OF _ assms(5,6)] by force
  show ?thesis using p0 p1 assms(2) by (simp add: fill_picture_def)
qed

section \<open>Properties\<close>

text \<open>
  C33: the picture survives the copies. An NV12 texture with padded rows is downloaded into the packed buffer and copied into
  the encoder's picture, whose strides may differ: nothing is read or written out of range, the buffer has the size the
  encoder asks for, and every row of both planes of the picture is the texture's row.
\<close>

theorem picture_roundtrip:
  assumes "even h" "w \<le> row_pitch" "row_pitch * (h + h div 2) \<le> length mapped" "length nv12_buf = w * h + w * (h div 2)"
    and "w \<le> pc_stride0 blank" "pc_stride0 blank * h \<le> length (pc_plane0 blank)"
    and "w \<le> pc_stride1 blank" "pc_stride1 blank * (h div 2) \<le> length (pc_plane1 blank)"
  shows "\<exists>buf pic. nv12_download w h row_pitch mapped nv12_buf = Some buf \<and> length buf = w * h * 3 div 2
    \<and> fill_picture w h buf blank = Some pic
    \<and> (\<forall>y<h. row_at (pc_plane0 pic) (y * pc_stride0 blank) w = row_at mapped (y * row_pitch) w)
    \<and> (\<forall>y<h div 2. row_at (pc_plane1 pic) (y * pc_stride1 blank) w = row_at mapped (row_pitch * h + y * row_pitch) w)"
proof -
  obtain buf where buf: "nv12_download w h row_pitch mapped nv12_buf = Some buf" "length buf = w * h + w * (h div 2)"
    "\<forall>y<h. \<forall>j<w. buf ! (y * w + j) = mapped ! (y * row_pitch + j)"
    "\<forall>y<h div 2. \<forall>j<w. buf ! (w * h + y * w + j) = mapped ! (row_pitch * h + y * row_pitch + j)"
    using nv12_download_rows[OF assms(2-4) refl] by blast
  obtain pic where pic: "fill_picture w h buf blank = Some pic"
    "length (pc_plane0 pic) = length (pc_plane0 blank)" "length (pc_plane1 pic) = length (pc_plane1 blank)"
    "\<forall>y<h. \<forall>j<w. pc_plane0 pic ! (y * pc_stride0 blank + j) = buf ! (y * w + j)"
    "\<forall>y<h div 2. \<forall>j<w. pc_plane1 pic ! (y * pc_stride1 blank + j) = buf ! (w * h + y * w + j)"
    using fill_picture_rows[OF buf(2) refl assms(5-8)] by blast
  have src: "y * row_pitch + w \<le> length mapped" if "y < h + h div 2" for y using row_end[OF that assms(2,3)] .
  have "row_at (pc_plane0 pic) (y * pc_stride0 blank) w = row_at mapped (y * row_pitch) w" if "y < h" for y
    by (rule row_at_eq) (use that pic buf(3) src row_end[OF that assms(5,6)] in auto)
  moreover have "row_at (pc_plane1 pic) (y * pc_stride1 blank) w = row_at mapped (row_pitch * h + y * row_pitch) w" if "y < h div 2" for y
  proof (rule row_at_eq)
    show "row_pitch * h + y * row_pitch + w \<le> length mapped" using src[of "h + y"] that by (simp add: algebra_simps)
  qed (use that pic buf(4) row_end[OF that assms(7,8)] in auto)
  moreover have "w * h + w * (h div 2) = w * h * 3 div 2" using assms(1) by (auto elim!: evenE)
  ultimately show ?thesis using buf(1,2) pic(1) by auto
qed

text \<open>A two-by-two picture: texture rows of three bytes, picture rows of four and two.\<close>

theorem picture_roundtrip_witness:
  "\<exists>buf pic. nv12_download 2 2 3 [1, 2, 0, 3, 4, 0, 5, 6, 0] (replicate 6 0) = Some buf
    \<and> fill_picture 2 2 buf \<lparr>pc_stride0 = 4, pc_plane0 = replicate 8 9, pc_stride1 = 2, pc_plane1 = [9, 9]\<rparr> = Some pic
    \<and> row_at (pc_plane0 pic) 4 2 = [3, 4] \<and> pc_plane1 pic ! 0 = 5"
proof -
  let ?blank = "\<lparr>pc_stride0 = 4, pc_plane0 = replicate 8 9, pc_stride1 = 2, pc_plane1 = [9, 9]\<rparr> :: picture"
  obtain buf pic where r: "nv12_download 2 2 3 [1, 2, 0, 3, 4, 0, 5, 6, 0] (replicate 6 0) = Some buf"
      "fill_picture 2 2 buf ?blank = Some pic"
      "\<forall>y<2. row_at (pc_plane0 pic) (y * 4) 2 = row_at [1, 2, 0, 3, 4, 0, 5, 6, 0] (y * 3) 2"
      "\<forall>y<1. row_at (pc_plane1 pic) (y * 2) 2 = row_at [1, 2, 0, 3, 4, 0, 5, 6, 0] (3 * 2 + y * 3) 2"
    using picture_roundtrip[of 2 2 3 "[1, 2, 0, 3, 4, 0, 5, 6, 0]" "replicate 6 0" ?blank] by auto
  have "row_at (pc_plane0 pic) 4 2 = [3, 4]" using r(3)[rule_format, of 1] by simp
  moreover have "row_at (pc_plane1 pic) 0 2 = [5, 6]" using r(4)[rule_format, of 0] by simp
  then have "pc_plane1 pic ! 0 = 5" by (cases "pc_plane1 pic") auto
  ultimately show ?thesis using r(1,2) by blast
qed

text \<open>The guard below the size at which its products wrap.\<close>

lemma uint_times: "uint a * uint b < 2 ^ 32 \<Longrightarrow> uint (a * b) = uint a * uint b" for a b :: u32
  by (simp add: uint_word_ariths)

lemma abs_diff_uint: "uint (abs_diff a b) = \<bar>uint a - uint b\<bar>"
  by (simp add: abs_diff_def uint_sub_if' word_le_def)

text \<open>
  The encoder follows the bit-rate controller. As long as neither the present rate nor the target exceeds 42.9 Mbit/s, the
  zero-copy encoder is rebuilt for the target exactly when this is a cut to 1.2 Mbit/s or less, a cut by 15 percent at least two seconds
  after the last rebuild, or a rise by 40 percent at least eight seconds after it; otherwise, or if FFmpeg cannot open
  the new encoder, it is left as it is.
\<close>

theorem rebuild_policy:
  assumes "ze_bitrate e \<le> 42949672" "target \<le> 42949672"
  shows "zc_set_bitrate now opened target e =
    (if target < ze_bitrate e \<and> target \<le> 1200000
        \<or> target < ze_bitrate e \<and> 15 * uint (ze_bitrate e) \<le> 100 * (uint (ze_bitrate e) - uint target) \<and> millis 2000 \<le> now - ze_last_reconfig e
        \<or> ze_bitrate e \<le> target \<and> 40 * uint (ze_bitrate e) \<le> 100 * (uint target - uint (ze_bitrate e)) \<and> millis 8000 \<le> now - ze_last_reconfig e
     then (opened, if opened then e\<lparr>ze_bitrate := target, ze_last_reconfig := now\<rparr> else e)
     else (True, e))"
proof -
  let ?c = "ze_bitrate e"
  have b: "uint ?c \<le> 42949672" "uint target \<le> 42949672" "0 \<le> uint ?c" "0 \<le> uint target"
    using assms by (simp_all add: word_le_def)
  have "uint (abs_diff target ?c) \<le> 42949672" unfolding abs_diff_uint using b by linarith
  then have "uint (abs_diff target ?c * 100) = 100 * \<bar>uint target - uint ?c\<bar>"
    using uint_times[of "abs_diff target ?c" 100] by (simp add: abs_diff_uint)
  moreover have "uint (?c * 15) = 15 * uint ?c" "uint (?c * 40) = 40 * uint ?c"
    using uint_times[of ?c 15] uint_times[of ?c 40] b by simp_all
  moreover have "max 0 x div 1000000 < n \<longleftrightarrow> x < millis n" if "0 < n" for x n :: int using that by (auto simp: max_def)
  ultimately show ?thesis
    by (auto simp: zc_set_bitrate_def wants_rebuild_def Let_def word_le_def word_less_def)
qed

theorem rebuild_policy_witness:
  "zc_set_bitrate 9000000000 True 3000000 (zc_new 20000000 0) =
     (True, (zc_new 20000000 0)\<lparr>ze_bitrate := 3000000, ze_last_reconfig := 9000000000\<rparr>)
   \<and> zc_set_bitrate 7000000000 True 28000000 (zc_new 20000000 0) = (True, zc_new 20000000 0)"
  using rebuild_policy[of "zc_new 20000000 0" 3000000 9000000000 True] rebuild_policy[of "zc_new 20000000 0" 28000000 7000000000 True]
  by (simp add: zc_new_def)

text \<open>
  C40: above that size a large cut is ignored. An encoder at 60 Mbit/s, the rate the host chooses for a 4K stream at 120 frames
  per second, refuses in both implementations every target from 8.1 to 17 Mbit/s, however long ago it was rebuilt, because
  a hundred times the difference wraps around, although it accepts a target of 50 Mbit/s.
\<close>

theorem large_cut_ignored:
  assumes "8050328 \<le> target" "target \<le> 17050327"
  shows "(ze_bitrate z = 60000000 \<longrightarrow> zc_set_bitrate now opened target z = (True, z))
    \<and> (qe_bitrate q = 60000000 \<longrightarrow> qsv_set_bitrate now opened target q = (True, q))
    \<and> (ze_bitrate z = 60000000 \<and> millis 2000 \<le> now - ze_last_reconfig z
        \<longrightarrow> zc_set_bitrate now True 50000000 z = (True, z\<lparr>ze_bitrate := 50000000, ze_last_reconfig := now\<rparr>))"
proof -
  have t: "8050328 \<le> uint target" "uint target \<le> 17050327" using assms by (simp_all add: word_le_def)
  have d: "uint (abs_diff target 60000000) = 60000000 - uint target" unfolding abs_diff_uint using t by simp
  have "uint (abs_diff target 60000000 * 100) = (6000000000 - 100 * uint target) mod 4294967296"
    by (simp add: uint_word_ariths d mult.commute)
  also have "6000000000 - 100 * uint target = (1705032704 - 100 * uint target) + 1 * 4294967296" by simp
  also have "\<dots> mod 4294967296 = 1705032704 - 100 * uint target" using t by (subst mod_mult_self1) simp
  finally have "uint (abs_diff target 60000000 * 100) < 900000000" using t by simp
  then have refused: "\<not> wants_rebuild t0 t1 60000000 target" for t0 t1
    using t by (simp add: wants_rebuild_def Let_def word_le_def word_less_def)
  have "wants_rebuild t0 t1 60000000 50000000" if "millis 2000 \<le> t0 - t1" for t0 t1
    using that by (simp add: wants_rebuild_def Let_def abs_diff_def)
  then show ?thesis using refused by (simp add: zc_set_bitrate_def qsv_set_bitrate_def)
qed

theorem large_cut_ignored_witness:
  "zc_set_bitrate 3600000000000 True 10000000 (zc_new 60000000 0) = (True, zc_new 60000000 0)
   \<and> qsv_set_bitrate 3600000000000 True 10000000 (qsv_new 3840 2160 60000000 0) = (True, qsv_new 3840 2160 60000000 0)"
  using large_cut_ignored[of 10000000 "zc_new 60000000 0" 3600000000000 True "qsv_new 3840 2160 60000000 0"]
  by (simp add: zc_new_def qsv_new_def)

end
