(* ===== verification/Kmc_Capture.thy ===== *)
theory Kmc_Capture
  imports Kmc_Encoder Kmc_VideoTasks "HOL-Library.Sublist"
begin

text \<open>
  Live capture (\<^verbatim>\<open>kmc-streamhost/src/capture.rs\<close>): the capture callback and the encode thread. On the zero-copy path they share one
  texture guarded by a keyed mutex; on the RAM path a slot with a generation counter. Each thread is cut into
  steps where the other can run. A picture is its bytes; colour conversion on the GPU is the parameter \<open>conv\<close>.
\<close>

section \<open>The frame slot\<close>

record frame_slot =
  fs_inner :: "bytes option"
  fs_generation :: u64

definition slot_new :: frame_slot where
  "slot_new = \<lparr>fs_inner = None, fs_generation = 0\<rparr>"

definition slot_store :: "bytes \<Rightarrow> frame_slot \<Rightarrow> frame_slot" where
  "slot_store nv12 s = s\<lparr>fs_inner := Some nv12, fs_generation := fs_generation s + 1\<rparr>"

definition slot_load :: "frame_slot \<Rightarrow> (bytes \<times> u64) option" where
  "slot_load s = map_option (\<lambda>buf. (buf, fs_generation s)) (fs_inner s)"

text \<open>
  \<^verbatim>\<open>wait_new\<close> reads the slot as it is when the wait ends: at once if the generation has moved, otherwise after a
  notification or the timeout. \<open>must_wait\<close> says which.
\<close>

definition must_wait :: "u64 \<Rightarrow> frame_slot \<Rightarrow> bool" where
  "must_wait last_gen s \<longleftrightarrow> fs_generation s = last_gen"

section \<open>Which path the two threads take\<close>

text \<open>
  The capture callback offers the encode thread a shared texture with its first frame, at \<open>t_first\<close> after the
  encode thread began to wait, and waits five seconds for the answer; the encode thread waits ten seconds for the
  offer, sets up its device in \<open>t_setup\<close> and answers.
\<close>

datatype capture_mode = CaptureShared | CaptureRam
datatype encode_mode = EncodeExited | EncodeZeroCopy | EncodeRam

definition encode_thread :: "bool \<Rightarrow> instant \<Rightarrow> bool \<Rightarrow> encode_mode \<times> bool option" where
  "encode_thread offered t_first setup_ok =
     (if millis 10000 < t_first then (EncodeExited, None)
      else if \<not> offered then (EncodeRam, None)
      else if setup_ok then (EncodeZeroCopy, Some True)
      else (EncodeRam, Some False))"

definition first_frame_mode :: "bool \<Rightarrow> bool option \<Rightarrow> instant \<Rightarrow> capture_mode" where
  "first_frame_mode created answer t_setup =
     (if created \<and> answer = Some True \<and> t_setup \<le> millis 5000 then CaptureShared else CaptureRam)"

definition choose_modes :: "bool \<Rightarrow> instant \<Rightarrow> bool \<Rightarrow> instant \<Rightarrow> capture_mode \<times> encode_mode" where
  "choose_modes created t_first setup_ok t_setup =
     (let (em, answer) = encode_thread created t_first setup_ok in (first_frame_mode created answer t_setup, em))"

section \<open>The zero-copy path\<close>

definition KEY_CAPTURE :: nat where "KEY_CAPTURE = 0"
definition KEY_ENCODE :: nat where "KEY_ENCODE = 1"

text \<open>The keyed mutex of DXGI: it is released with a key, and only a thread that asks for this key acquires it.\<close>

datatype keyed_mutex = Released nat | Held

datatype capture_pc = CapIdle | CapWait bytes | CapCopy bytes | CapStopped
datatype encode_pc = EncTop | EncWait bool | EncCopy bool | EncHave bool bytes | EncStopped

text \<open>
  \<open>zp_shared\<close> is \<^term>\<open>None\<close> while the texture is being written or has never been; \<open>zp_offered\<close> are the frames the callback was
  called with.
\<close>

record zc_pipe =
  zp_mutex :: keyed_mutex
  zp_shared :: "bytes option"
  zp_cap :: capture_pc
  zp_enc :: encode_pc
  zp_encoder :: zc_encoder
  zp_bitrate :: bitrate_controller
  zp_stop :: bool
  zp_idr :: bool
  zp_active :: bool
  zp_frames :: u64
  zp_open :: bool
  zp_sent :: "encoded_frame list"
  zp_offered :: "bytes list"

definition zc_pipe_new :: "zc_encoder \<Rightarrow> bitrate_controller \<Rightarrow> zc_pipe" where
  "zc_pipe_new enc bc =
     \<lparr>zp_mutex = Released KEY_CAPTURE, zp_shared = None, zp_cap = CapIdle, zp_enc = EncTop, zp_encoder = enc, zp_bitrate = bc,
      zp_stop = False, zp_idr = False, zp_active = True, zp_frames = 0, zp_open = True, zp_sent = [], zp_offered = []\<rparr>"

datatype zc_event =
    CapFrame bytes | CapAcquire | CapTimeout | CapError | CapRelease
  | EncTurn instant bool | EncAcquire | EncTimeout | EncError | EncRelease | EncEncode u32 bool bool answer
  | AskIdr | AskStop | SetActive bool | CloseSink

definition cap_step :: "zc_event \<Rightarrow> zc_pipe \<Rightarrow> zc_pipe" where
  "cap_step e p =
     (case (e, zp_cap p) of
        (CapFrame f, CapIdle) \<Rightarrow>
          if zp_stop p then p\<lparr>zp_cap := CapStopped\<rparr> else p\<lparr>zp_cap := CapWait f, zp_offered := zp_offered p @ [f]\<rparr>
      | (CapAcquire, CapWait f) \<Rightarrow>
          if zp_mutex p = Released KEY_CAPTURE then p\<lparr>zp_mutex := Held, zp_cap := CapCopy f, zp_shared := None\<rparr> else p
      | (CapTimeout, CapWait f) \<Rightarrow> if zp_mutex p = Released KEY_CAPTURE then p else p\<lparr>zp_cap := CapIdle\<rparr>
      | (CapError, CapWait f) \<Rightarrow> p\<lparr>zp_cap := CapIdle\<rparr>
      | (CapRelease, CapCopy f) \<Rightarrow> p\<lparr>zp_shared := Some f, zp_mutex := Released KEY_ENCODE, zp_cap := CapIdle\<rparr>
      | _ \<Rightarrow> p)"

text \<open>
  The top of the encode loop: stop, idle, every thirtieth frame the bit rate, then the request for a key frame is taken
  and the thread waits for the mutex.
\<close>

definition zc_top :: "(rat \<Rightarrow> rat) \<Rightarrow> instant \<Rightarrow> bool \<Rightarrow> zc_pipe \<Rightarrow> zc_pipe" where
  "zc_top hp now opened p =
     (if zp_stop p then p\<lparr>zp_enc := EncStopped\<rparr>
      else if \<not> zp_active p then p
      else
        let p1 = (if zp_frames p mod 30 = 0 then
                    let (target, bc) = poll_target hp now (zp_bitrate p)
                    in if target \<noteq> 0
                       then p\<lparr>zp_bitrate := bc, zp_encoder := snd (zc_set_bitrate now opened (word_of_int target) (zp_encoder p))\<rparr>
                       else p\<lparr>zp_bitrate := bc\<rparr>
                  else p)
        in p1\<lparr>zp_idr := False, zp_enc := EncWait (zp_idr p1)\<rparr>)"

text \<open>
  Conversion and \<^verbatim>\<open>stage\<close> may fail (\<open>conv_ok\<close>, \<open>stage_ok\<close>), and so may the sending of a packet when the channel is closed.
\<close>

definition zc_encode :: "(bytes \<Rightarrow> bytes) \<Rightarrow> u32 \<Rightarrow> bool \<Rightarrow> bool \<Rightarrow> answer \<Rightarrow> bool \<Rightarrow> bytes \<Rightarrow> zc_pipe \<Rightarrow> zc_pipe" where
  "zc_encode conv rtp_ts conv_ok stage_ok ans idr local p =
     (if \<not> conv_ok then p\<lparr>zp_enc := EncTop\<rparr>
      else let staged = zc_stage stage_ok (conv local) (zp_encoder p)
      in if \<not> stage_ok then p\<lparr>zp_encoder := staged, zp_enc := EncTop\<rparr>
      else
        let p1 = p\<lparr>zp_encoder := zc_submit idr staged\<rparr>
        in case ans of
             Inl _ \<Rightarrow> p1\<lparr>zp_enc := EncTop, zp_frames := zp_frames p1 + 1\<rparr>
           | Inr packets \<Rightarrow>
               if packets \<noteq> [] \<and> \<not> zp_open p1 then p1\<lparr>zp_enc := EncStopped\<rparr>
               else p1\<lparr>zp_enc := EncTop, zp_frames := zp_frames p1 + 1,
                       zp_sent := zp_sent p1 @ map (\<lambda>(d, k). \<lparr>ef_data = d, ef_is_key_frame = k, ef_rtp_timestamp = rtp_ts\<rparr>) packets\<rparr>)"

definition enc_step :: "(rat \<Rightarrow> rat) \<Rightarrow> (bytes \<Rightarrow> bytes) \<Rightarrow> zc_event \<Rightarrow> zc_pipe \<Rightarrow> zc_pipe option" where
  "enc_step hp conv e p =
     (case (e, zp_enc p) of
        (EncTurn now opened, EncTop) \<Rightarrow> Some (zc_top hp now opened p)
      | (EncAcquire, EncWait idr) \<Rightarrow>
          Some (if zp_mutex p = Released KEY_ENCODE then p\<lparr>zp_mutex := Held, zp_enc := EncCopy idr\<rparr> else p)
      | (EncTimeout, EncWait idr) \<Rightarrow> Some (if zp_mutex p = Released KEY_ENCODE then p else p\<lparr>zp_enc := EncTop\<rparr>)
      | (EncError, EncWait idr) \<Rightarrow> Some (p\<lparr>zp_enc := EncTop\<rparr>)
      | (EncRelease, EncCopy idr) \<Rightarrow>
          map_option (\<lambda>f. p\<lparr>zp_enc := EncHave idr f, zp_mutex := Released KEY_CAPTURE\<rparr>) (zp_shared p)
      | (EncEncode ts conv_ok stage_ok ans, EncHave idr f) \<Rightarrow> Some (zc_encode conv ts conv_ok stage_ok ans idr f p)
      | _ \<Rightarrow> Some p)"

text \<open>One step of either thread, of the control channel, or of the tasks at the other ends. Copying a half-written texture is a failure.\<close>

definition zc_pipe_step :: "(rat \<Rightarrow> rat) \<Rightarrow> (bytes \<Rightarrow> bytes) \<Rightarrow> zc_event \<Rightarrow> zc_pipe \<Rightarrow> zc_pipe option" where
  "zc_pipe_step hp conv e p =
     (case e of
        AskIdr \<Rightarrow> Some (p\<lparr>zp_idr := True\<rparr>)
      | AskStop \<Rightarrow> Some (p\<lparr>zp_stop := True\<rparr>)
      | SetActive b \<Rightarrow> Some (p\<lparr>zp_active := b\<rparr>)
      | CloseSink \<Rightarrow> Some (p\<lparr>zp_open := False\<rparr>)
      | _ \<Rightarrow> enc_step hp conv e (cap_step e p))"

section \<open>The invariant of the shared texture\<close>

text \<open>The frames on their way to the encoder: in the shared texture when it is released to the encode thread or held by it, or in its local copy.\<close>

definition to_encode :: "zc_pipe \<Rightarrow> bytes list" where
  "to_encode p =
     (case zp_enc p of EncHave idr f \<Rightarrow> [f] | _ \<Rightarrow> []) @
     (if zp_mutex p = Released KEY_ENCODE \<or> (\<exists>idr. zp_enc p = EncCopy idr) then (case zp_shared p of Some f \<Rightarrow> [f] | None \<Rightarrow> []) else [])"

definition from_capture :: "zc_pipe \<Rightarrow> bytes list" where
  "from_capture p = (case zp_cap p of CapWait f \<Rightarrow> [f] | CapCopy f \<Rightarrow> [f] | _ \<Rightarrow> [])"

abbreviation pictures :: "zc_pipe \<Rightarrow> bytes option list" where
  "pictures p \<equiv> map fst (ze_sent (zp_encoder p))"

abbreviation as_pictures :: "(bytes \<Rightarrow> bytes) \<Rightarrow> bytes list \<Rightarrow> bytes option list" where
  "as_pictures conv fs \<equiv> map (\<lambda>f. Some (conv f)) fs"

definition zc_inv :: "(bytes \<Rightarrow> bytes) \<Rightarrow> zc_pipe \<Rightarrow> bool" where
  "zc_inv conv p \<longleftrightarrow>
     (zp_mutex p = Held) = ((\<exists>f. zp_cap p = CapCopy f) \<or> (\<exists>idr. zp_enc p = EncCopy idr))
     \<and> \<not> ((\<exists>f. zp_cap p = CapCopy f) \<and> (\<exists>idr. zp_enc p = EncCopy idr))
     \<and> (zp_mutex p = Released KEY_ENCODE \<or> (\<exists>idr. zp_enc p = EncCopy idr) \<longrightarrow> zp_shared p \<noteq> None)
     \<and> ze_ring_pos (zp_encoder p) < length (ze_ring (zp_encoder p))
     \<and> subseq (pictures p @ as_pictures conv (to_encode p @ from_capture p)) (as_pictures conv (zp_offered p))"

lemma keys_differ [simp]: "KEY_CAPTURE \<noteq> KEY_ENCODE" "KEY_ENCODE \<noteq> KEY_CAPTURE"
  by (simp_all add: KEY_CAPTURE_def KEY_ENCODE_def)


lemma subseq_more: "subseq xs ys \<Longrightarrow> subseq (xs @ [x]) (ys @ [x])"
  by (rule list_emb_append_mono) simp_all

lemma subseq_drop: "subseq (xs @ ys @ zs) ws \<Longrightarrow> subseq (xs @ zs) ws"
  by (erule subseq_order.trans[rotated]) (intro list_emb_append_mono subseq_drop_many subseq_order.refl)

lemma subseq_drop_end: "subseq (xs @ ys) ws \<Longrightarrow> subseq xs ws"
  using subseq_drop[of xs ys "[]" ws] by simp

lemma zc_top_keeps:
  "ze_sent (zp_encoder (zc_top hp now opened p)) = ze_sent (zp_encoder p)"
  "ze_ring (zp_encoder (zc_top hp now opened p)) = ze_ring (zp_encoder p)"
  "ze_ring_pos (zp_encoder (zc_top hp now opened p)) = ze_ring_pos (zp_encoder p)"
  "zp_mutex (zc_top hp now opened p) = zp_mutex p" "zp_shared (zc_top hp now opened p) = zp_shared p"
  "zp_cap (zc_top hp now opened p) = zp_cap p" "zp_offered (zc_top hp now opened p) = zp_offered p"
  "zp_enc (zc_top hp now opened p) \<in> {EncStopped, zp_enc p, EncWait (zp_idr p)}"
  by (auto simp: zc_top_def Let_def zc_set_bitrate_def split: prod.split)

lemma to_encode_simps [simp]:
  "to_encode (p\<lparr>zp_cap := c\<rparr>) = to_encode p" "to_encode (p\<lparr>zp_offered := fs\<rparr>) = to_encode p"
  by (simp_all add: to_encode_def)

lemma from_capture_simps [simp]:
  "zp_cap p = CapIdle \<Longrightarrow> from_capture p = []" "zp_cap p = CapStopped \<Longrightarrow> from_capture p = []"
  "zp_cap p = CapWait f \<Longrightarrow> from_capture p = [f]" "zp_cap p = CapCopy f \<Longrightarrow> from_capture p = [f]"
  by (simp_all add: from_capture_def)

lemma zc_invI:
  assumes "zc_inv conv p" "zp_encoder q = zp_encoder p" "zp_offered q = zp_offered p" "to_encode q @ from_capture q = to_encode p @ from_capture p"
    and "(zp_mutex q = Held) = ((\<exists>f. zp_cap q = CapCopy f) \<or> (\<exists>idr. zp_enc q = EncCopy idr))"
    and "\<not> ((\<exists>f. zp_cap q = CapCopy f) \<and> (\<exists>idr. zp_enc q = EncCopy idr))"
    and "zp_mutex q = Released KEY_ENCODE \<or> (\<exists>idr. zp_enc q = EncCopy idr) \<longrightarrow> zp_shared q \<noteq> None"
  shows "zc_inv conv q"
  using assms by (simp add: zc_inv_def)

lemma zc_inv_offer:
  assumes "zc_inv conv p" "zp_cap p = CapIdle"
  shows "zc_inv conv (p\<lparr>zp_cap := CapWait f, zp_offered := zp_offered p @ [f]\<rparr>)"
  using assms subseq_more[of "pictures p @ as_pictures conv (to_encode p)" "as_pictures conv (zp_offered p)" "Some (conv f)"]
  by (simp add: zc_inv_def)

lemma zc_inv_skip:
  assumes "zc_inv conv p" "zp_cap p = CapWait f"
  shows "zc_inv conv (p\<lparr>zp_cap := CapIdle\<rparr>)"
  using assms subseq_drop_end[of "pictures p @ as_pictures conv (to_encode p)" "[Some (conv f)]" "as_pictures conv (zp_offered p)"]
  by (simp add: zc_inv_def)

lemma zc_top_form:
  assumes "\<not> zp_stop p" "zp_active p"
  shows "\<exists>B E. zc_top hp now opened p = p\<lparr>zp_bitrate := B, zp_encoder := E, zp_idr := False, zp_enc := EncWait (zp_idr p)\<rparr>
    \<and> ze_sent E = ze_sent (zp_encoder p) \<and> ze_ring E = ze_ring (zp_encoder p) \<and> ze_ring_pos E = ze_ring_pos (zp_encoder p)"
proof -
  have "\<exists>B E. zc_top hp now opened p = p\<lparr>zp_bitrate := B, zp_encoder := E, zp_idr := False, zp_enc := EncWait (zp_idr p)\<rparr>"
    using assms by (cases p) (auto simp: zc_top_def Let_def split: prod.split)
  then obtain B E where e: "zc_top hp now opened p = p\<lparr>zp_bitrate := B, zp_encoder := E, zp_idr := False, zp_enc := EncWait (zp_idr p)\<rparr>"
    by blast
  then have "E = zp_encoder (zc_top hp now opened p)" by simp
  then show ?thesis using e zc_top_keeps[of hp now opened p] by blast
qed

lemma cap_step_inv:
  assumes "zc_inv conv p"
  shows "zc_inv conv (cap_step e p)"
proof (cases "zp_cap p")
  case CapIdle
  have "zc_inv conv (p\<lparr>zp_cap := CapStopped\<rparr>)" using assms CapIdle by (intro zc_invI[OF assms]) (simp_all add: zc_inv_def)
  then show ?thesis using assms CapIdle zc_inv_offer by (cases e) (auto simp: cap_step_def)
next
  case (CapWait f)
  have "zc_inv conv (p\<lparr>zp_mutex := Held, zp_cap := CapCopy f, zp_shared := None\<rparr>)" if "zp_mutex p = Released KEY_CAPTURE"
    using assms CapWait that by (intro zc_invI[OF assms]) (auto simp: zc_inv_def to_encode_def split: encode_pc.split)
  then show ?thesis using assms CapWait zc_inv_skip by (cases e) (auto simp: cap_step_def)
next
  case (CapCopy f)
  have "zc_inv conv (p\<lparr>zp_shared := Some f, zp_mutex := Released KEY_ENCODE, zp_cap := CapIdle\<rparr>)"
    using assms CapCopy by (intro zc_invI[OF assms]) (auto simp: zc_inv_def to_encode_def split: encode_pc.split)
  then show ?thesis using assms CapCopy by (cases e) (auto simp: cap_step_def)
next
  case CapStopped
  then show ?thesis using assms by (cases e) (auto simp: cap_step_def)
qed

lemma zc_inv_top: "zc_inv conv p \<Longrightarrow> zp_enc p = EncTop \<Longrightarrow> zc_inv conv (zc_top hp now opened p)"
  using zc_top_keeps[of hp now opened p]
  by (auto simp: zc_inv_def to_encode_def from_capture_def split: encode_pc.split)

lemma zc_inv_encode:
  assumes "zc_inv conv p" "zp_enc p = EncHave idr f"
  shows "zc_inv conv (zc_encode conv ts conv_ok stage_ok ans idr f p)"
proof -
  define rest where "rest = (if zp_mutex p = Released KEY_ENCODE then (case zp_shared p of Some f \<Rightarrow> [f] | None \<Rightarrow> []) else [])"
  have t: "to_encode p = f # rest" using assms(2) by (simp add: to_encode_def rest_def)
  have sub: "subseq (pictures p @ as_pictures conv (f # rest @ from_capture p)) (as_pictures conv (zp_offered p))"
    using assms(1) t by (simp add: zc_inv_def)
  have drop: "subseq (pictures p @ as_pictures conv (rest @ from_capture p)) (as_pictures conv (zp_offered p))"
    using subseq_drop[of "pictures p" "[Some (conv f)]"] sub by simp
  have step: "zc_inv conv q" if "zp_mutex q = zp_mutex p" "zp_shared q = zp_shared p" "zp_cap q = zp_cap p" "zp_offered q = zp_offered p"
      "zp_enc q \<in> {EncTop, EncStopped}" "ze_ring_pos (zp_encoder q) < length (ze_ring (zp_encoder q))"
      "pictures q = pictures p \<or> pictures q = pictures p @ [Some (conv f)]" for q
  proof -
    have "to_encode q = rest" "from_capture q = from_capture p" using that by (auto simp: to_encode_def rest_def from_capture_def)
    then show ?thesis using assms that sub drop by (auto simp: zc_inv_def)
  qed
  have pos: "ze_ring_pos (zp_encoder p) < length (ze_ring (zp_encoder p))" using assms(1) by (simp add: zc_inv_def)
  then have "(ze_ring_pos (zp_encoder p) + 1) mod length (ze_ring (zp_encoder p)) < length (ze_ring (zp_encoder p))"
    by (intro mod_less_divisor) linarith
  then show ?thesis using pos
    by (auto simp: zc_encode_def zc_stage_def zc_submit_def Let_def split: sum.split intro!: step)
qed

lemma enc_step_inv:
  assumes "zc_inv conv p"
  shows "\<exists>q. enc_step hp conv e p = Some q \<and> zc_inv conv q"
proof (cases "zp_enc p")
  case EncTop
  then show ?thesis using assms zc_inv_top by (cases e) (auto simp: enc_step_def)
next
  case (EncWait idr)
  have "zc_inv conv (p\<lparr>zp_enc := EncTop\<rparr>)" using assms EncWait
    by (intro zc_invI[OF assms]) (auto simp: zc_inv_def to_encode_def from_capture_def)
  moreover have "zc_inv conv (p\<lparr>zp_mutex := Held, zp_enc := EncCopy idr\<rparr>)" if "zp_mutex p = Released KEY_ENCODE"
    using assms EncWait that by (intro zc_invI[OF assms]) (auto simp: zc_inv_def to_encode_def from_capture_def)
  ultimately show ?thesis using assms EncWait by (cases e) (auto simp: enc_step_def)
next
  case (EncCopy idr)
  then obtain f where f: "zp_shared p = Some f" using assms by (auto simp: zc_inv_def)
  have "zc_inv conv (p\<lparr>zp_enc := EncHave idr f, zp_mutex := Released KEY_CAPTURE\<rparr>)"
    using assms EncCopy f by (intro zc_invI[OF assms]) (auto simp: zc_inv_def to_encode_def from_capture_def)
  then show ?thesis using assms EncCopy f by (cases e) (auto simp: enc_step_def)
next
  case (EncHave idr f)
  then show ?thesis using assms zc_inv_encode by (cases e) (auto simp: enc_step_def)
next
  case EncStopped
  then show ?thesis using assms by (cases e) (auto simp: enc_step_def)
qed

lemma zc_pipe_step_inv: "zc_inv conv p \<Longrightarrow> \<exists>q. zc_pipe_step hp conv e p = Some q \<and> zc_inv conv q"
  using enc_step_inv[OF cap_step_inv, of conv p hp e]
  by (cases e) (auto simp: zc_pipe_step_def zc_inv_def to_encode_def from_capture_def)

interpretation zc: step_invariant "zc_pipe_step hp conv" "zc_inv conv" for hp conv
  by unfold_locales (rule zc_pipe_step_inv)

lemma zc_inv_new: "zc_inv conv (zc_pipe_new (zc_new bps now) bc)"
  by (simp add: zc_inv_def zc_pipe_new_def zc_new_def to_encode_def from_capture_def RING_SIZE_def)

section \<open>Properties of the zero-copy path\<close>

text \<open>
  C18: whatever the order in which the capture callback, the encode thread and the rest of the host run, the encode thread never copies
  a texture that is unwritten or half written, the mutex is never held by both, and the pictures handed to the encoder are
  the captured frames, converted, in the order of their capture, none of them twice (frames may be skipped).
\<close>

theorem zero_copy_in_order:
  "\<exists>p. run_steps (zc_pipe_step hp conv) es (zc_pipe_new (zc_new bps now) bc) = Some p
    \<and> subseq (map fst (ze_sent (zp_encoder p))) (map (\<lambda>f. Some (conv f)) (zp_offered p))
    \<and> \<not> ((\<exists>f. zp_cap p = CapCopy f) \<and> (\<exists>idr. zp_enc p = EncCopy idr))"
proof -
  obtain p where p: "run_steps (zc_pipe_step hp conv) es (zc_pipe_new (zc_new bps now) bc) = Some p" "zc_inv conv p"
    using zc.run_inv[OF zc_inv_new, of hp conv es bps now bc] by blast
  then have "subseq (pictures p) (as_pictures conv (zp_offered p))" using subseq_drop_end unfolding zc_inv_def by blast
  then show ?thesis using p unfolding zc_inv_def by blast
qed

text \<open>
  A request for a key frame can get lost. When the client asks for a key frame while the screen does not change, the encode thread takes the
  request, times out waiting for a frame and forgets it: the next frame is encoded without being forced to be
  a key frame, and nothing remembers the request.
\<close>

theorem idr_request_lost:
  "\<exists>p. run_steps (zc_pipe_step hp conv)
      ([AskIdr, EncTurn t opened, EncTimeout, CapFrame f, CapAcquire, CapRelease] @
       [EncTurn t' opened', EncAcquire, EncRelease] @ [EncEncode ts True True (Inr [(nal, False)])])
      (zc_pipe_new (zc_new bps now) bc) = Some p
    \<and> ze_sent (zp_encoder p) = [(Some (conv f), False)] \<and> \<not> zp_idr p
    \<and> zp_sent p = [\<lparr>ef_data = nal, ef_is_key_frame = False, ef_rtp_timestamp = ts\<rparr>]"
proof -
  let ?step = "zc_pipe_step hp conv"
  define p0 where "p0 = (zc_pipe_new (zc_new bps now) bc)\<lparr>zp_idr := True\<rparr>"
  obtain B1 E1 where 1: "zc_top hp t opened p0 = p0\<lparr>zp_bitrate := B1, zp_encoder := E1, zp_idr := False, zp_enc := EncWait True\<rparr>"
      "ze_sent E1 = []" "ze_ring E1 = replicate RING_SIZE None" "ze_ring_pos E1 = 0"
    using zc_top_form[of p0 hp t opened] by (auto simp: p0_def zc_pipe_new_def zc_new_def)
  define p1 where "p1 = p0\<lparr>zp_bitrate := B1, zp_encoder := E1, zp_idr := False, zp_mutex := Released KEY_ENCODE, zp_shared := Some f,
    zp_offered := [f]\<rparr>"
  have r1: "run_steps ?step [AskIdr, EncTurn t opened, EncTimeout, CapFrame f, CapAcquire, CapRelease] (zc_pipe_new (zc_new bps now) bc) = Some p1"
    using 1(1) by (simp add: zc_pipe_step_def enc_step_def cap_step_def zc_pipe_new_def p0_def p1_def)
  obtain B2 E2 where 2: "zc_top hp t' opened' p1 = p1\<lparr>zp_bitrate := B2, zp_encoder := E2, zp_idr := False, zp_enc := EncWait False\<rparr>"
      "ze_sent E2 = []" "ze_ring E2 = replicate RING_SIZE None" "ze_ring_pos E2 = 0"
    using zc_top_form[of p1 hp t' opened'] 1(2-4) by (auto simp: p1_def p0_def zc_pipe_new_def)
  define p2 where "p2 = p1\<lparr>zp_bitrate := B2, zp_encoder := E2, zp_idr := False, zp_mutex := Released KEY_CAPTURE, zp_enc := EncHave False f\<rparr>"
  have r2: "run_steps ?step [EncTurn t' opened', EncAcquire, EncRelease] p1 = Some p2"
    using 2(1) by (simp add: zc_pipe_step_def enc_step_def cap_step_def p2_def p1_def p0_def zc_pipe_new_def)
  have "\<exists>p. run_steps ?step [EncEncode ts True True (Inr [(nal, False)])] p2 = Some p
      \<and> ze_sent (zp_encoder p) = [(Some (conv f), False)] \<and> \<not> zp_idr p
      \<and> zp_sent p = [\<lparr>ef_data = nal, ef_is_key_frame = False, ef_rtp_timestamp = ts\<rparr>]"
    using 2(2-4) by (simp add: zc_pipe_step_def enc_step_def cap_step_def p2_def p1_def p0_def zc_pipe_new_def zc_encode_def Let_def
        zc_stage_def zc_submit_def RING_SIZE_def)
  then show ?thesis unfolding run_steps_append r1 r2 Option.bind.bind_lunit .
qed

text \<open>
  The two threads agree on the path exactly when the set-up is quick. Both choose the shared texture, or both the slot,
  unless the first frame comes later than ten seconds (the encode thread has gone) or an otherwise successful set-up takes longer than five: then the
  callback fills the slot while the encode thread waits for the texture, and no frame is ever encoded.
\<close>

theorem modes_agree:
  "choose_modes created t_first setup_ok t_setup \<in> {(CaptureShared, EncodeZeroCopy), (CaptureRam, EncodeRam)}
   \<longleftrightarrow> t_first \<le> millis 10000 \<and> (created \<and> setup_ok \<longrightarrow> t_setup \<le> millis 5000)"
  by (auto simp: choose_modes_def encode_thread_def first_frame_mode_def)

end
