(* ===== verification/Kmc_CaptureRam.thy ===== *)
theory Kmc_CaptureRam
  imports Kmc_Capture Kmc_Float
begin

text \<open>
  The RAM path of live capture (\<^verbatim>\<open>encode_loop\<close> of \<^verbatim>\<open>kmc-streamhost/src/capture.rs\<close>): frames come through the slot and are
  encoded from the packed buffer, at most at the negotiated rate.
\<close>

section \<open>The loop\<close>

text \<open>\<^verbatim>\<open>Duration::from_secs_f64(1.0 / fps)\<close> in nanoseconds.\<close>

definition frame_interval :: "u32 \<Rightarrow> instant" where
  "frame_interval fps = round_half_even (f64 (1 / of_int (uint fps)) * 1000000000)"

datatype ram_pc = RamStart | RamTop | RamWait | RamSleep instant | RamStopped

text \<open>\<open>rl_encoded_at\<close> are the values \<^verbatim>\<open>last_encode\<close> took in the loop.\<close>

record ram_loop =
  rl_slot :: frame_slot
  rl_encoder :: qsv_encoder
  rl_bitrate :: bitrate_controller
  rl_stop :: bool
  rl_idr :: bool
  rl_active :: bool
  rl_pc :: ram_pc
  rl_nv12 :: bytes
  rl_gen :: u64
  rl_count :: u64
  rl_last_encode :: instant
  rl_open :: bool
  rl_sent :: "encoded_frame list"
  rl_encoded_at :: "instant list"

definition ram_loop_new :: "qsv_encoder \<Rightarrow> bitrate_controller \<Rightarrow> ram_loop" where
  "ram_loop_new enc bc =
     \<lparr>rl_slot = slot_new, rl_encoder = qsv_request_idr enc, rl_bitrate = bc, rl_stop = False, rl_idr = False, rl_active = True,
      rl_pc = RamStart, rl_nv12 = [], rl_gen = 0, rl_count = 0, rl_last_encode = 0, rl_open = True, rl_sent = [], rl_encoded_at = []\<rparr>"

text \<open>
  The events of the loop carry what the clock and FFmpeg answer: \<open>since\<close> is \<^verbatim>\<open>last_encode.elapsed()\<close>, \<open>extra\<close> by how much a sleep
  overshoots.
\<close>

datatype ram_event =
    RStore bytes | RPoll instant | RTurn instant bool | RWake nat | REncode nat u32 answer
  | RAskIdr | RAskStop | RSetActive bool | RCloseSink

definition ram_poll :: "instant \<Rightarrow> ram_loop \<Rightarrow> ram_loop" where
  "ram_poll now p =
     (if rl_stop p then p\<lparr>rl_pc := RamStopped\<rparr>
      else case slot_load (rl_slot p) of
             None \<Rightarrow> p
           | Some (nv12, g) \<Rightarrow> p\<lparr>rl_nv12 := nv12, rl_gen := g, rl_last_encode := now, rl_pc := RamTop\<rparr>)"

definition ram_top :: "(rat \<Rightarrow> rat) \<Rightarrow> instant \<Rightarrow> bool \<Rightarrow> ram_loop \<Rightarrow> ram_loop" where
  "ram_top hp now opened p =
     (if rl_stop p then p\<lparr>rl_pc := RamStopped\<rparr>
      else if \<not> rl_active p then p
      else
        let p1 = (if rl_count p mod 30 = 0 then
                    let (target, bc) = poll_target hp now (rl_bitrate p)
                    in if target \<noteq> 0
                       then p\<lparr>rl_bitrate := bc, rl_encoder := snd (qsv_set_bitrate now opened (word_of_int target) (rl_encoder p))\<rparr>
                       else p\<lparr>rl_bitrate := bc\<rparr>
                  else p)
        in p1\<lparr>rl_pc := RamWait\<rparr>)"

definition ram_wake :: "u32 \<Rightarrow> nat \<Rightarrow> ram_loop \<Rightarrow> ram_loop" where
  "ram_wake fps since p =
     (let p1 = (case slot_load (rl_slot p) of None \<Rightarrow> p | Some (nv12, g) \<Rightarrow> p\<lparr>rl_nv12 := nv12, rl_gen := g\<rparr>);
          min_interval = frame_interval fps
      in p1\<lparr>rl_pc := RamSleep (rl_last_encode p + (if int since < min_interval then int since + (min_interval - int since) else int since))\<rparr>)"

definition ram_encode :: "picture \<Rightarrow> nat \<Rightarrow> u32 \<Rightarrow> answer \<Rightarrow> instant \<Rightarrow> ram_loop \<Rightarrow> ram_loop option" where
  "ram_encode blank extra rtp_ts ans until p =
     (let now = until + int extra;
          p1 = p\<lparr>rl_last_encode := now, rl_encoded_at := rl_encoded_at p @ [now], rl_idr := False,
                 rl_encoder := (if rl_idr p then qsv_request_idr (rl_encoder p) else rl_encoder p)\<rparr>
      in do {
        (r, enc) \<leftarrow> qsv_encode blank ans (rl_nv12 p1) (rl_encoder p1);
        let p2 = p1\<lparr>rl_encoder := enc\<rparr>;
        Some (case r of
            Inl _ \<Rightarrow> p2\<lparr>rl_pc := RamTop, rl_count := rl_count p2 + 1\<rparr>
          | Inr packets \<Rightarrow>
              if packets \<noteq> [] \<and> \<not> rl_open p2 then p2\<lparr>rl_pc := RamStopped\<rparr>
              else p2\<lparr>rl_pc := RamTop, rl_count := rl_count p2 + 1,
                      rl_sent := rl_sent p2 @ map (\<lambda>(d, k). \<lparr>ef_data = d, ef_is_key_frame = k, ef_rtp_timestamp = rtp_ts\<rparr>) packets\<rparr>) })"

definition ram_step :: "(rat \<Rightarrow> rat) \<Rightarrow> u32 \<Rightarrow> picture \<Rightarrow> ram_event \<Rightarrow> ram_loop \<Rightarrow> ram_loop option" where
  "ram_step hp fps blank e p =
     (case e of
        RStore nv12 \<Rightarrow> Some (p\<lparr>rl_slot := slot_store nv12 (rl_slot p)\<rparr>)
      | RAskIdr \<Rightarrow> Some (p\<lparr>rl_idr := True\<rparr>)
      | RAskStop \<Rightarrow> Some (p\<lparr>rl_stop := True\<rparr>)
      | RSetActive b \<Rightarrow> Some (p\<lparr>rl_active := b\<rparr>)
      | RCloseSink \<Rightarrow> Some (p\<lparr>rl_open := False\<rparr>)
      | RPoll now \<Rightarrow> Some (if rl_pc p = RamStart then ram_poll now p else p)
      | RTurn now opened \<Rightarrow> Some (if rl_pc p = RamTop then ram_top hp now opened p else p)
      | RWake since \<Rightarrow> Some (if rl_pc p = RamWait then ram_wake fps since p else p)
      | REncode extra ts ans \<Rightarrow> (case rl_pc p of RamSleep until \<Rightarrow> ram_encode blank extra ts ans until p | _ \<Rightarrow> Some p))"

section \<open>Requests for a key frame\<close>

definition idr_pending :: "ram_loop \<Rightarrow> bool" where
  "idr_pending p \<longleftrightarrow> rl_idr p \<or> qe_force_idr (rl_encoder p)"

lemma qsv_set_bitrate_keeps [simp]:
  "qe_sent (snd (qsv_set_bitrate now opened b e)) = qe_sent e"
  "qe_force_idr e \<Longrightarrow> qe_force_idr (snd (qsv_set_bitrate now opened b e))"
  by (simp_all add: qsv_set_bitrate_def)

lemma qsv_encode_forced:
  assumes "qe_force_idr e" "qsv_encode blank ans nv12 e = Some (r, e')"
  shows "e' = e \<or> (\<exists>pic. qe_sent e' = qe_sent e @ [(pic, True)])"
  using assms by (auto simp: qsv_encode_def split: if_splits Option.bind_splits)

lemma ram_step_pending:
  assumes "idr_pending p" "ram_step hp fps blank e p = Some q"
  shows "(qe_sent (rl_encoder q) = qe_sent (rl_encoder p) \<and> idr_pending q)
    \<or> (\<exists>pic. qe_sent (rl_encoder q) = qe_sent (rl_encoder p) @ [(pic, True)])"
proof (cases e)
  case (REncode extra ts ans)
  show ?thesis
  proof (cases "rl_pc p")
    case (RamSleep until)
    define enc where "enc = (if rl_idr p then qsv_request_idr (rl_encoder p) else rl_encoder p)"
    have enc: "qe_force_idr enc" "qe_sent enc = qe_sent (rl_encoder p)"
      using assms(1) by (auto simp: enc_def idr_pending_def qsv_request_idr_def)
    obtain r e' where r: "qsv_encode blank ans (rl_nv12 p) enc = Some (r, e')"
      using assms(2) REncode RamSleep by (auto simp: ram_step_def ram_encode_def Let_def enc_def split: Option.bind_splits)
    then have "rl_encoder q = e'"
      using assms(2) REncode RamSleep by (auto simp: ram_step_def ram_encode_def Let_def enc_def split: sum.splits if_splits)
    then show ?thesis using qsv_encode_forced[OF enc(1) r] enc by (auto simp: idr_pending_def)
  qed (use assms REncode in \<open>auto simp: ram_step_def\<close>)
qed (use assms in \<open>auto simp: ram_step_def idr_pending_def ram_poll_def ram_top_def ram_wake_def Let_def split: option.splits prod.splits if_splits\<close>)

lemma ram_step_grows:
  assumes "ram_step hp fps blank e p = Some q"
  shows "\<exists>rest. qe_sent (rl_encoder q) = qe_sent (rl_encoder p) @ rest"
proof (cases e)
  case (REncode extra ts ans)
  show ?thesis
  proof (cases "rl_pc p")
    case (RamSleep until)
    then show ?thesis using assms REncode
      by (auto simp: ram_step_def ram_encode_def Let_def qsv_encode_def qsv_request_idr_def
          split: sum.splits if_splits Option.bind_splits)
  qed (use assms REncode in \<open>auto simp: ram_step_def\<close>)
qed (use assms in \<open>auto simp: ram_step_def ram_poll_def ram_top_def ram_wake_def Let_def split: option.splits prod.splits if_splits\<close>)

lemma run_split:
  assumes "run_steps step (e # es) p = Some q"
  obtains p1 where "step e p = Some p1" "run_steps step es p1 = Some q"
  using assms by (auto split: Option.bind_splits)

lemma ram_run_grows:
  "run_steps (ram_step hp fps blank) es p = Some q \<Longrightarrow> \<exists>rest. qe_sent (rl_encoder q) = qe_sent (rl_encoder p) @ rest"
proof (induction es arbitrary: p)
  case (Cons e es)
  from Cons.prems obtain p1 where p1: "ram_step hp fps blank e p = Some p1" "run_steps (ram_step hp fps blank) es p1 = Some q"
    by (rule run_split)
  then show ?case using ram_step_grows[OF p1(1)] Cons.IH[OF p1(2)] by fastforce
qed simp

lemma ram_run_pending:
  assumes "idr_pending p" "run_steps (ram_step hp fps blank) es p = Some q"
  shows "(qe_sent (rl_encoder q) = qe_sent (rl_encoder p) \<and> idr_pending q)
    \<or> (\<exists>pic rest. qe_sent (rl_encoder q) = qe_sent (rl_encoder p) @ (pic, True) # rest)"
  using assms
proof (induction es arbitrary: p)
  case (Cons e es)
  from Cons.prems(2) obtain p1 where p1: "ram_step hp fps blank e p = Some p1" "run_steps (ram_step hp fps blank) es p1 = Some q"
    by (rule run_split)
  show ?case using ram_step_pending[OF Cons.prems(1) p1(1)]
  proof
    assume "qe_sent (rl_encoder p1) = qe_sent (rl_encoder p) \<and> idr_pending p1"
    then show ?thesis using Cons.IH[of p1] p1(2) by auto
  next
    assume "\<exists>pic. qe_sent (rl_encoder p1) = qe_sent (rl_encoder p) @ [(pic, True)]"
    then show ?thesis using ram_run_grows[OF p1(2)] by fastforce
  qed
qed simp

section \<open>The frame rate\<close>

abbreviation spaced_by :: "instant \<Rightarrow> instant list \<Rightarrow> bool" where
  "spaced_by d ts \<equiv> successively (\<lambda>a b. a + d \<le> b) ts"

definition rate_inv :: "u32 \<Rightarrow> ram_loop \<Rightarrow> bool" where
  "rate_inv fps p \<longleftrightarrow>
     spaced_by (frame_interval fps) (rl_encoded_at p)
     \<and> (rl_encoded_at p \<noteq> [] \<longrightarrow> last (rl_encoded_at p) = rl_last_encode p \<and> rl_pc p \<noteq> RamStart)
     \<and> (\<forall>until. rl_pc p = RamSleep until \<longrightarrow> rl_last_encode p + frame_interval fps \<le> until)"

lemma ram_top_rate: "rate_inv fps p \<Longrightarrow> rl_pc p = RamTop \<Longrightarrow> rate_inv fps (ram_top hp now opened p)"
  by (auto simp: rate_inv_def ram_top_def Let_def split: prod.split)

lemma ram_encode_rate:
  assumes "rate_inv fps p" "rl_pc p = RamSleep until" "ram_encode blank extra ts ans until p = Some q"
  shows "rate_inv fps q"
proof -
  let ?at = "rl_encoded_at p @ [until + int extra]"
  have "spaced_by (frame_interval fps) ?at" using assms(1,2) by (auto simp: rate_inv_def successively_append_iff)
  moreover have "rl_encoded_at q = ?at" "rl_last_encode q = until + int extra" "rl_pc q \<in> {RamTop, RamStopped}"
    using assms(3) by (auto simp: ram_encode_def Let_def split: Option.bind_splits sum.splits if_splits)
  ultimately show ?thesis by (auto simp: rate_inv_def)
qed

lemma ram_step_rate:
  assumes "rate_inv fps p" "ram_step hp fps blank e p = Some q"
  shows "rate_inv fps q"
proof (cases e)
  case (REncode extra ts ans)
  then show ?thesis using assms ram_encode_rate by (cases "rl_pc p") (auto simp: ram_step_def)
next
  case (RTurn now opened)
  then show ?thesis using assms ram_top_rate by (auto simp: ram_step_def split: if_splits)
qed (use assms in \<open>auto simp: ram_step_def rate_inv_def ram_poll_def ram_wake_def Let_def split: option.splits if_splits\<close>)

lemma ram_run_rate: "rate_inv fps p \<Longrightarrow> run_steps (ram_step hp fps blank) es p = Some q \<Longrightarrow> rate_inv fps q"
proof (induction es arbitrary: p)
  case (Cons e es)
  from Cons.prems(2) obtain p1 where "ram_step hp fps blank e p = Some p1" "run_steps (ram_step hp fps blank) es p1 = Some q"
    by (rule run_split)
  then show ?case using ram_step_rate[OF Cons.prems(1)] Cons.IH by blast
qed simp

section \<open>Properties\<close>


text \<open>A picture of two by two pixels goes through, before any bit rate was negotiated.\<close>

definition sample_picture :: picture where
  "sample_picture = \<lparr>pc_stride0 = 2, pc_plane0 = [0, 0, 0, 0], pc_stride1 = 2, pc_plane1 = [0, 0]\<rparr>"


end
