(* ===== verification/Kmc_Strings.thy ===== *)
theory Kmc_Strings
  imports Complex_Main Kmc_Prelude
begin

text \<open>
  The string functions of the standard library that the text protocols use: \<^verbatim>\<open>split_whitespace\<close>, \<^verbatim>\<open>parse\<close>
  for integers, \<^verbatim>\<open>split\<close> at a character, and what printing followed by parsing gives. Strings are ASCII.
\<close>

section \<open>Numbers\<close>

definition digit_val :: "char \<Rightarrow> nat option" where
  "digit_val c = (let n = (of_char c :: nat) in if 48 \<le> n \<and> n \<le> 57 then Some (n - 48) else None)"

fun digits_val :: "nat \<Rightarrow> string \<Rightarrow> nat option" where
  "digits_val acc [] = Some acc"
| "digits_val acc (c # cs) = (case digit_val c of None \<Rightarrow> None | Some d \<Rightarrow> digits_val (acc * 10 + d) cs)"

definition parse_nat :: "string \<Rightarrow> nat option" where
  "parse_nat s = (if s = [] then None else digits_val 0 s)"

text \<open>\<^verbatim>\<open>parse::<u_>()\<close>: an optional plus sign, at least one digit, nothing else, and no overflow.\<close>

definition strip_sign :: "char \<Rightarrow> string \<Rightarrow> string option" where
  "strip_sign c s = (case s of [] \<Rightarrow> None | d # t \<Rightarrow> if d = c then Some t else None)"

definition parse_uint :: "int \<Rightarrow> string \<Rightarrow> nat option" where
  "parse_uint mx s =
     (case parse_nat (case strip_sign (CHR ''+'') s of Some t \<Rightarrow> t | None \<Rightarrow> s) of
        Some n \<Rightarrow> if int n \<le> mx then Some n else None
      | None \<Rightarrow> None)"

definition parse_int :: "int \<Rightarrow> int \<Rightarrow> string \<Rightarrow> int option" where
  "parse_int lo hi s =
     (case (case strip_sign (CHR ''-'') s of
              Some t \<Rightarrow> map_option (\<lambda>n. - int n) (parse_nat t)
            | None \<Rightarrow> map_option int (parse_nat (case strip_sign (CHR ''+'') s of Some t \<Rightarrow> t | None \<Rightarrow> s))) of
        Some i \<Rightarrow> if lo \<le> i \<and> i \<le> hi then Some i else None
      | None \<Rightarrow> None)"

definition show_int :: "int \<Rightarrow> string" where
  "show_int i = (if i < 0 then ''-'' @ show_nat (nat (- i)) else show_nat (nat i))"

abbreviation parse_i32 :: "string \<Rightarrow> int option" where "parse_i32 \<equiv> parse_int (- (2 ^ 31)) (2 ^ 31 - 1)"
abbreviation parse_i16 :: "string \<Rightarrow> int option" where "parse_i16 \<equiv> parse_int (- (2 ^ 15)) (2 ^ 15 - 1)"
abbreviation parse_u8 :: "string \<Rightarrow> nat option" where "parse_u8 \<equiv> parse_uint 255"
abbreviation parse_u16 :: "string \<Rightarrow> nat option" where "parse_u16 \<equiv> parse_uint 65535"
abbreviation parse_u32 :: "string \<Rightarrow> nat option" where "parse_u32 \<equiv> parse_uint 4294967295"

lemma digits_val_append: "digits_val a (xs @ ys) = Option.bind (digits_val a xs) (\<lambda>b. digits_val b ys)"
  by (induction a xs rule: digits_val.induct) (auto split: option.split)

lemma digit_val_digit: "n < 10 \<Longrightarrow> digit_val (digit n) = Some n"
  by (simp add: digit_val_def digit_def Let_def take_bit_nat_eq_self)

lemma show_nat_nonempty [simp]: "show_nat n \<noteq> []"
  by (subst show_nat.simps) simp

lemma digits_val_show [simp]: "digits_val 0 (show_nat n) = Some n"
proof (induction n rule: show_nat.induct)
  case (1 n)
  then show ?case
    by (cases "n < 10") (simp_all add: show_nat.simps[of n] digits_val_append digit_val_digit)
qed

lemma parse_nat_show [simp]: "parse_nat (show_nat n) = Some n"
  by (simp add: parse_nat_def)

lemma show_nat_chars: "c \<in> set (show_nat n) \<Longrightarrow> \<exists>d<10. c = digit d"
proof (induction n rule: show_nat.induct)
  case (1 n)
  show ?case
  proof (cases "n < 10")
    case True
    then show ?thesis using "1.prems" by (auto simp: show_nat.simps[of n])
  next
    case False
    then have "c \<in> set (show_nat (n div 10)) \<or> c = digit (n mod 10)" using "1.prems" by (auto simp: show_nat.simps[of n])
    moreover have "n mod 10 < 10" by simp
    ultimately show ?thesis using "1.IH"[OF False] by blast
  qed
qed

lemma digit_cases: "d < 10 \<Longrightarrow> digit d \<in> set ''0123456789''"
  by (auto simp: digit_def less_Suc_eq numeral_eq_Suc) code_simp+

lemma show_nat_no_space: "\<forall>c\<in>set (show_nat n). \<not> is_space c"
proof
  fix c assume "c \<in> set (show_nat n)"
  then obtain d where "d < 10" "c = digit d" using show_nat_chars by blast
  then have "c \<in> set ''0123456789''" using digit_cases by blast
  then show "\<not> is_space c" by (auto simp: is_space_def)
qed

lemma show_nat_no_sign: "strip_sign (CHR ''+'') (show_nat n) = None" "strip_sign (CHR ''-'') (show_nat n) = None"
proof -
  have "hd (show_nat n) \<in> set ''0123456789''"
    using show_nat_chars[of "hd (show_nat n)" n] digit_cases hd_in_set[of "show_nat n"] by (metis show_nat_nonempty)
  then show "strip_sign (CHR ''+'') (show_nat n) = None" "strip_sign (CHR ''-'') (show_nat n) = None"
    by (cases "show_nat n"; auto simp: strip_sign_def)+
qed

lemma parse_uint_show [simp]: "parse_uint mx (show_nat n) = (if int n \<le> mx then Some n else None)"
  by (simp add: parse_uint_def show_nat_no_sign)

lemma parse_int_show [simp]: "parse_int lo hi (show_int i) = (if lo \<le> i \<and> i \<le> hi then Some i else None)"
proof (cases "i < 0")
  case True
  have "strip_sign (CHR ''-'') (CHR ''-'' # show_nat (nat (- i))) = Some (show_nat (nat (- i)))" by (simp add: strip_sign_def)
  then show ?thesis using True by (simp add: parse_int_def show_int_def)
qed (simp add: parse_int_def show_int_def show_nat_no_sign)

lemma show_int_no_space: "\<forall>c\<in>set (show_int i). \<not> is_space c"
  using show_nat_no_space by (auto simp: show_int_def is_space_def)

lemma show_int_nonempty [simp]: "show_int i \<noteq> []"
  by (simp add: show_int_def)

section \<open>Splitting\<close>

function split_ws :: "string \<Rightarrow> string list" where
  "split_ws s =
     (case dropWhile is_space s of
        [] \<Rightarrow> []
      | c # cs \<Rightarrow> (c # takeWhile (\<lambda>x. \<not> is_space x) cs) # split_ws (dropWhile (\<lambda>x. \<not> is_space x) cs))"
  by pat_completeness auto
termination
proof (relation "measure length")
  fix s :: string and c cs assume "dropWhile is_space s = c # cs"
  then have "length (dropWhile (\<lambda>x. \<not> is_space x) cs) < length (dropWhile is_space s)"
    using length_dropWhile_le[of "\<lambda>x. \<not> is_space x" cs] by simp
  also have "\<dots> \<le> length s" by (rule length_dropWhile_le)
  finally show "(dropWhile (\<lambda>x. \<not> is_space x) cs, s) \<in> measure length" by simp
qed simp

declare split_ws.simps [simp del]

lemma split_ws_Nil [simp]: "split_ws [] = []" by (simp add: split_ws.simps)

lemma split_ws_space [simp]: "is_space c \<Longrightarrow> split_ws (c # s) = split_ws s"
  by (subst (1 2) split_ws.simps) simp

lemma split_ws_word:
  assumes "w \<noteq> []" "\<forall>c\<in>set w. \<not> is_space c" "is_space sp"
  shows "split_ws (w @ sp # rest) = w # split_ws rest"
proof -
  obtain c cs where w: "w = c # cs" using assms(1) by (cases w) auto
  have "takeWhile (\<lambda>x. \<not> is_space x) (cs @ sp # rest) = cs" "dropWhile (\<lambda>x. \<not> is_space x) (cs @ sp # rest) = sp # rest"
    using assms(2,3) w by (simp_all add: takeWhile_append2 dropWhile_append2)
  then show ?thesis using assms(2,3) w by (subst split_ws.simps) simp
qed

lemma split_ws_last:
  assumes "w \<noteq> []" "\<forall>c\<in>set w. \<not> is_space c"
  shows "split_ws w = [w]"
proof -
  obtain c cs where w: "w = c # cs" using assms(1) by (cases w) auto
  have t: "takeWhile (\<lambda>x. \<not> is_space x) cs = cs" "dropWhile (\<lambda>x. \<not> is_space x) cs = []"
    using assms(2) w by (simp_all add: takeWhile_eq_all_conv)
  show ?thesis using assms(2) w by (subst split_ws.simps) (simp add: t)
qed

text \<open>Words joined by single blanks, as \<^verbatim>\<open>format!\<close> puts them together.\<close>

fun unwords :: "string list \<Rightarrow> string" where
  "unwords [] = []"
| "unwords [w] = w"
| "unwords (w # ws) = w @ CHR '' '' # unwords ws"

lemma split_unwords:
  "\<forall>w\<in>set ws. w \<noteq> [] \<and> (\<forall>c\<in>set w. \<not> is_space c) \<Longrightarrow> split_ws (unwords ws) = ws"
proof (induction ws rule: unwords.induct)
  case (3 w v ws)
  have "is_space (CHR '' '')" by (simp add: is_space_def)
  then show ?case using 3 by (simp add: split_ws_word)
qed (simp_all add: split_ws_last)

text \<open>\<^verbatim>\<open>split(c)\<close>.\<close>

fun split_char :: "char \<Rightarrow> string \<Rightarrow> string list" where
  "split_char c [] = [[]]"
| "split_char c (x # xs) = (if x = c then [] # split_char c xs
     else (case split_char c xs of [] \<Rightarrow> [[x]] | p # ps \<Rightarrow> (x # p) # ps))"

lemma split_char_nonempty [simp]: "split_char c s \<noteq> []"
  by (induction c s rule: split_char.induct) (auto split: list.split)

lemma split_char_none: "c \<notin> set s \<Longrightarrow> split_char c s = [s]"
  by (induction c s rule: split_char.induct) auto

lemma split_char_append: "c \<notin> set s \<Longrightarrow> split_char c (s @ c # t) = s # split_char c t"
  by (induction s) (auto split: list.split)

text \<open>\<^verbatim>\<open>split_once(c)\<close>.\<close>

definition split_first :: "char \<Rightarrow> string \<Rightarrow> (string \<times> string) option" where
  "split_first c s = (case dropWhile (\<lambda>x. x \<noteq> c) s of [] \<Rightarrow> None | _ # r \<Rightarrow> Some (takeWhile (\<lambda>x. x \<noteq> c) s, r))"

lemma split_first_append: "c \<notin> set n \<Longrightarrow> split_first c (n @ c # v) = Some (n, v)"
proof -
  assume "c \<notin> set n"
  then have "\<forall>x\<in>set n. x \<noteq> c" by auto
  then have "takeWhile (\<lambda>x. x \<noteq> c) (n @ c # v) = n" "dropWhile (\<lambda>x. x \<noteq> c) (n @ c # v) = c # v"
    by (simp_all add: takeWhile_append2 dropWhile_append2)
  then show ?thesis by (simp add: split_first_def)
qed


text \<open>\<^verbatim>\<open>find\<close> of a needle, as the text behind its first occurrence; the digits at the start of a text.\<close>

fun after :: "string \<Rightarrow> string \<Rightarrow> string option" where
  "after needle s =
     (if take (length needle) s = needle then Some (drop (length needle) s)
      else case s of [] \<Rightarrow> None | c # cs \<Rightarrow> after needle cs)"

declare after.simps [simp del]

lemma after_prefix [simp]: "after needle (needle @ s) = Some s"
  by (subst after.simps) simp

definition is_digit :: "char \<Rightarrow> bool" where
  "is_digit c \<longleftrightarrow> digit_val c \<noteq> None"

definition leading_digits :: "string \<Rightarrow> string" where
  "leading_digits s = takeWhile is_digit s"

lemma leading_digits_show:
  assumes "s = [] \<or> \<not> is_digit (hd s)"
  shows "leading_digits (show_nat n @ s) = show_nat n"
proof -
  have "\<forall>c\<in>set (show_nat n). is_digit c"
    using show_nat_chars digit_val_digit by (fastforce simp: is_digit_def)
  then show ?thesis using assms by (cases s) (auto simp: leading_digits_def takeWhile_append takeWhile_eq_all_conv)
qed

end
