(* ===== verification/Kmc_Session.thy ===== *)
theory Kmc_Session
  imports Complex_Main Kmc_Prelude
begin

text \<open>
  The session that \<^verbatim>\<open>/launch\<close> opens and the RTSP and control servers read
  (\<^verbatim>\<open>kmc-streamhost/src/session.rs\<close>), and the AEAD cipher both ends of the control channel use
  (\<^verbatim>\<open>kmc-streamhost/src/crypto.rs\<close>).
\<close>

section \<open>The launch session\<close>

record launch_session =
  ls_remote_input_key :: bytes
  ls_remote_input_key_id :: int
  ls_width :: u32
  ls_height :: u32
  ls_refresh_rate :: u32

type_synonym session_state = "launch_session option"

definition session_new :: session_state where "session_new = None"
definition session_set :: "launch_session \<Rightarrow> session_state \<Rightarrow> session_state" where "session_set l s = Some l"
definition session_is_active :: "session_state \<Rightarrow> bool" where "session_is_active s = (s \<noteq> None)"
definition session_get :: "session_state \<Rightarrow> launch_session option" where "session_get s = s"
definition session_clear :: "session_state \<Rightarrow> session_state" where "session_clear s = None"

section \<open>AES-GCM\<close>

text \<open>
  The cipher of the crate \<^verbatim>\<open>aes-gcm\<close>: key, nonce and plaintext give the ciphertext followed by the 16-byte
  tag; decryption takes that and fails when the tag does not match. \<open>gcm_ok\<close> is what the crate documents:
  encryption works for every plaintext of reasonable size, appends exactly a tag, and decryption inverts it.
\<close>

record gcm =
  gcm_encrypt :: "bytes \<Rightarrow> bytes \<Rightarrow> bytes \<Rightarrow> bytes option"
  gcm_decrypt :: "bytes \<Rightarrow> bytes \<Rightarrow> bytes \<Rightarrow> bytes option"

definition gcm_ok :: "gcm \<Rightarrow> bool" where
  "gcm_ok g \<longleftrightarrow>
     (\<forall>k n p. length p < 2 ^ 32 \<longrightarrow>
        (\<exists>s. gcm_encrypt g k n p = Some s \<and> length s = length p + 16 \<and> gcm_decrypt g k n s = Some p))"

lemma gcm_okD:
  assumes "gcm_ok g" "length p < 2 ^ 32"
  obtains s where "gcm_encrypt g k n p = Some s" "length s = length p + 16" "gcm_decrypt g k n s = Some p"
  using assms unfolding gcm_ok_def by blast

definition aes_gcm_encrypt :: "gcm \<Rightarrow> bytes \<Rightarrow> bytes \<Rightarrow> bytes \<Rightarrow> (bytes \<times> bytes) option" where
  "aes_gcm_encrypt g plaintext k iv =
     map_option (\<lambda>ct. (take (length ct - 16) ct, drop (length ct - 16) ct)) (gcm_encrypt g k iv plaintext)"

definition aes_gcm_decrypt :: "gcm \<Rightarrow> bytes \<Rightarrow> bytes \<Rightarrow> bytes \<Rightarrow> bytes \<Rightarrow> bytes option" where
  "aes_gcm_decrypt g ciphertext k iv tag = gcm_decrypt g k iv (ciphertext @ tag)"

lemma aes_gcm_roundtrip:
  assumes "gcm_ok g" "length p < 2 ^ 32"
  shows "\<exists>ct tag. aes_gcm_encrypt g p k iv = Some (ct, tag) \<and> length ct = length p \<and> length tag = 16
    \<and> aes_gcm_decrypt g ct k iv tag = Some p"
proof -
  obtain s where "gcm_encrypt g k iv p = Some s" "length s = length p + 16" "gcm_decrypt g k iv s = Some p"
    using gcm_okD[OF assms] .
  then show ?thesis by (simp add: aes_gcm_encrypt_def aes_gcm_decrypt_def)
qed

text \<open>
  A stand-in cipher that meets \<^term>\<open>gcm_ok\<close>: the plaintext masked with the first key and nonce bytes, and a tag built from
  key and nonce.
\<close>

definition mask_tag :: "bytes \<Rightarrow> bytes \<Rightarrow> bytes" where
  "mask_tag k n = take 16 (k @ replicate 16 0)"

definition mask_gcm :: gcm where
  "mask_gcm =
     \<lparr>gcm_encrypt = (\<lambda>k n p. Some (map (\<lambda>b. b + sum_list (n @ k)) p @ mask_tag k n)),
      gcm_decrypt = (\<lambda>k n s. if length s < 16 \<or> drop (length s - 16) s \<noteq> mask_tag k n then None
                             else Some (map (\<lambda>b. b - sum_list (n @ k)) (take (length s - 16) s)))\<rparr>"

lemma mask_gcm_ok: "gcm_ok mask_gcm"
proof -
  have "length (mask_tag k n) = 16" for k n by (simp add: mask_tag_def)
  then show ?thesis by (simp add: gcm_ok_def mask_gcm_def comp_def)
qed

end
