(* ===== verification/Kmc_Rtsp.thy ===== *)
theory Kmc_Rtsp
  imports Complex_Main Kmc_Strings Kmc_Session
begin

text \<open>
  Stream negotiation over RTSP: the host's server (\<^verbatim>\<open>kmc-streamhost/src/rtsp.rs\<close>) and the client's handshake
  (\<^verbatim>\<open>kmc-moonclient/src/rtsp.rs\<close>). The crates \<^verbatim>\<open>rtsp-types\<close> and \<^verbatim>\<open>sdp-types\<close> are parameters: \<open>wire\<close> turns what the
  client sends into the request the server parses, \<open>sdp\<close> parses a session description.
\<close>

section \<open>The server\<close>

record stream_ports =
  sp_video :: u16
  sp_audio :: u16
  sp_control :: u16

definition stream_ports_default :: stream_ports where
  "stream_ports_default = \<lparr>sp_video = 47998, sp_audio = 48000, sp_control = 47999\<rparr>"

record stream_context =
  sc_width :: u32
  sc_height :: u32
  sc_fps :: u32
  sc_packet_size :: u32
  sc_bitrate_bps :: u32
  sc_video_format :: u32

definition stream_context_default :: stream_context where
  "stream_context_default =
     \<lparr>sc_width = 0, sc_height = 0, sc_fps = 0, sc_packet_size = 0, sc_bitrate_bps = 0, sc_video_format = 0\<rparr>"

text \<open>\<open>rs_played\<close> are the contexts the play hook was called with.\<close>

record rtsp_server =
  rs_ports :: stream_ports
  rs_context :: "stream_context option"
  rs_session :: session_state
  rs_hook :: bool
  rs_played :: "stream_context list"

datatype rtsp_method = OPTIONS | DESCRIBE | SETUP | ANNOUNCE | PLAY | OtherMethod string

record rtsp_request =
  rq_method :: rtsp_method
  rq_cseq :: "string option"
  rq_query :: "(string \<times> string) list"
  rq_body :: string

record rtsp_response =
  rp_status :: nat
  rp_cseq :: string
  rp_session :: "string option"
  rp_transport :: "string option"
  rp_public :: "string option"
  rp_body :: string

type_synonym sdp_parser = "string \<Rightarrow> (string \<rightharpoonup> string) option"

definition rtsp_new :: "stream_ports \<Rightarrow> session_state \<Rightarrow> rtsp_server" where
  "rtsp_new ports session = \<lparr>rs_ports = ports, rs_context = None, rs_session = session, rs_hook = False, rs_played = []\<rparr>"

definition set_play_hook :: "rtsp_server \<Rightarrow> rtsp_server" where
  "set_play_hook s = s\<lparr>rs_hook := True\<rparr>"

definition rtsp_resp :: "int \<Rightarrow> nat \<Rightarrow> rtsp_response" where
  "rtsp_resp cseq status =
     \<lparr>rp_status = status, rp_cseq = show_int cseq, rp_session = None, rp_transport = None, rp_public = None, rp_body = ''''\<rparr>"

definition rtsp_options :: "int \<Rightarrow> rtsp_response" where
  "rtsp_options cseq = (rtsp_resp cseq 200)\<lparr>rp_public := Some ''OPTIONS DESCRIBE SETUP PLAY ANNOUNCE''\<rparr>"

definition LF :: string where "LF = [CHR 0x0A]"
definition CRLF :: string where "CRLF = [CHR 0x0D, CHR 0x0A]"

definition describe_sdp :: string where
  "describe_sdp =
     ''a=x-ss-general.featureFlags:2'' @ LF @ ''a=x-ss-general.encryptionSupported:1'' @ LF
     @ ''a=x-ss-general.encryptionRequested:1'' @ LF @ ''sprop-parameter-sets=AAAAAU'' @ LF
     @ ''a=x-nv-video[0].refPicInvalidation:1'' @ LF @ ''a=fmtp:96 packetization-mode=1'' @ LF"

definition describe :: "int \<Rightarrow> rtsp_response" where
  "describe cseq = (rtsp_resp cseq 200)\<lparr>rp_body := describe_sdp\<rparr>"

definition rtsp_setup :: "rtsp_request \<Rightarrow> int \<Rightarrow> rtsp_server \<Rightarrow> rtsp_response" where
  "rtsp_setup req cseq s =
     (let stream = (case find (\<lambda>kv. fst kv = ''streamid'') (rq_query req) of
                      Some (_, v) \<Rightarrow> hd (split_char (CHR ''/'') v)
                    | None \<Rightarrow> '''');
          port = (if stream = ''video'' then Some (sp_video (rs_ports s))
                  else if stream = ''audio'' then Some (sp_audio (rs_ports s))
                  else if stream = ''control'' then Some (sp_control (rs_ports s))
                  else None)
      in case port of
           None \<Rightarrow> rtsp_resp cseq 400
         | Some p \<Rightarrow> (rtsp_resp cseq 200)\<lparr>rp_session := Some ''KmcSession;timeout = 90'',
                                          rp_transport := Some (''server_port='' @ show_nat (unat p))\<rparr>)"

definition sdp_attr :: "(string \<rightharpoonup> string) \<Rightarrow> string \<Rightarrow> u32 option" where
  "sdp_attr sdp attr = Option.bind (map_option trim (sdp attr)) (\<lambda>s. map_option of_nat (parse_u32 s))"

definition saturating_mul_u32 :: "u32 \<Rightarrow> u32 \<Rightarrow> u32" where
  "saturating_mul_u32 a b = (if uint a * uint b \<le> 4294967295 then a * b else 4294967295)"

definition announce :: "sdp_parser \<Rightarrow> rtsp_request \<Rightarrow> int \<Rightarrow> rtsp_server \<Rightarrow> rtsp_response \<times> rtsp_server" where
  "announce sdp_parse req cseq s =
     (case sdp_parse (rq_body req) of
        None \<Rightarrow> (rtsp_resp cseq 400, s)
      | Some sdp \<Rightarrow>
          let ctx = \<lparr>sc_width = or_default 0 (sdp_attr sdp ''x-nv-video[0].clientViewportWd''),
                     sc_height = or_default 0 (sdp_attr sdp ''x-nv-video[0].clientViewportHt''),
                     sc_fps = or_default 60 (sdp_attr sdp ''x-nv-video[0].maxFPS''),
                     sc_packet_size = or_default 1024 (sdp_attr sdp ''x-nv-video[0].packetSize''),
                     sc_bitrate_bps = saturating_mul_u32 (or_default 10000 (sdp_attr sdp ''x-ml-video.configuredBitrateKbps'')) 1000,
                     sc_video_format = or_default 0 (sdp_attr sdp ''x-nv-vqos[0].bitStreamFormat'')\<rparr>
          in (rtsp_resp cseq 200, s\<lparr>rs_context := Some ctx\<rparr>))"

definition play :: "int \<Rightarrow> rtsp_server \<Rightarrow> rtsp_response \<times> rtsp_server" where
  "play cseq s =
     (let ctx = or_default stream_context_default (rs_context s)
      in (rtsp_resp cseq 200, if rs_hook s then s\<lparr>rs_played := rs_played s @ [ctx]\<rparr> else s))"

text \<open>The answer to a parsed request: none without an active session.\<close>

definition handle_connection :: "sdp_parser \<Rightarrow> rtsp_request \<Rightarrow> rtsp_server \<Rightarrow> rtsp_response option \<times> rtsp_server" where
  "handle_connection sdp_parse req s =
     (if \<not> session_is_active (rs_session s) then (None, s)
      else
        let cseq = or_default 0 (Option.bind (rq_cseq req) parse_i32)
        in case rq_method req of
             OPTIONS \<Rightarrow> (Some (rtsp_options cseq), s)
           | DESCRIBE \<Rightarrow> (Some (describe cseq), s)
           | SETUP \<Rightarrow> (Some (rtsp_setup req cseq s), s)
           | ANNOUNCE \<Rightarrow> (case announce sdp_parse req cseq s of (r, s1) \<Rightarrow> (Some r, s1))
           | PLAY \<Rightarrow> (case play cseq s of (r, s1) \<Rightarrow> (Some r, s1))
           | OtherMethod _ \<Rightarrow> (Some (rtsp_resp cseq 400), s))"

text \<open>
  Reading a request: after each chunk the non-standard targets are rewritten and the text so far is parsed. \<open>parse\<close> is the
  parser of \<^verbatim>\<open>rtsp-types\<close>; an empty chunk is the end of the connection.
\<close>

fun replace_go :: "string \<Rightarrow> string \<Rightarrow> nat \<Rightarrow> string \<Rightarrow> string" where
  "replace_go needle repl k [] = []"
| "replace_go needle repl (Suc k) (c # cs) = replace_go needle repl k cs"
| "replace_go needle repl 0 (c # cs) =
     (if take (length needle) (c # cs) = needle then repl @ replace_go needle repl (length needle - 1) cs
      else c # replace_go needle repl 0 cs)"

definition rtsp_fix :: "string \<Rightarrow> string" where
  "rtsp_fix raw =
     replace_go ''PLAY /'' ''PLAY rtsp://localhost/'' 0 (replace_go ''streamid'' ''rtsp://localhost?streamid'' 0 raw)"

datatype rtsp_message = Request rtsp_request | NoRequest

datatype parse_outcome = Parsed rtsp_message | Incomplete | ParseFailed

fun read_message :: "(string \<Rightarrow> parse_outcome) \<Rightarrow> string \<Rightarrow> string list \<Rightarrow> rtsp_message option" where
  "read_message parse raw [] = None"
| "read_message parse raw (chunk # chunks) =
     (if chunk = '''' then None
      else case parse (rtsp_fix (raw @ chunk)) of
        Parsed msg \<Rightarrow> Some msg
      | Incomplete \<Rightarrow> read_message parse (raw @ chunk) chunks
      | ParseFailed \<Rightarrow> None)"

definition serve_connection ::
  "(string \<Rightarrow> parse_outcome) \<Rightarrow> sdp_parser \<Rightarrow> string list \<Rightarrow> rtsp_server \<Rightarrow> rtsp_response option \<times> rtsp_server" where
  "serve_connection parse sdp_parse chunks s =
     (if \<not> session_is_active (rs_session s) then (None, s)
      else case read_message parse '''' chunks of
        None \<Rightarrow> (None, s)
      | Some (Request req) \<Rightarrow> handle_connection sdp_parse req s
      | Some NoRequest \<Rightarrow> (Some (rtsp_resp 0 400), s))"

lemma replace_go_absent: "after needle s = None \<Longrightarrow> replace_go needle repl 0 s = s"
proof (induction s)
  case (Cons c cs)
  have "take (length needle) (c # cs) \<noteq> needle" "after needle cs = None"
    using Cons.prems by (subst (asm) after.simps; auto split: if_splits)+
  then show ?case using Cons.IH by simp
qed simp

lemma serve_connection_inactive:
  "\<not> session_is_active (rs_session s) \<Longrightarrow> serve_connection parse sdp_parse chunks s = (None, s)"
  by (simp add: serve_connection_def)

section \<open>The client\<close>

record stream_cfg =
  cfg_width :: u32
  cfg_height :: u32
  cfg_fps :: u32
  cfg_bitrate_kbps :: u32
  cfg_packet_size :: u32
  cfg_video_format :: u32

record rtsp_negotiated =
  rn_video_port :: u16
  rn_audio_port :: u16
  rn_control_port :: u16

datatype rtsp_error = EncryptedRtsp | EnetRtsp | BadScheme | NoResponse | BadStatus nat | BadRequestLine

definition starts_with :: "string \<Rightarrow> string \<Rightarrow> bool" where
  "starts_with p s \<longleftrightarrow> take (length p) s = p"

definition resolve_target_url :: "string \<Rightarrow> u16 \<Rightarrow> string \<Rightarrow> rtsp_error + string" where
  "resolve_target_url host_ip rtsp_port session_url =
     (let url = trim session_url
      in if url = '''' then Inr (''rtsp://'' @ host_ip @ '':'' @ show_nat (unat rtsp_port))
         else if starts_with ''rtspenc://'' url then Inl EncryptedRtsp
         else if starts_with ''rtspru://'' url then Inl EnetRtsp
         else if \<not> starts_with ''rtsp://'' url then Inl BadScheme
         else Inr url)"

definition RTSP_CLIENT_VERSION :: nat where "RTSP_CLIENT_VERSION = 14"
definition CONTROL_STREAM_ID :: string where "CONTROL_STREAM_ID = ''streamid=control/13/0''"
definition PLAY_TARGET :: string where "PLAY_TARGET = ''/''"
definition SS_ENC_CONTROL_V2 :: u32 where "SS_ENC_CONTROL_V2 = 1"

text \<open>What the client sends; \<open>wire\<close> stands for serialisation and parsing by \<^verbatim>\<open>rtsp-types\<close>.\<close>

record rtsp_out =
  ro_method :: rtsp_method
  ro_target :: string
  ro_cseq :: nat
  ro_host :: string
  ro_session :: "string option"
  ro_extra :: "(string \<times> string) list"
  ro_body :: string

record rtsp_client =
  rc_host_ip :: string
  rc_target_url :: string
  rc_cseq :: nat
  rc_session_id :: "string option"

definition rtsp_client_new :: "string \<Rightarrow> string \<Rightarrow> rtsp_client" where
  "rtsp_client_new host_ip url = \<lparr>rc_host_ip = host_ip, rc_target_url = url, rc_cseq = 1, rc_session_id = None\<rparr>"

definition encode_request :: "rtsp_method \<Rightarrow> string \<Rightarrow> (string \<times> string) list \<Rightarrow> string \<Rightarrow> rtsp_client \<Rightarrow> rtsp_out \<times> rtsp_client" where
  "encode_request method target extra body c =
     (\<lparr>ro_method = method, ro_target = target, ro_cseq = rc_cseq c, ro_host = rc_host_ip c, ro_session = rc_session_id c,
       ro_extra = extra, ro_body = body\<rparr>, c\<lparr>rc_cseq := rc_cseq c + 1\<rparr>)"

text \<open>The request line of a serialised request with its target put in place of the placeholder.\<close>

fun split_crlf :: "string \<Rightarrow> (string \<times> string) option" where
  "split_crlf [] = None"
| "split_crlf (c # cs) =
     (if take 2 (c # cs) = CRLF then Some ([], c # cs) else map_option (\<lambda>(l, r). (c # l, r)) (split_crlf cs))"

definition rewrite_request_target :: "string \<Rightarrow> string \<Rightarrow> string option" where
  "rewrite_request_target wire target =
     Option.bind (split_crlf wire) (\<lambda>(line, rest).
       Option.bind (split_first (CHR '' '') line) (\<lambda>(method, r).
         Option.bind (split_first (CHR '' '') r) (\<lambda>(_, version).
           Some (method @ '' '' @ target @ '' '' @ version @ rest))))"

definition parse_server_port :: "string \<Rightarrow> u16 option" where
  "parse_server_port transport =
     Option.bind (after ''server_port='' transport) (\<lambda>t.
       Option.bind (parse_u32 (leading_digits t)) (\<lambda>p. if 0 < p \<and> int p \<le> 65535 then Some (of_nat p) else None))"

definition scan_sdp_uint :: "string \<Rightarrow> string \<Rightarrow> u32 option" where
  "scan_sdp_uint text attr =
     Option.bind (after (attr @ '':'') text) (\<lambda>t. map_option of_nat (parse_u32 (leading_digits t)))"

definition attr_line :: "string \<times> string \<Rightarrow> string" where
  "attr_line nv = ''a='' @ fst nv @ '':'' @ snd nv @ CRLF"

definition sdp_attrs :: "stream_cfg \<Rightarrow> u32 \<Rightarrow> (string \<times> string) list" where
  "sdp_attrs cfg enc_enabled =
     (let num = (\<lambda>w :: u32. show_nat (unat w));
          adjusted_kbps = show_nat (unat (cfg_bitrate_kbps cfg) * 80 div 100);
          hevc = (if cfg_video_format cfg = 1 then ''1'' else ''0'')
      in [(''x-nv-video[0].clientViewportWd'', num (cfg_width cfg)),
          (''x-nv-video[0].clientViewportHt'', num (cfg_height cfg)),
          (''x-nv-video[0].maxFPS'', num (cfg_fps cfg)),
          (''x-nv-video[0].packetSize'', num (cfg_packet_size cfg)),
          (''x-ml-video.configuredBitrateKbps'', num (cfg_bitrate_kbps cfg)),
          (''x-nv-vqos[0].bitStreamFormat'', num (cfg_video_format cfg)),
          (''x-nv-video[0].rateControlMode'', ''4''),
          (''x-nv-video[0].timeoutLengthMs'', ''7000''),
          (''x-nv-video[0].framesWithInvalidRefThreshold'', ''0''),
          (''x-nv-video[0].initialBitrateKbps'', adjusted_kbps),
          (''x-nv-video[0].initialPeakBitrateKbps'', adjusted_kbps),
          (''x-nv-vqos[0].bw.minimumBitrateKbps'', adjusted_kbps),
          (''x-nv-vqos[0].bw.maximumBitrateKbps'', adjusted_kbps),
          (''x-nv-clientSupportHevc'', hevc),
          (''x-ss-general.encryptionEnabled'', num enc_enabled)])"

definition sdp_text :: "string \<Rightarrow> (string \<times> string) list \<Rightarrow> string \<Rightarrow> string" where
  "sdp_text origin attrs media =
     ''v=0'' @ CRLF @ ''o='' @ origin @ CRLF @ ''s=NVIDIA Streaming Client'' @ CRLF
     @ concat (map attr_line attrs) @ ''t=0 0'' @ CRLF @ ''m='' @ media @ CRLF"

definition sdp_origin :: "bool \<Rightarrow> string \<Rightarrow> string" where
  "sdp_origin v6 host_ip = ''android 0 '' @ show_nat RTSP_CLIENT_VERSION @ '' IN '' @ (if v6 then ''IPv6'' else ''IPv4'') @ '' '' @ host_ip"

definition sdp_media :: "u16 \<Rightarrow> string" where
  "sdp_media video_port = ''video '' @ show_nat (unat video_port) @ ''  ''"

definition sdp_body :: "(string \<Rightarrow> bool) \<Rightarrow> string \<Rightarrow> stream_cfg \<Rightarrow> u16 \<Rightarrow> u32 \<Rightarrow> string" where
  "sdp_body is_v6 host_ip cfg video_port enc_enabled =
     sdp_text (sdp_origin (is_v6 host_ip) host_ip) (sdp_attrs cfg enc_enabled) (sdp_media video_port)"

text \<open>The handshake threads the client and the world \<open>'w\<close> it talks to.\<close>

type_synonym 'w transport = "rtsp_out \<Rightarrow> 'w \<Rightarrow> rtsp_response option \<times> 'w"
type_synonym ('a, 'w) rtsp_m = "(rtsp_error, 'a, rtsp_client \<times> 'w) state_result"

definition exchange :: "'w transport \<Rightarrow> rtsp_method \<Rightarrow> string \<Rightarrow> (string \<times> string) list \<Rightarrow> string \<Rightarrow> (rtsp_response, 'w) rtsp_m" where
  "exchange xchg method target extra body s =
     (case s of (c, w) \<Rightarrow>
       case encode_request method target extra body c of (out, c1) \<Rightarrow>
         case xchg out w of
           (None, w1) \<Rightarrow> (Inl NoResponse, c1, w1)
         | (Some r, w1) \<Rightarrow> if rp_status r \<noteq> 200 then (Inl (BadStatus (rp_status r)), c1, w1) else (Inr r, c1, w1))"

definition remember_session :: "rtsp_response \<Rightarrow> rtsp_client \<Rightarrow> rtsp_client" where
  "remember_session r c =
     (if rc_session_id c \<noteq> None then c
      else case rp_session r of
        None \<Rightarrow> c
      | Some v \<Rightarrow>
          let token = trim (hd (split_char (CHR '';'') v))
          in if token \<noteq> '''' then c\<lparr>rc_session_id := Some token\<rparr> else c)"

definition client_setup :: "'w transport \<Rightarrow> string \<Rightarrow> u16 \<Rightarrow> (u16, 'w) rtsp_m" where
  "client_setup xchg streamid fallback =
     se_bind (exchange xchg SETUP streamid [] '''') (\<lambda>r s.
       case s of (c, w) \<Rightarrow>
         (Inr (or_default fallback (Option.bind (rp_transport r) parse_server_port)), remember_session r c, w))"

definition handshake_steps :: "'w transport \<Rightarrow> (string \<Rightarrow> bool) \<Rightarrow> string \<Rightarrow> stream_cfg \<Rightarrow> string \<Rightarrow> (rtsp_negotiated, 'w) rtsp_m" where
  "handshake_steps xchg is_v6 host_ip cfg url =
     se_bind (exchange xchg OPTIONS url [] '''') (\<lambda>_.
     se_bind (exchange xchg DESCRIBE url [(''Accept'', ''application/sdp'')] '''') (\<lambda>d.
     let enc_supported = or_default 0 (scan_sdp_uint (rp_body d) ''x-ss-general.encryptionSupported'');
         enc_enabled = and enc_supported SS_ENC_CONTROL_V2
     in se_bind (client_setup xchg ''streamid=video/0/0'' 47998) (\<lambda>video_port.
     se_bind (client_setup xchg ''streamid=audio/0/0'' 48000) (\<lambda>audio_port.
     se_bind (client_setup xchg CONTROL_STREAM_ID 47999) (\<lambda>control_port.
     se_bind (exchange xchg ANNOUNCE CONTROL_STREAM_ID [(''Content-Type'', ''application/sdp'')]
                (sdp_body is_v6 host_ip cfg video_port enc_enabled)) (\<lambda>_.
     se_bind (exchange xchg PLAY PLAY_TARGET [] '''') (\<lambda>_.
     se_return \<lparr>rn_video_port = video_port, rn_audio_port = audio_port, rn_control_port = control_port\<rparr>)))))))"

definition handshake ::
  "'w transport \<Rightarrow> (string \<Rightarrow> bool) \<Rightarrow> string \<Rightarrow> u16 \<Rightarrow> string \<Rightarrow> stream_cfg \<Rightarrow> 'w \<Rightarrow> (rtsp_error + rtsp_negotiated) \<times> 'w" where
  "handshake xchg is_v6 host_ip rtsp_port session_url cfg w =
     (case resolve_target_url host_ip rtsp_port session_url of
        Inl e \<Rightarrow> (Inl e, w)
      | Inr url \<Rightarrow>
          (case handshake_steps xchg is_v6 host_ip cfg url (rtsp_client_new host_ip url, w) of (r, _, w1) \<Rightarrow> (r, w1)))"

section \<open>What the crates promise\<close>

definition no_newline :: "string \<Rightarrow> bool" where
  "no_newline s \<longleftrightarrow> CHR 0x0D \<notin> set s \<and> CHR 0x0A \<notin> set s"

definition attr_ok :: "string \<times> string \<Rightarrow> bool" where
  "attr_ok nv \<longleftrightarrow> no_newline (fst nv) \<and> CHR '':'' \<notin> set (fst nv) \<and> no_newline (snd nv)"

text \<open>
  \<^verbatim>\<open>sdp-types\<close>: the attributes of a description of the form the client writes, the first value of each name.
  \<^verbatim>\<open>rtsp-types\<close> with the server's substitution of \<open>streamid\<close>: method, sequence number and body arrive, and
  a target \<open>streamid=x\<close> becomes the query pair; the body must not contain \<open>streamid\<close> itself.
\<close>

definition sdp_ok :: "sdp_parser \<Rightarrow> bool" where
  "sdp_ok sdp \<longleftrightarrow>
     (\<forall>v6 ip attrs port. (\<forall>c\<in>set ip. \<not> is_space c) \<and> (\<forall>nv\<in>set attrs. attr_ok nv) \<longrightarrow>
        sdp (sdp_text (sdp_origin v6 ip) attrs (sdp_media port)) = Some (map_of attrs))"

definition wire_ok :: "(rtsp_out \<Rightarrow> rtsp_request option) \<Rightarrow> bool" where
  "wire_ok wire \<longleftrightarrow>
     (\<forall>out. after ''streamid'' (ro_body out) = None \<longrightarrow>
        wire out = Some \<lparr>rq_method = ro_method out, rq_cseq = Some (show_nat (ro_cseq out)),
          rq_query = (if starts_with ''streamid='' (ro_target out) then [(''streamid'', drop 9 (ro_target out))] else []),
          rq_body = ro_body out\<rparr>)"

definition host_transport :: "(rtsp_out \<Rightarrow> rtsp_request option) \<Rightarrow> sdp_parser \<Rightarrow> rtsp_server transport" where
  "host_transport wire sdp out w = (case wire out of None \<Rightarrow> (None, w) | Some rq \<Rightarrow> handle_connection sdp rq w)"

text \<open>Stand-ins that meet these promises.\<close>

definition plain_wire :: "rtsp_out \<Rightarrow> rtsp_request option" where
  "plain_wire out = Some \<lparr>rq_method = ro_method out, rq_cseq = Some (show_nat (ro_cseq out)),
     rq_query = (if starts_with ''streamid='' (ro_target out) then [(''streamid'', drop 9 (ro_target out))] else []),
     rq_body = ro_body out\<rparr>"

definition sdp_line :: "string \<Rightarrow> (string \<times> string) option" where
  "sdp_line l = Option.bind (strip_prefix ''a='' l) (\<lambda>r. map_option (\<lambda>(n, v). (n, butlast v)) (split_first (CHR '':'') r))"

definition line_sdp :: sdp_parser where
  "line_sdp s = Some (map_of (List.map_filter sdp_line (split_char (CHR 0x0A) s)))"

lemma plain_wire_ok: "wire_ok plain_wire"
  by (simp add: wire_ok_def plain_wire_def)

lemma sdp_line_attr: "attr_ok nv \<Longrightarrow> sdp_line (''a='' @ fst nv @ '':'' @ snd nv @ [CHR 0x0D]) = Some nv"
proof -
  assume "attr_ok nv"
  then have "CHR '':'' \<notin> set (fst nv)" by (simp add: attr_ok_def)
  then have "split_first (CHR '':'') (fst nv @ '':'' @ snd nv @ [CHR 0x0D]) = Some (fst nv, snd nv @ [CHR 0x0D])"
    using split_first_append[of "CHR '':''" "fst nv" "snd nv @ [CHR 0x0D]"] by simp
  then show ?thesis unfolding sdp_line_def strip_prefix_append by simp
qed

lemma split_line:
  assumes "CHR 0x0A \<notin> set l"
  shows "split_char (CHR 0x0A) (l @ CRLF @ rest) = (l @ [CHR 0x0D]) # split_char (CHR 0x0A) rest"
  using split_char_append[of "CHR 0x0A" "l @ [CHR 0x0D]" rest] assms by (simp add: CRLF_def)

lemma split_attr_lines:
  assumes "\<forall>nv\<in>set attrs. attr_ok nv"
  shows "List.map_filter sdp_line (split_char (CHR 0x0A) (concat (map attr_line attrs) @ rest))
    = attrs @ List.map_filter sdp_line (split_char (CHR 0x0A) rest)"
  using assms
proof (induction attrs)
  case (Cons nv attrs)
  let ?l = "''a='' @ fst nv @ '':'' @ snd nv"
  have "CHR 0x0A \<notin> set ?l" using Cons.prems by (simp add: attr_ok_def no_newline_def)
  from split_line[OF this, of "concat (map attr_line attrs) @ rest"]
  have "split_char (CHR 0x0A) (concat (map attr_line (nv # attrs)) @ rest)
      = (?l @ [CHR 0x0D]) # split_char (CHR 0x0A) (concat (map attr_line attrs) @ rest)" by (simp add: attr_line_def)
  moreover have "sdp_line (?l @ [CHR 0x0D]) = Some nv" using sdp_line_attr[of nv] Cons.prems by simp
  ultimately show ?case using Cons by (simp add: List.map_filter_simps)
qed simp

lemma no_newline_words: "\<forall>c\<in>set s. \<not> is_space c \<Longrightarrow> CHR 0x0A \<notin> set s \<and> no_newline s"
  by (auto simp: no_newline_def is_space_def)

lemma line_sdp_ok: "sdp_ok line_sdp"
proof -
  have "line_sdp (sdp_text (sdp_origin v6 ip) attrs (sdp_media port)) = Some (map_of attrs)"
    if "\<forall>c\<in>set ip. \<not> is_space c" "\<forall>nv\<in>set attrs. attr_ok nv" for v6 ip attrs port
  proof -
    have nl: "CHR 0x0A \<notin> set (''o='' @ sdp_origin v6 ip)" "CHR 0x0A \<notin> set (''m='' @ sdp_media port)"
      using no_newline_words[OF that(1)] no_newline_words[OF show_nat_no_space] by (auto simp: sdp_origin_def sdp_media_def)
    have heads: "sdp_line (''v=0'' @ [CHR 0x0D]) = None" "sdp_line ((''o='' @ sdp_origin v6 ip) @ [CHR 0x0D]) = None"
      "sdp_line (''s=NVIDIA Streaming Client'' @ [CHR 0x0D]) = None" "sdp_line (''t=0 0'' @ [CHR 0x0D]) = None"
      "sdp_line ((''m='' @ sdp_media port) @ [CHR 0x0D]) = None" "sdp_line [] = None"
      by (simp_all add: sdp_line_def strip_prefix_def)
    have split: "split_char (CHR 0x0A) (sdp_text (sdp_origin v6 ip) attrs (sdp_media port))
        = (''v=0'' @ [CHR 0x0D]) # ((''o='' @ sdp_origin v6 ip) @ [CHR 0x0D]) # (''s=NVIDIA Streaming Client'' @ [CHR 0x0D])
          # split_char (CHR 0x0A) (concat (map attr_line attrs) @ ''t=0 0'' @ CRLF @ (''m='' @ sdp_media port) @ CRLF @ [])"
      unfolding sdp_text_def
      using split_line[of "''v=0''"] split_line[OF nl(1)] split_line[of "''s=NVIDIA Streaming Client''"] by simp
    have "List.map_filter sdp_line (split_char (CHR 0x0A) (''t=0 0'' @ CRLF @ (''m='' @ sdp_media port) @ CRLF @ [])) = []"
      unfolding split_line[OF nl(2)] using split_line[of "''t=0 0''" "(''m='' @ sdp_media port) @ CRLF @ []"] split_line[OF nl(2), of "[]"] heads
      by (simp add: List.map_filter_simps)
    then show ?thesis unfolding line_sdp_def split using split_attr_lines[OF that(2)] heads
      by (simp add: List.map_filter_simps)
  qed
  then show ?thesis by (simp add: sdp_ok_def)
qed

section \<open>The request line\<close>

lemma split_crlf_append: "CHR 0x0D \<notin> set l \<Longrightarrow> split_crlf (l @ CRLF @ rest) = Some (l, CRLF @ rest)"
  by (induction l) (auto simp: CRLF_def)

lemma rewrite_request_line:
  assumes "CHR '' '' \<notin> set m" "\<forall>s\<in>{m, v}. CHR 0x0D \<notin> set s"
  shows "rewrite_request_target (m @ '' * '' @ v @ CRLF @ rest) t = Some (m @ '' '' @ t @ '' '' @ v @ CRLF @ rest)"
proof -
  have "split_crlf (m @ '' * '' @ v @ CRLF @ rest) = Some (m @ '' * '' @ v, CRLF @ rest)"
    using split_crlf_append[of "m @ '' * '' @ v" rest] assms(2) by simp
  moreover have "split_first (CHR '' '') (m @ '' * '' @ v) = Some (m, ''* '' @ v)"
    using split_first_append[OF assms(1), of "''* '' @ v"] by simp
  moreover have "split_first (CHR '' '') (''* '' @ v) = Some (''*'', v)"
    using split_first_append[of "CHR '' ''" "''*''" v] by simp
  ultimately show ?thesis by (simp add: rewrite_request_target_def)
qed

section \<open>The steps against the host\<close>

lemma starts_with_take: "starts_with p s \<Longrightarrow> n \<le> length p \<Longrightarrow> take n s = take n p"
  unfolding starts_with_def by (metis min_absorb1 take_take)

lemma after_Nil [simp]: "after ''streamid'' [] = None"
  by (simp add: after.simps)

lemma exchange_host:
  assumes "wire_ok wire" "session_is_active (rs_session w)" "after ''streamid'' b = None"
  shows "exchange (host_transport wire sdp) m t ex b (c, w) =
    (case handle_connection sdp \<lparr>rq_method = m, rq_cseq = Some (show_nat (rc_cseq c)),
        rq_query = (if starts_with ''streamid='' t then [(''streamid'', drop 9 t)] else []), rq_body = b\<rparr> w of
       (None, w1) \<Rightarrow> (Inl NoResponse, c\<lparr>rc_cseq := rc_cseq c + 1\<rparr>, w1)
     | (Some r, w1) \<Rightarrow> if rp_status r \<noteq> 200 then (Inl (BadStatus (rp_status r)), c\<lparr>rc_cseq := rc_cseq c + 1\<rparr>, w1)
         else (Inr r, c\<lparr>rc_cseq := rc_cseq c + 1\<rparr>, w1))"
  using assms(1,3) by (simp add: exchange_def encode_request_def host_transport_def wire_ok_def split: prod.split option.split)

lemma rtsp_resp_simps [simp]:
  "rp_status (rtsp_resp q n) = n" "rp_session (rtsp_resp q n) = None" "rp_transport (rtsp_resp q n) = None"
  "rp_body (rtsp_resp q n) = ''''"
  by (simp_all add: rtsp_resp_def)

lemma step_options:
  assumes "wire_ok wire" "session_is_active (rs_session w)"
  shows "\<exists>r c'. exchange (host_transport wire sdp) OPTIONS t ex '''' (c, w) = (Inr r, c', w)"
  by (simp add: exchange_host[OF assms after_Nil] handle_connection_def assms(2) rtsp_options_def Let_def)

lemma step_describe:
  assumes "wire_ok wire" "session_is_active (rs_session w)"
  shows "\<exists>r c'. exchange (host_transport wire sdp) DESCRIBE t ex '''' (c, w) = (Inr r, c', w) \<and> rp_body r = describe_sdp"
  by (simp add: exchange_host[OF assms after_Nil] handle_connection_def assms(2) describe_def Let_def)

lemma parse_server_port_show: "0 < unat p \<Longrightarrow> parse_server_port (''server_port='' @ show_nat (unat p)) = Some p"
proof -
  assume pos: "0 < unat p"
  have "unat p < 2 ^ LENGTH(16)" by (rule unsigned_less)
  then have "unat p \<le> 65535" by simp
  moreover have "uint p \<le> 4294967295" using uint_bounded[of p] by simp
  moreover note pos
  moreover have "leading_digits (show_nat (unat p)) = show_nat (unat p)" using leading_digits_show[of "[]"] by simp
  ultimately show ?thesis unfolding parse_server_port_def after_prefix by simp
qed

lemma step_setup:
  assumes "wire_ok wire" "session_is_active (rs_session w)"
    and "t = ''streamid='' @ v" "hd (split_char (CHR ''/'') v) = name"
    and "(name, p) \<in> {(''video'', sp_video (rs_ports w)), (''audio'', sp_audio (rs_ports w)), (''control'', sp_control (rs_ports w))}"
    and "0 < unat p"
  shows "\<exists>c'. client_setup (host_transport wire sdp) t fb (c, w) = (Inr p, c', w)"
proof -
  have t: "starts_with ''streamid='' t" "drop 9 t = v" using assms(3) by (simp_all add: starts_with_def)
  let ?r = "(rtsp_resp (int (rc_cseq c)) 200)\<lparr>rp_session := Some ''KmcSession;timeout = 90'',
      rp_transport := Some (''server_port='' @ show_nat (unat p))\<rparr>"
  have "\<exists>q. exchange (host_transport wire sdp) SETUP t [] '''' (c, w)
      = (Inr ((rtsp_resp q 200)\<lparr>rp_session := Some ''KmcSession;timeout = 90'',
          rp_transport := Some (''server_port='' @ show_nat (unat p))\<rparr>), c\<lparr>rc_cseq := rc_cseq c + 1\<rparr>, w)"
    unfolding exchange_host[OF assms(1,2) after_Nil] using assms(2,4,5) t
    by (auto simp: handle_connection_def rtsp_setup_def Let_def)
  then show ?thesis using parse_server_port_show[OF assms(6)]
    by (auto simp: client_setup_def se_bind_def or_default_def)
qed

text \<open>The context the host should end up with.\<close>

definition cfg_context :: "stream_cfg \<Rightarrow> stream_context" where
  "cfg_context cfg = \<lparr>sc_width = cfg_width cfg, sc_height = cfg_height cfg, sc_fps = cfg_fps cfg, sc_packet_size = cfg_packet_size cfg,
     sc_bitrate_bps = saturating_mul_u32 (cfg_bitrate_kbps cfg) 1000, sc_video_format = cfg_video_format cfg\<rparr>"

lemma sdp_attr_num:
  assumes "f n = Some (show_nat (unat (w :: u32)))"
  shows "sdp_attr f n = Some w"
proof -
  have "int (unat w) \<le> 4294967295" using uint_bounded[of w] by simp
  then show ?thesis using assms trim_no_space[OF show_nat_no_space] by (simp add: sdp_attr_def)
qed

lemma sdp_attrs_ok: "\<forall>nv\<in>set (sdp_attrs cfg enc). attr_ok nv"
proof -
  have n: "no_newline (show_nat n)" for n using no_newline_words[OF show_nat_no_space] by blast
  show ?thesis unfolding sdp_attrs_def Let_def by (simp add: attr_ok_def n) (simp add: no_newline_def)
qed

lemma step_announce:
  assumes "wire_ok wire" "session_is_active (rs_session w)" "sdp_ok sdp" "\<forall>x\<in>set ip. \<not> is_space x"
    "after ''streamid'' (sdp_body is_v6 ip cfg vp enc) = None"
  shows "\<exists>r c'. exchange (host_transport wire sdp) ANNOUNCE t ex (sdp_body is_v6 ip cfg vp enc) (c, w)
    = (Inr r, c', w\<lparr>rs_context := Some (cfg_context cfg)\<rparr>)"
proof -
  let ?f = "map_of (sdp_attrs cfg enc)"
  have p: "sdp (sdp_body is_v6 ip cfg vp enc) = Some ?f"
    using assms(3,4) sdp_attrs_ok by (simp add: sdp_ok_def sdp_body_def)
  have "sdp_attr ?f ''x-nv-video[0].clientViewportWd'' = Some (cfg_width cfg)"
    "sdp_attr ?f ''x-nv-video[0].clientViewportHt'' = Some (cfg_height cfg)"
    "sdp_attr ?f ''x-nv-video[0].maxFPS'' = Some (cfg_fps cfg)"
    "sdp_attr ?f ''x-nv-video[0].packetSize'' = Some (cfg_packet_size cfg)"
    "sdp_attr ?f ''x-ml-video.configuredBitrateKbps'' = Some (cfg_bitrate_kbps cfg)"
    "sdp_attr ?f ''x-nv-vqos[0].bitStreamFormat'' = Some (cfg_video_format cfg)"
    by (rule sdp_attr_num, simp add: sdp_attrs_def Let_def)+
  then show ?thesis unfolding exchange_host[OF assms(1,2,5)] using assms(2) p
    by (simp add: handle_connection_def announce_def Let_def cfg_context_def or_default_def)
qed

lemma step_play:
  assumes "wire_ok wire" "session_is_active (rs_session w)"
  shows "\<exists>r c'. exchange (host_transport wire sdp) PLAY t ex '''' (c, w) = (Inr r, c', snd (play 0 w))"
  by (simp add: exchange_host[OF assms after_Nil] handle_connection_def assms(2) play_def Let_def)

lemma enc_scan: "and (or_default 0 (scan_sdp_uint describe_sdp ''x-ss-general.encryptionSupported'')) SS_ENC_CONTROL_V2 = 1"
  by code_simp

lemma stream_names:
  "hd (split_char (CHR ''/'') ''video/0/0'') = ''video''" "hd (split_char (CHR ''/'') ''audio/0/0'') = ''audio''"
  "hd (split_char (CHR ''/'') ''control/13/0'') = ''control''"
  by code_simp+

section \<open>Properties\<close>


definition sample_cfg :: stream_cfg where
  "sample_cfg = \<lparr>cfg_width = 8, cfg_height = 6, cfg_fps = 5, cfg_bitrate_kbps = 10, cfg_packet_size = 64, cfg_video_format = 1\<rparr>"

definition sample_server :: rtsp_server where
  "sample_server = set_play_hook (rtsp_new \<lparr>sp_video = 98, sp_audio = 100, sp_control = 99\<rparr> (Some \<lparr>ls_remote_input_key = [],
     ls_remote_input_key_id = 0, ls_width = 0, ls_height = 0, ls_refresh_rate = 0\<rparr>))"


text \<open>
  Without a launched session there is no negotiation. The host answers nothing, stays as it is, and the
  handshake ends with an error; a session URL the client cannot serve is refused before anything is sent.
\<close>

theorem handshake_needs_session:
  assumes "wire_ok wire" "\<not> session_is_active (rs_session h)"
  shows "\<exists>e. handshake (host_transport wire sdp) is_v6 ip port url cfg h = (Inl e, h)
    \<and> (e = NoResponse \<longleftrightarrow> trim url = '''' \<or> starts_with ''rtsp://'' (trim url))"
proof -
  have "exchange (host_transport wire sdp) OPTIONS t [] '''' (c, h) = (Inl NoResponse, c\<lparr>rc_cseq := rc_cseq c + 1\<rparr>, h)" for t c
    using assms by (simp add: exchange_def encode_request_def host_transport_def wire_ok_def handle_connection_def)
  then have "handshake_steps (host_transport wire sdp) is_v6 ip cfg t (rtsp_client_new ip t, h)
      = (Inl NoResponse, (rtsp_client_new ip t)\<lparr>rc_cseq := rc_cseq (rtsp_client_new ip t) + 1\<rparr>, h)" for t
    unfolding handshake_steps_def se_bind_def by simp
  moreover have "starts_with ''rtsp://'' u \<Longrightarrow> \<not> starts_with ''rtspru://'' u \<and> \<not> starts_with ''rtspenc://'' u" for u
    using starts_with_take[of "''rtspru://''" u 7] starts_with_take[of "''rtspenc://''" u 7] starts_with_take[of "''rtsp://''" u 7] by auto
  ultimately show ?thesis by (auto simp: handshake_def resolve_target_url_def Let_def)
qed

theorem handshake_needs_session_witness:
  "\<exists>e. handshake (host_transport plain_wire line_sdp) (\<lambda>_. False) ''10.0.0.1'' 48010 '''' sample_cfg (rtsp_new stream_ports_default None)
     = (Inl e, rtsp_new stream_ports_default None)"
proof -
  have "\<not> session_is_active (rs_session (rtsp_new stream_ports_default None))" by (simp add: rtsp_new_def session_is_active_def)
  from handshake_needs_session[OF plain_wire_ok this] show ?thesis by blast
qed

end
