(* ===== verification/Kmc_Pixels.thy ===== *)
theory Kmc_Pixels
  imports Kmc_Float Kmc_Prelude
begin

text \<open>
  Colour conversion on the CPU (\<^verbatim>\<open>kmc-streamhost/src/encoder.rs\<close>): the reference conversion of a BGRA frame to NV12 in
  \<^verbatim>\<open>f32\<close> arithmetic and the fast one in integer arithmetic, which also scales. A frame is its bytes; an index out of
  bounds panics.
\<close>

section \<open>Arithmetic\<close>

text \<open>\<^verbatim>\<open>f32::round\<close>, half away from zero; \<^verbatim>\<open>clamp\<close> and the cast to a byte.\<close>

definition round_half_away :: "rat \<Rightarrow> int" where
  "round_half_away x = (if 0 \<le> x then \<lfloor>x + 1 / 2\<rfloor> else - \<lfloor>1 / 2 - x\<rfloor>)"

definition clamp_byte :: "int \<Rightarrow> u8" where
  "clamp_byte n = word_of_int (max 0 (min 255 n))"

definition byte_rat :: "u8 \<Rightarrow> rat" where
  "byte_rat b = of_int (uint b)"

abbreviation mul32 :: "rat \<Rightarrow> u8 \<Rightarrow> rat" where "mul32 c x \<equiv> f32 (f32 c * byte_rat x)"

definition luma_f32 :: "u8 \<Rightarrow> u8 \<Rightarrow> u8 \<Rightarrow> rat" where
  "luma_f32 b g r = f32 (f32 (f32 (mul32 (257 / 1000) r + mul32 (504 / 1000) g) + mul32 (98 / 1000) b) + 16)"

definition blue_f32 :: "u8 \<Rightarrow> u8 \<Rightarrow> u8 \<Rightarrow> rat" where
  "blue_f32 b g r = f32 (f32 (f32 (mul32 (- 148 / 1000) r - mul32 (291 / 1000) g) + mul32 (439 / 1000) b) + 128)"

definition red_f32 :: "u8 \<Rightarrow> u8 \<Rightarrow> u8 \<Rightarrow> rat" where
  "red_f32 b g r = f32 (f32 (f32 (mul32 (439 / 1000) r - mul32 (368 / 1000) g) - mul32 (71 / 1000) b) + 128)"

text \<open>Eight-bit fixed point; \<^verbatim>\<open>>> 8\<close> is division by 256, downwards for a negative number.\<close>

definition luma_int :: "u8 \<Rightarrow> u8 \<Rightarrow> u8 \<Rightarrow> u8" where
  "luma_int b g r = ucast (drop_bit 8 (66 * ucast r + 129 * ucast g + 25 * ucast b + 128) + 16 :: u32)"

definition blue_int :: "u8 \<Rightarrow> u8 \<Rightarrow> u8 \<Rightarrow> u8" where
  "blue_int b g r = clamp_byte ((- 38 * uint r - 74 * uint g + 112 * uint b + 128) div 256 + 128)"

definition red_int :: "u8 \<Rightarrow> u8 \<Rightarrow> u8 \<Rightarrow> u8" where
  "red_int b g r = clamp_byte ((112 * uint r - 94 * uint g - 18 * uint b + 128) div 256 + 128)"

section \<open>The conversions\<close>

definition rd :: "bytes \<Rightarrow> nat \<Rightarrow> u8 option" where
  "rd bs i = (if i < length bs then Some (bs ! i) else None)"

definition wr :: "nat \<times> u8 \<Rightarrow> bytes \<Rightarrow> bytes option" where
  "wr w bs = (if fst w < length bs then Some (bs[fst w := snd w]) else None)"

definition bgr_at :: "bytes \<Rightarrow> nat \<Rightarrow> (u8 \<times> u8 \<times> u8) option" where
  "bgr_at bgra idx = do { b \<leftarrow> rd bgra idx; g \<leftarrow> rd bgra (idx + 1); r \<leftarrow> rd bgra (idx + 2); Some (b, g, r) }"

definition y_pixel :: "bytes \<Rightarrow> nat \<Rightarrow> nat \<times> nat \<Rightarrow> bytes \<Rightarrow> bytes option" where
  "y_pixel bgra width p y_plane =
     (case p of (j, i) \<Rightarrow> do {
        (b, g, r) \<leftarrow> bgr_at bgra ((j * width + i) * 4);
        wr (j * width + i, clamp_byte (round_half_away (luma_f32 b g r))) y_plane })"

definition uv_pixel :: "bytes \<Rightarrow> nat \<Rightarrow> nat \<times> nat \<Rightarrow> bytes \<Rightarrow> bytes option" where
  "uv_pixel bgra width p uv_plane =
     (case p of (j, i) \<Rightarrow> do {
        (b, g, r) \<leftarrow> bgr_at bgra ((j * width + i) * 4);
        uv1 \<leftarrow> wr (j div 2 * width + i div 2 * 2, clamp_byte (round_half_away (blue_f32 b g r))) uv_plane;
        wr (j div 2 * width + i div 2 * 2 + 1, clamp_byte (round_half_away (red_f32 b g r))) uv1 })"

definition step_by2 :: "nat \<Rightarrow> nat list" where
  "step_by2 n = map (\<lambda>k. 2 * k) [0..<(n + 1) div 2]"

definition bgra_to_nv12 :: "bytes \<Rightarrow> nat \<Rightarrow> nat \<Rightarrow> bytes option" where
  "bgra_to_nv12 bgra width height =
     do {
       y_plane \<leftarrow> run_steps (y_pixel bgra width) (List.product [0..<height] [0..<width]) (replicate (width * height) 0);
       uv_plane \<leftarrow> run_steps (uv_pixel bgra width) (List.product (step_by2 height) (step_by2 width)) (replicate (width * height div 2) 0);
       Some (y_plane @ uv_plane) }"

text \<open>
  The rows that \<^verbatim>\<open>par_chunks_mut\<close> hands to the worker threads are disjoint, so they are computed one by one; it panics
  when the chunk size is zero. A row is given by its number and its length: the last one may be shorter.
\<close>

definition chunk_lens :: "nat \<Rightarrow> nat \<Rightarrow> nat list" where
  "chunk_lens n k = replicate (n div k) k @ (if n mod k = 0 then [] else [n mod k])"

definition scale_y_row :: "bytes \<Rightarrow> nat \<Rightarrow> nat \<Rightarrow> nat \<Rightarrow> nat \<Rightarrow> nat \<times> nat \<Rightarrow> bytes option" where
  "scale_y_row bgra src_w src_h tw th c =
     (case c of (y, len) \<Rightarrow>
        let src_row = y * src_h div th * src_w * 4
        in those (map (\<lambda>x. do { (b, g, r) \<leftarrow> bgr_at bgra (src_row + x * src_w div tw * 4); Some (luma_int b g r) }) [0..<len]))"

definition scale_uv_cell :: "bytes \<Rightarrow> nat \<Rightarrow> nat \<Rightarrow> nat \<Rightarrow> nat \<Rightarrow> bytes \<Rightarrow> bytes option" where
  "scale_uv_cell bgra src_w tw src_row uv_col row =
     do {
       (b, g, r) \<leftarrow> bgr_at bgra (src_row + uv_col * 2 * src_w div tw * 4);
       row1 \<leftarrow> wr (uv_col * 2, blue_int b g r) row;
       wr (uv_col * 2 + 1, red_int b g r) row1 }"

definition scale_uv_row :: "bytes \<Rightarrow> nat \<Rightarrow> nat \<Rightarrow> nat \<Rightarrow> nat \<Rightarrow> nat \<times> nat \<Rightarrow> bytes option" where
  "scale_uv_row bgra src_w src_h tw th c =
     (case c of (uv_row, len) \<Rightarrow>
        let src_row = uv_row * 2 * src_h div th * src_w * 4
        in run_steps (scale_uv_cell bgra src_w tw src_row) [0..<tw div 2] (replicate len 0))"

definition bgra_scale_to_nv12 :: "bytes \<Rightarrow> nat \<Rightarrow> nat \<Rightarrow> nat \<Rightarrow> nat \<Rightarrow> bytes option" where
  "bgra_scale_to_nv12 bgra src_w src_h tw th =
     (if tw = 0 then None
      else do {
        y_rows \<leftarrow> those (map (scale_y_row bgra src_w src_h tw th) (enumerate 0 (chunk_lens (tw * th) tw)));
        uv_rows \<leftarrow> those (map (scale_uv_row bgra src_w src_h tw th) (enumerate 0 (chunk_lens (tw * th div 2) tw)));
        Some (concat y_rows @ concat uv_rows) })"

section \<open>Rounding error\<close>

lemma round_half_even_error: "\<bar>of_int (round_half_even x) - x\<bar> \<le> 1 / 2"
  unfolding round_half_even_def Let_def abs_le_iff by (auto; linarith)

lemma fl_pos_error:
  assumes "0 < q"
  shows "\<bar>fl_pos p q - q\<bar> \<le> q / 2 ^ p"
proof -
  define u :: rat where "u = 2 powi (binexp q - int p + 1)"
  have u: "0 < u" by (simp add: u_def)
  have "fl_pos p q = of_int (round_half_even (q / u)) * u"
    unfolding fl_pos_def u_def by (simp only: Let_def)
  then have "fl_pos p q - q = (of_int (round_half_even (q / u)) - q / u) * u"
    using u by (simp add: left_diff_distrib)
  then have "\<bar>fl_pos p q - q\<bar> \<le> 1 / 2 * u"
    using round_half_even_error[of "q / u"] u by (simp add: abs_mult mult_right_mono)
  also have "1 / 2 * u = 2 powi binexp q / 2 ^ p"
    by (simp add: u_def power_int_add power_int_diff)
  also have "\<dots> \<le> q / 2 ^ p" using binexp_bounds[OF assms] by (simp add: divide_right_mono)
  finally show ?thesis .
qed

lemma f32_error:
  assumes "\<bar>x\<bar> \<le> 1024"
  shows "\<bar>f32 x - x\<bar> \<le> 1 / 16384"
proof -
  have "\<bar>fl 24 x - x\<bar> \<le> \<bar>x\<bar> / 2 ^ 24"
  proof (cases "0 < x")
    case False
    then show ?thesis using fl_pos_error[of "- x" 24] by (cases "x = 0") (simp_all add: fl_def)
  qed (use fl_pos_error[of x 24] in \<open>simp add: fl_def\<close>)
  then show ?thesis using assms by (simp add: f32_def)
qed

lemma byte_rat_bounds: "0 \<le> byte_rat x \<and> byte_rat x \<le> 255"
proof -
  have "0 \<le> uint x" "uint x \<le> 255" using uint_bounded[of x] by simp_all
  then show ?thesis unfolding byte_rat_def by (metis of_int_0_le_iff of_int_le_iff of_int_numeral)
qed

lemma mul32_error:
  assumes "\<bar>c\<bar> \<le> 1"
  shows "\<bar>mul32 c x - c * byte_rat x\<bar> \<le> 1 / 50" and "\<bar>mul32 c x\<bar> \<le> \<bar>c\<bar> * 255 + 1 / 50"
proof -
  have x: "0 \<le> byte_rat x" "byte_rat x \<le> 255" using byte_rat_bounds by auto
  have c: "\<bar>f32 c - c\<bar> \<le> 1 / 16384" using f32_error[of c] assms by simp
  have "\<bar>f32 c * byte_rat x - c * byte_rat x\<bar> = \<bar>f32 c - c\<bar> * byte_rat x"
    using x by (simp add: abs_mult flip: left_diff_distrib)
  also have "\<dots> \<le> 1 / 16384 * 255" by (rule mult_mono) (use x c in auto)
  finally have p: "\<bar>f32 c * byte_rat x - c * byte_rat x\<bar> \<le> 255 / 16384" by simp
  have n: "\<bar>c * byte_rat x\<bar> \<le> \<bar>c\<bar> * 255" using x by (simp add: abs_mult mult_left_mono)
  moreover have "\<bar>c\<bar> * 255 \<le> 255" using assms by simp
  ultimately have "\<bar>f32 c * byte_rat x\<bar> \<le> 1024" using p by linarith
  note e = f32_error[OF this]
  show "\<bar>mul32 c x - c * byte_rat x\<bar> \<le> 1 / 50" using e p by linarith
  then show "\<bar>mul32 c x\<bar> \<le> \<bar>c\<bar> * 255 + 1 / 50" using n by linarith
qed

text \<open>The sum of three rounded products and an offset is within four hundredths of the exact one.\<close>

lemma sum_error:
  assumes "\<bar>a - a'\<bar> \<le> 1 / 50" "\<bar>b - b'\<bar> \<le> 1 / 50" "\<bar>c - c'\<bar> \<le> 1 / 50" "\<bar>a\<bar> \<le> 130" "\<bar>b\<bar> \<le> 130" "\<bar>c\<bar> \<le> 130" "\<bar>k\<bar> \<le> 128"
  shows "\<bar>f32 (f32 (f32 (a + b) + c) + k) - (a' + b' + c' + k)\<bar> \<le> 7 / 100"
proof -
  define s1 where "s1 = f32 (a + b)"
  define s2 where "s2 = f32 (s1 + c)"
  define s3 where "s3 = f32 (s2 + k)"
  note bounds = assms[unfolded abs_le_iff]
  have "\<bar>a + b\<bar> \<le> 1024" unfolding abs_le_iff using bounds by linarith
  note 1 = f32_error[OF this, folded s1_def, unfolded abs_le_iff]
  have "\<bar>s1 + c\<bar> \<le> 1024" unfolding abs_le_iff using bounds 1 by linarith
  note 2 = f32_error[OF this, folded s2_def, unfolded abs_le_iff]
  have "\<bar>s2 + k\<bar> \<le> 1024" unfolding abs_le_iff using bounds 1 2 by linarith
  note 3 = f32_error[OF this, folded s3_def, unfolded abs_le_iff]
  have "\<bar>s3 - (a' + b' + c' + k)\<bar> \<le> 7 / 100" unfolding abs_le_iff using bounds 1 2 3 by linarith
  then show ?thesis by (simp add: s3_def s2_def s1_def)
qed

lemma luma_error: "\<bar>luma_f32 b g r - (257 / 1000 * byte_rat r + 504 / 1000 * byte_rat g + 98 / 1000 * byte_rat b + 16)\<bar> \<le> 7 / 100"
  unfolding luma_f32_def
  by (rule sum_error) (use mul32_error[of "257 / 1000" r] mul32_error[of "504 / 1000" g] mul32_error[of "98 / 1000" b] in simp_all)

lemma blue_error: "\<bar>blue_f32 b g r - (- 148 / 1000 * byte_rat r + - (291 / 1000 * byte_rat g) + 439 / 1000 * byte_rat b + 128)\<bar> \<le> 7 / 100"
proof -
  have "blue_f32 b g r = f32 (f32 (f32 (mul32 (- 148 / 1000) r + - mul32 (291 / 1000) g) + mul32 (439 / 1000) b) + 128)"
    by (simp add: blue_f32_def)
  then show ?thesis
    by (simp only:) (rule sum_error; use mul32_error[of "- 148 / 1000" r] mul32_error[of "291 / 1000" g] mul32_error[of "439 / 1000" b] in
        \<open>simp add: abs_minus_commute\<close>)
qed

lemma red_error: "\<bar>red_f32 b g r - (439 / 1000 * byte_rat r + - (368 / 1000 * byte_rat g) + - (71 / 1000 * byte_rat b) + 128)\<bar> \<le> 7 / 100"
proof -
  have "red_f32 b g r = f32 (f32 (f32 (mul32 (439 / 1000) r + - mul32 (368 / 1000) g) + - mul32 (71 / 1000) b) + 128)"
    by (simp add: red_f32_def)
  then show ?thesis
    by (simp only:) (rule sum_error; use mul32_error[of "439 / 1000" r] mul32_error[of "368 / 1000" g] mul32_error[of "71 / 1000" b] in
        \<open>simp add: abs_minus_commute\<close>)
qed

section \<open>The two conversions of a pixel\<close>

text \<open>
  The integer sums divided by 256 differ from the decimal ones by less than a half, plus the rounding error of the
  floats; so the rounded values differ by at most one.
\<close>

lemma round_near:
  assumes "\<bar>x - of_int n / 256\<bar> < 9 / 10"
  shows "\<bar>round_half_away x - (n + 128) div 256\<bar> \<le> 1"
proof -
  define m where "m = (n + 128) div 256"
  have "m * 256 \<le> n + 128" "n + 128 < m * 256 + 256" unfolding m_def by (simp_all add: algebra_simps minus_mod_eq_mult_div[symmetric])
  then have m: "of_int m - 1 / 2 \<le> (of_int n / 256 :: rat)" "(of_int n / 256 :: rat) < of_int m + 1 / 2"
    by linarith+
  have "of_int (round_half_away x) \<le> x + 1 / 2" "x - 1 / 2 \<le> of_int (round_half_away x)"
    by (auto simp: round_half_away_def) linarith+
  then have "of_int (round_half_away x) < (of_int m + 2 :: rat)" "(of_int m - 2 :: rat) < of_int (round_half_away x)"
    using m assms unfolding abs_less_iff by linarith+
  then show ?thesis unfolding m_def[symmetric] by linarith
qed

lemma clamp_byte_uint: "uint (clamp_byte n) = max 0 (min 255 n)"
  by (simp add: clamp_byte_def uint_word_of_int)

lemma uint_byte: "0 \<le> uint (x :: u8)" "uint (x :: u8) \<le> 255"
  using uint_bounded[of x] by simp_all

lemma luma_int_uint: "uint (luma_int b g r) = (66 * uint r + 129 * uint g + 25 * uint b + 128) div 256 + 16"
proof -
  define s :: u32 where "s = 66 * ucast r + 129 * ucast g + 25 * ucast b + 128"
  define n where "n = 66 * uint r + 129 * uint g + 25 * uint b + 128"
  have n: "0 \<le> n" "n \<le> 56228" using uint_byte[of r] uint_byte[of g] uint_byte[of b] by (simp_all add: n_def)
  have "s = word_of_int n" by (simp add: s_def n_def)
  then have s: "uint s = n" using n by (simp add: uint_word_of_int)
  have "uint (drop_bit 8 s + 16) = n div 256 + 16"
    using n by (simp add: uint_word_ariths uint_div s drop_bit_eq_div)
  then have "uint (ucast (drop_bit 8 s + 16) :: u8) = n div 256 + 16"
    using n zdiv_mono1[OF n(2), of 256] by (simp add: unsigned_ucast_eq take_bit_eq_mod)
  then show ?thesis by (simp add: luma_int_def s_def n_def)
qed

definition close :: "u8 \<Rightarrow> u8 \<Rightarrow> bool" where
  "close x y \<longleftrightarrow> \<bar>uint x - uint y\<bar> \<le> 1"

lemma luma_close: "close (clamp_byte (round_half_away (luma_f32 b g r))) (luma_int b g r)"
proof -
  define n where "n = 66 * uint r + 129 * uint g + 25 * uint b + 4096"
  have bd: "0 \<le> byte_rat x \<and> byte_rat x \<le> 255" for x by (rule byte_rat_bounds)
  have "of_int n / 256 = 66 / 256 * byte_rat r + 129 / 256 * byte_rat g + 25 / 256 * byte_rat b + 16"
    by (simp add: n_def byte_rat_def)
  then have "\<bar>luma_f32 b g r - of_int n / 256\<bar> < 9 / 10"
    using luma_error[of b g r] bd[of b] bd[of g] bd[of r] unfolding abs_le_iff abs_less_iff by linarith
  from round_near[OF this] have "\<bar>round_half_away (luma_f32 b g r) - uint (luma_int b g r)\<bar> \<le> 1"
    by (simp add: luma_int_uint n_def algebra_simps)
  moreover have "0 \<le> uint (luma_int b g r)" "uint (luma_int b g r) \<le> 255" by (rule uint_byte)+
  ultimately show ?thesis unfolding close_def clamp_byte_uint by linarith
qed

lemma chroma_close:
  assumes "\<bar>x - of_int (n + 32768) / 256\<bar> < 9 / 10"
  shows "close (clamp_byte (round_half_away x)) (clamp_byte ((n + 128) div 256 + 128))"
proof -
  have "(n + 32768 + 128) div 256 = (n + 128) div 256 + 128" by (simp add: algebra_simps)
  then show ?thesis using round_near[OF assms] unfolding close_def clamp_byte_uint by (simp add: abs_le_iff max_def min_def)
qed

lemma blue_close: "close (clamp_byte (round_half_away (blue_f32 b g r))) (blue_int b g r)"
  unfolding blue_int_def
proof (rule chroma_close)
  have bd: "0 \<le> byte_rat x \<and> byte_rat x \<le> 255" for x by (rule byte_rat_bounds)
  have "of_int (- 38 * uint r - 74 * uint g + 112 * uint b + 32768) / 256
      = - (38 / 256 * byte_rat r) - 74 / 256 * byte_rat g + 112 / 256 * byte_rat b + 128"
    by (simp add: byte_rat_def diff_divide_distrib add_divide_distrib)
  then show "\<bar>blue_f32 b g r - of_int (- 38 * uint r - 74 * uint g + 112 * uint b + 32768) / 256\<bar> < 9 / 10"
    using blue_error[of b g r] bd[of b] bd[of g] bd[of r] unfolding abs_le_iff abs_less_iff by linarith
qed

lemma red_close: "close (clamp_byte (round_half_away (red_f32 b g r))) (red_int b g r)"
  unfolding red_int_def
proof (rule chroma_close)
  have bd: "0 \<le> byte_rat x \<and> byte_rat x \<le> 255" for x by (rule byte_rat_bounds)
  have "of_int (112 * uint r - 94 * uint g - 18 * uint b + 32768) / 256
      = 112 / 256 * byte_rat r - 94 / 256 * byte_rat g - 18 / 256 * byte_rat b + 128"
    by (simp add: byte_rat_def diff_divide_distrib add_divide_distrib)
  then show "\<bar>red_f32 b g r - of_int (112 * uint r - 94 * uint g - 18 * uint b + 32768) / 256\<bar> < 9 / 10"
    using red_error[of b g r] bd[of b] bd[of g] bd[of r] unfolding abs_le_iff abs_less_iff by linarith
qed

section \<open>The converted frames, byte by byte\<close>

definition px :: "bytes \<Rightarrow> nat \<Rightarrow> u8 \<times> u8 \<times> u8" where
  "px bgra n = (bgra ! (n * 4), bgra ! (n * 4 + 1), bgra ! (n * 4 + 2))"

lemma bgr_at_px: "n * 4 + 2 < length bgra \<Longrightarrow> bgr_at bgra (n * 4) = Some (px bgra n)"
  by (simp add: bgr_at_def rd_def px_def)

text \<open>A run of writes that covers a plane and agrees with a function on positions leaves that function in the plane.\<close>

lemma run_wr:
  assumes "\<forall>w\<in>set ws. fst w < n \<and> snd w = f (fst w)" "length bs = n" "\<forall>i<n. i \<in> fst ` set ws \<or> bs ! i = f i"
  shows "run_steps wr ws bs = Some (map f [0..<n])"
  using assms
proof (induction ws arbitrary: bs)
  case Nil
  then show ?case by (auto intro: nth_equalityI)
next
  case (Cons w ws)
  then have "wr w bs = Some (bs[fst w := snd w])" by (simp add: wr_def)
  moreover have "run_steps wr ws (bs[fst w := snd w]) = Some (map f [0..<n])"
    by (rule Cons.IH) (use Cons.prems in \<open>auto simp: nth_list_update\<close>)
  ultimately show ?case by simp
qed

lemma run_steps_single [simp]: "run_steps step [e] = step e"
proof (rule ext)
  fix s
  show "run_steps step [e] s = step e s" by (cases "step e s") simp_all
qed

lemma run_steps_writes:
  assumes "\<forall>p\<in>set ps. \<forall>s. step p s = run_steps wr (ws p) s"
  shows "run_steps step ps s = run_steps wr (concat (map ws ps)) s"
  using assms
proof (induction ps arbitrary: s)
  case (Cons p ps)
  then have "run_steps step ps = run_steps wr (concat (map ws ps))" by auto
  then show ?case using Cons.prems by (simp add: run_steps_append)
qed simp

lemma those_total: "(\<And>x. x \<in> set xs \<Longrightarrow> f x = Some (g x)) \<Longrightarrow> those (map f xs) = Some (map g xs)"
  by (induction xs) auto

lemma concat_rows: "0 < w \<Longrightarrow> concat (map (\<lambda>y. map (\<lambda>x. f (y * w + x)) [0..<w]) [0..<h]) = map f [0..<h * w]"
proof (induction h)
  case (Suc h)
  have "[0..<Suc h * w] = [0..<h * w] @ map (\<lambda>x. h * w + x) [0..<w]"
    using upt_add_eq_append[of 0 "h * w" w] by (simp add: add.commute map_add_upt)
  then show ?case using Suc by (simp add: comp_def)
qed simp

text \<open>The luma byte and the chroma byte at an index of their planes, from the pixel they sample.\<close>

definition luma_at :: "(u8 \<Rightarrow> u8 \<Rightarrow> u8 \<Rightarrow> u8) \<Rightarrow> bytes \<Rightarrow> nat \<Rightarrow> u8" where
  "luma_at l bgra n = (case px bgra n of (b, g, r) \<Rightarrow> l b g r)"

definition chroma_at :: "(u8 \<Rightarrow> u8 \<Rightarrow> u8 \<Rightarrow> u8) \<Rightarrow> (u8 \<Rightarrow> u8 \<Rightarrow> u8 \<Rightarrow> u8) \<Rightarrow> bytes \<Rightarrow> nat \<Rightarrow> nat \<Rightarrow> u8" where
  "chroma_at u v bgra n k = (if even k then luma_at u bgra n else luma_at v bgra n)"

text \<open>The pixel a target position takes its colour from, and the position of a chroma byte's sample.\<close>

definition src_px :: "nat \<Rightarrow> nat \<Rightarrow> nat \<Rightarrow> nat \<Rightarrow> nat \<Rightarrow> nat \<Rightarrow> nat" where
  "src_px src_w src_h tw th y x = y * src_h div th * src_w + x * src_w div tw"

definition nv12_of :: "(u8 \<Rightarrow> u8 \<Rightarrow> u8 \<Rightarrow> u8) \<Rightarrow> (u8 \<Rightarrow> u8 \<Rightarrow> u8 \<Rightarrow> u8) \<Rightarrow> (u8 \<Rightarrow> u8 \<Rightarrow> u8 \<Rightarrow> u8) \<Rightarrow>
    bytes \<Rightarrow> (nat \<Rightarrow> nat \<Rightarrow> nat) \<Rightarrow> nat \<Rightarrow> nat \<Rightarrow> bytes" where
  "nv12_of l u v bgra src w h =
     map (\<lambda>k. luma_at l bgra (src (k div w) (k mod w))) [0..<h * w] @
     map (\<lambda>k. chroma_at u v bgra (src (k div w * 2) (k mod w div 2 * 2)) k) [0..<h div 2 * w]"

lemma src_px_less:
  assumes "y < th" "x < tw" "0 < src_w" "0 < src_h"
  shows "src_px src_w src_h tw th y x < src_h * src_w"
proof -
  have "y * src_h div th < src_h" "x * src_w div tw < src_w"
    using assms by (simp_all add: div_less_iff_less_mult mult.commute)
  then have "y * src_h div th * src_w + x * src_w div tw < Suc (y * src_h div th) * src_w" "Suc (y * src_h div th) * src_w \<le> src_h * src_w"
    by (simp_all add: mult_le_mono1 Suc_leI del: mult_Suc) simp
  then show ?thesis unfolding src_px_def by linarith
qed

lemma src_px_same: "0 < w \<Longrightarrow> 0 < h \<Longrightarrow> src_px w h w h y x = y * w + x"
  by (simp add: src_px_def)

lemma src_at:
  assumes "y < th" "x < tw" "0 < src_w" "0 < src_h" "src_h * src_w * 4 \<le> length bgra"
  shows "bgr_at bgra (y * src_h div th * src_w * 4 + x * src_w div tw * 4) = Some (px bgra (src_px src_w src_h tw th y x))"
  using bgr_at_px[of "src_px src_w src_h tw th y x" bgra] src_px_less[OF assms(1-4)] assms(5)
  by (simp add: src_px_def algebra_simps)

lemma scaled_y_row:
  assumes "y < th" "0 < src_w" "0 < src_h" "src_h * src_w * 4 \<le> length bgra"
  shows "scale_y_row bgra src_w src_h tw th (y, tw) = Some (map (\<lambda>x. luma_at luma_int bgra (src_px src_w src_h tw th y x)) [0..<tw])"
  unfolding scale_y_row_def Let_def prod.case
  by (rule those_total) (use src_at[OF assms(1) _ assms(2-4)] in \<open>simp add: luma_at_def split: prod.split\<close>)

text \<open>A row of chroma pairs, whatever the pairs are.\<close>

lemma run_pairs:
  assumes "tw = 2 * n"
    and "\<And>c s. c < n \<Longrightarrow> cell c s = run_steps wr [(c * 2, f (c * 2)), (c * 2 + 1, f (c * 2 + 1))] s"
  shows "run_steps cell [0..<n] (replicate tw 0) = Some (map f [0..<tw])"
proof -
  let ?ws = "\<lambda>c. [(c * 2, f (c * 2)), (c * 2 + 1, f (c * 2 + 1))]"
  have "run_steps cell [0..<n] (replicate tw 0) = run_steps wr (concat (map ?ws [0..<n])) (replicate tw 0)"
    by (rule run_steps_writes) (use assms(2) in simp)
  also have "\<dots> = Some (map f [0..<tw])"
  proof (rule run_wr)
    show "\<forall>i<tw. i \<in> fst ` set (concat (map ?ws [0..<n])) \<or> replicate tw 0 ! i = f i"
    proof (intro allI impI disjI1)
      fix i assume "i < tw"
      then have "i div 2 \<in> set [0..<n]" "i = i div 2 * 2 \<or> i = i div 2 * 2 + 1" using assms(1) by auto
      then show "i \<in> fst ` set (concat (map ?ws [0..<n]))" by (force simp: image_iff)
    qed
  qed (auto simp: assms(1))
  finally show ?thesis .
qed

lemma scaled_uv_row:
  assumes "tw = 2 * n" "y * 2 < th" "0 < src_w" "0 < src_h" "src_h * src_w * 4 \<le> length bgra"
  shows "scale_uv_row bgra src_w src_h tw th (y, tw) =
    Some (map (\<lambda>x. chroma_at blue_int red_int bgra (src_px src_w src_h tw th (y * 2) (x div 2 * 2)) x) [0..<tw])"
proof -
  let ?f = "\<lambda>x. chroma_at blue_int red_int bgra (src_px src_w src_h tw th (y * 2) (x div 2 * 2)) x"
  have cell: "scale_uv_cell bgra src_w tw (y * 2 * src_h div th * src_w * 4) c s
      = run_steps wr [(c * 2, ?f (c * 2)), (c * 2 + 1, ?f (c * 2 + 1))] s" if "c < n" for c s
  proof -
    have "c * 2 < tw" using that assms(1) by simp
    note src_at[OF assms(2) this assms(3-5)]
    then show ?thesis by (simp add: scale_uv_cell_def chroma_at_def luma_at_def split: prod.split)
  qed
  have "tw div 2 = n" using assms(1) by simp
  then show ?thesis using run_pairs[OF assms(1), of _ ?f, OF cell] by (simp add: scale_uv_row_def Let_def)
qed

lemma even_halves:
  assumes "even (n :: nat)"
  obtains m where "n = 2 * m"
  using assms by blast

lemma scaled_bytes:
  assumes "even tw" "even th" "0 < tw" "0 < src_w" "0 < src_h" "src_h * src_w * 4 \<le> length bgra"
  shows "bgra_scale_to_nv12 bgra src_w src_h tw th =
    Some (nv12_of luma_int blue_int red_int bgra (src_px src_w src_h tw th) tw th)"
proof -
  define src where "src = src_px src_w src_h tw th"
  obtain n where n: "tw = 2 * n" using even_halves[OF assms(1)] .
  obtain m where m: "th = 2 * m" using even_halves[OF assms(2)] .
  have enum: "enumerate 0 (chunk_lens (tw * h) tw) = map (\<lambda>y. (y, tw)) [0..<h]" for h
    using assms(3) by (simp add: chunk_lens_def enumerate_replicate_eq)
  have half: "tw * th div 2 = tw * m" "th div 2 = m" by (simp_all add: m)
  define fy where "fy = (\<lambda>k. luma_at luma_int bgra (src (k div tw) (k mod tw)))"
  define fuv where "fuv = (\<lambda>k. chroma_at blue_int red_int bgra (src (k div tw * 2) (k mod tw div 2 * 2)) k)"
  have "those (map (scale_y_row bgra src_w src_h tw th) (map (\<lambda>y. (y, tw)) [0..<th])) =
      Some (map (\<lambda>y. map (\<lambda>x. fy (y * tw + x)) [0..<tw]) [0..<th])"
    unfolding map_map src_def by (rule those_total) (simp add: scaled_y_row[OF _ assms(4-6)] fy_def src_def)
  moreover have "those (map (scale_uv_row bgra src_w src_h tw th) (map (\<lambda>y. (y, tw)) [0..<m])) =
      Some (map (\<lambda>y. map (\<lambda>x. fuv (y * tw + x)) [0..<tw]) [0..<m])"
    unfolding map_map
  proof (rule those_total)
    fix y assume "y \<in> set [0..<m]"
    then have "y * 2 < th" by (simp add: m)
    note row = scaled_uv_row[OF n this assms(4-6)]
    show "(scale_uv_row bgra src_w src_h tw th \<circ> (\<lambda>y. (y, tw))) y = Some (map (\<lambda>x. fuv (y * tw + x)) [0..<tw])"
      by (simp add: row fuv_def src_def chroma_at_def assms(1))
  qed
  ultimately show ?thesis
    using assms(3) concat_rows[OF assms(3), of fy th] concat_rows[OF assms(3), of fuv m]
    by (simp add: bgra_scale_to_nv12_def enum half nv12_of_def src_def[symmetric] fy_def[symmetric] fuv_def[symmetric])
qed

text \<open>The reference conversion fills the same planes with its own arithmetic.\<close>

definition luma_ref :: "u8 \<Rightarrow> u8 \<Rightarrow> u8 \<Rightarrow> u8" where "luma_ref b g r = clamp_byte (round_half_away (luma_f32 b g r))"
definition blue_ref :: "u8 \<Rightarrow> u8 \<Rightarrow> u8 \<Rightarrow> u8" where "blue_ref b g r = clamp_byte (round_half_away (blue_f32 b g r))"
definition red_ref :: "u8 \<Rightarrow> u8 \<Rightarrow> u8 \<Rightarrow> u8" where "red_ref b g r = clamp_byte (round_half_away (red_f32 b g r))"

lemma y_pixel_wr:
  assumes "p \<in> set (List.product [0..<h] [0..<w])" "h * w * 4 \<le> length bgra"
  shows "y_pixel bgra w p s = run_steps wr [(fst p * w + snd p, luma_at luma_ref bgra (fst p * w + snd p))] s"
    and "fst p * w + snd p < h * w"
proof -
  obtain j i where p: "p = (j, i)" "j < h" "i < w" using assms(1) by auto
  have "j * w + i < Suc j * w" "Suc j * w \<le> h * w" using p by (simp_all del: mult_Suc add: mult_le_mono1) simp
  then show *: "fst p * w + snd p < h * w" using p by simp
  then have "bgr_at bgra ((j * w + i) * 4) = Some (px bgra (j * w + i))" using p assms(2) by (intro bgr_at_px) simp
  then show "y_pixel bgra w p s = run_steps wr [(fst p * w + snd p, luma_at luma_ref bgra (fst p * w + snd p))] s"
    by (simp add: y_pixel_def p luma_at_def luma_ref_def split: prod.split)
qed


abbreviation uv_writes :: "bytes \<Rightarrow> nat \<Rightarrow> nat \<times> nat \<Rightarrow> (nat \<times> u8) list" where
  "uv_writes bgra w p \<equiv>
     [(fst p div 2 * w + snd p, luma_at blue_ref bgra (fst p * w + snd p)),
      (fst p div 2 * w + snd p + 1, luma_at red_ref bgra (fst p * w + snd p))]"

lemma uv_pixel_wr:
  assumes "p \<in> set (List.product (step_by2 h) (step_by2 w))" "even w" "even h" "h * w * 4 \<le> length bgra"
  shows "uv_pixel bgra w p s = run_steps wr (uv_writes bgra w p) s"
    and "fst p div 2 < h div 2" "snd p + 1 < w" "even (fst p)" "even (snd p)"
proof -
  obtain a c where p: "p = (a * 2, c * 2)" "a < h div 2" "c * 2 + 1 < w"
    using assms(1-3) by (auto simp: step_by2_def elim!: evenE)
  then show "fst p div 2 < h div 2" "snd p + 1 < w" "even (fst p)" "even (snd p)" by simp_all
  have "a * 2 < h" using p(2) by linarith
  then have "a * 2 * w + c * 2 < Suc (a * 2) * w" "Suc (a * 2) * w \<le> h * w"
    using p by (simp_all del: mult_Suc add: mult_le_mono1) simp
  then have "bgr_at bgra ((a * 2 * w + c * 2) * 4) = Some (px bgra (a * 2 * w + c * 2))"
    using assms(4) by (intro bgr_at_px) simp
  then show "uv_pixel bgra w p s = run_steps wr (uv_writes bgra w p) s"
    by (simp add: uv_pixel_def p luma_at_def blue_ref_def red_ref_def split: prod.split)
qed

lemma ref_y_plane:
  assumes "0 < w" "h * w * 4 \<le> length bgra"
  shows "run_steps (y_pixel bgra w) (List.product [0..<h] [0..<w]) (replicate (w * h) 0) = Some (map (luma_at luma_ref bgra) [0..<h * w])"
proof -
  let ?ps = "List.product [0..<h] [0..<w]" and ?pos = "\<lambda>p. fst p * w + snd p"
  have "run_steps (y_pixel bgra w) ?ps (replicate (w * h) 0) =
      run_steps wr (concat (map (\<lambda>p. [(?pos p, luma_at luma_ref bgra (?pos p))]) ?ps)) (replicate (w * h) 0)"
    by (rule run_steps_writes) (use y_pixel_wr(1)[OF _ assms(2)] in blast)
  also have "\<dots> = Some (map (luma_at luma_ref bgra) [0..<h * w])"
  proof (rule run_wr)
    show "\<forall>i<h * w. i \<in> fst ` set (concat (map (\<lambda>p. [(?pos p, luma_at luma_ref bgra (?pos p))]) ?ps))
        \<or> replicate (w * h) 0 ! i = luma_at luma_ref bgra i"
    proof (intro allI impI disjI1)
      fix i assume "i < h * w"
      then have "(i div w, i mod w) \<in> set ?ps" using assms(1) by (simp add: div_less_iff_less_mult)
      then show "i \<in> fst ` set (concat (map (\<lambda>p. [(?pos p, luma_at luma_ref bgra (?pos p))]) ?ps))"
        by (force simp: image_iff)
    qed
  qed (use y_pixel_wr(2)[OF _ assms(2)] in \<open>auto simp: mult.commute\<close>)
  finally show ?thesis .
qed

lemma ref_uv_plane:
  assumes "0 < w" "even w" "even h" "h * w * 4 \<le> length bgra"
  shows "run_steps (uv_pixel bgra w) (List.product (step_by2 h) (step_by2 w)) (replicate (w * h div 2) 0) =
    Some (map (\<lambda>k. chroma_at blue_ref red_ref bgra (k div w * 2 * w + k mod w div 2 * 2) k) [0..<h div 2 * w])"
proof -
  let ?ps = "List.product (step_by2 h) (step_by2 w)"
  let ?f = "\<lambda>k. chroma_at blue_ref red_ref bgra (k div w * 2 * w + k mod w div 2 * 2) k"
  have "run_steps (uv_pixel bgra w) ?ps (replicate (w * h div 2) 0) =
      run_steps wr (concat (map (uv_writes bgra w) ?ps)) (replicate (w * h div 2) 0)"
    by (rule run_steps_writes) (use uv_pixel_wr(1)[OF _ assms(2-4)] in blast)
  also have "\<dots> = Some (map ?f [0..<h div 2 * w])"
  proof (rule run_wr)
    show "\<forall>x\<in>set (concat (map (uv_writes bgra w) ?ps)). fst x < h div 2 * w \<and> snd x = ?f (fst x)"
    proof
      fix x assume "x \<in> set (concat (map (uv_writes bgra w) ?ps))"
      then obtain p where p: "p \<in> set ?ps" "x \<in> set (uv_writes bgra w p)" by auto
      note b = uv_pixel_wr(2-5)[OF p(1) assms(2-4)]
      have "Suc (fst p div 2) * w \<le> h div 2 * w" using b(1) by (intro mult_le_mono1) simp
      then have "fst p div 2 * w + snd p + 1 < h div 2 * w" using b(2) by (simp add: algebra_simps)
      moreover have "fst p div 2 * 2 = fst p" "(snd p + 1) div 2 * 2 = snd p" "snd p div 2 * 2 = snd p" using b(3,4) by auto
      moreover have "Suc (fst p div 2 * w + snd p) div w = fst p div 2" "Suc (fst p div 2 * w + snd p) mod w = Suc (snd p)"
        using b(2) div_mult_self1[of w "Suc (snd p)" "fst p div 2"] mod_mult_self1[of "Suc (snd p)" "fst p div 2" w]
        by (simp_all add: add.commute)
      ultimately show "fst x < h div 2 * w \<and> snd x = ?f (fst x)"
        using p(2) b assms(2) by (auto simp: chroma_at_def)
    qed
    show "\<forall>i<h div 2 * w. i \<in> fst ` set (concat (map (uv_writes bgra w) ?ps)) \<or> replicate (w * h div 2) 0 ! i = ?f i"
    proof (intro allI impI disjI1)
      fix i assume i: "i < h div 2 * w"
      let ?p = "(i div w * 2, i mod w div 2 * 2)"
      have "i div w < h div 2" using i assms(1) by (simp add: div_less_iff_less_mult)
      moreover have "i mod w div 2 < w div 2" using assms(1,2) by (simp add: div_less_iff_less_mult)
      ultimately have "?p \<in> set ?ps" using assms(2,3) by (auto simp: step_by2_def image_iff)
      moreover have "m = m div 2 * 2 \<or> m = m div 2 * 2 + 1" for m :: nat by presburger
      from this[of "i mod w"] have "i = i div w * w + i mod w div 2 * 2 \<or> i = i div w * w + i mod w div 2 * 2 + 1"
        using div_mult_mod_eq[of i w] by linarith
      then have "i \<in> fst ` set (uv_writes bgra w ?p)" by auto
      ultimately show "i \<in> fst ` set (concat (map (uv_writes bgra w) ?ps))" by (simp only: set_concat set_map image_UN UN_iff) blast
    qed
  qed (use assms(3) in \<open>auto elim!: evenE\<close>)
  finally show ?thesis .
qed

lemma ref_bytes:
  assumes "0 < w" "even w" "even h" "0 < h" "h * w * 4 \<le> length bgra"
  shows "bgra_to_nv12 bgra w h = Some (nv12_of luma_ref blue_ref red_ref bgra (src_px w h w h) w h)"
  using ref_y_plane[OF assms(1,5)] ref_uv_plane[OF assms(1-3,5)] assms(1,4)
  by (simp add: bgra_to_nv12_def nv12_of_def src_px_same)

section \<open>Properties\<close>

text \<open>
  C17: the integer conversion agrees with the reference. On every frame with even sides the fast conversion without scaling
  and the \<^verbatim>\<open>f32\<close> conversion both finish, give planes of the same length, and differ by at most one level in each byte.
\<close>

theorem nv12_fast_matches_reference:
  assumes "0 < w" "0 < h" "even w" "even h" "h * w * 4 \<le> length bgra"
  shows "\<exists>reference fast. bgra_to_nv12 bgra w h = Some reference \<and> bgra_scale_to_nv12 bgra w h w h = Some fast
    \<and> length fast = length reference \<and> (\<forall>k<length reference. \<bar>uint (fast ! k) - uint (reference ! k)\<bar> \<le> 1)"
proof -
  have "list_all2 close (nv12_of luma_ref blue_ref red_ref bgra src w h) (nv12_of luma_int blue_int red_int bgra src w h)" for src
    using luma_close blue_close red_close
    by (auto simp: nv12_of_def luma_ref_def blue_ref_def red_ref_def luma_at_def chroma_at_def list_all2_map1 list_all2_map2
        split: prod.split intro!: list_all2_appendI list.rel_refl_strong)
  then show ?thesis
    using ref_bytes[OF assms(1,3,4,2,5)] scaled_bytes[OF assms(3,4,1,1,2,5)]
    by (auto simp: list_all2_conv_all_nth close_def abs_minus_commute)
qed

definition sample_bgra :: bytes where
  "sample_bgra = [0, 0, 255, 0, 0, 255, 0, 0, 255, 0, 0, 0, 9, 9, 9, 0]"

theorem nv12_fast_matches_reference_witness:
  "\<exists>reference. bgra_to_nv12 sample_bgra 2 2 = Some reference \<and> length reference = 6 \<and> \<bar>82 - uint (reference ! 0)\<bar> \<le> 1"
proof -
  obtain reference fast where r: "bgra_to_nv12 sample_bgra 2 2 = Some reference" "bgra_scale_to_nv12 sample_bgra 2 2 2 2 = Some fast"
      "length fast = length reference" "\<And>k. k < length reference \<Longrightarrow> \<bar>uint (fast ! k) - uint (reference ! k)\<bar> \<le> 1"
    using nv12_fast_matches_reference[of 2 2 sample_bgra] by (auto simp: sample_bgra_def)
  have "bgra_scale_to_nv12 sample_bgra 2 2 2 2 = Some [82, 144, 41, 24, 90, 240]" by code_simp
  then have f: "fast = [82, 144, 41, 24, 90, 240]" using r(2) by simp
  then have "length reference = 6" using r(3) by simp
  then show ?thesis using r(1) r(4)[of 0] f by simp
qed

text \<open>
  C36: every output is a well-formed frame. For any source with pixels and any target with even sides the fast conversion
  reads and writes only inside its buffers and yields three half bytes per pixel, in the ranges the encoder expects: luma
  from 16 to 235, chroma from 16 to 240.
\<close>

theorem nv12_frame_well_formed:
  assumes "even tw" "even th" "0 < tw" "0 < src_w" "0 < src_h" "src_h * src_w * 4 \<le> length bgra"
  shows "\<exists>out. bgra_scale_to_nv12 bgra src_w src_h tw th = Some out \<and> 2 * length out = 3 * (tw * th)
    \<and> (\<forall>y\<in>set (take (tw * th) out). 16 \<le> y \<and> y \<le> 235) \<and> (\<forall>c\<in>set (drop (tw * th) out). 16 \<le> c \<and> c \<le> 240)"
proof -
  have luma: "16 \<le> luma_int b g r \<and> luma_int b g r \<le> 235" for b g r
  proof -
    define n where "n = 66 * uint r + 129 * uint g + 25 * uint b + 128"
    have "0 \<le> n" "n \<le> 56228" using uint_byte[of r] uint_byte[of g] uint_byte[of b] by (simp_all add: n_def)
    then have "0 \<le> n div 256" "n div 256 \<le> 219" by linarith+
    then show ?thesis by (simp add: word_le_def luma_int_uint n_def)
  qed
  have chroma: "16 \<le> clamp_byte ((n + 128) div 256 + 128) \<and> clamp_byte ((n + 128) div 256 + 128) \<le> 240"
    if "- 28560 \<le> n" "n \<le> 28560" for n
  proof -
    have "- 112 \<le> (n + 128) div 256" "(n + 128) div 256 \<le> 112" using that by linarith+
    then show ?thesis by (simp add: word_le_def clamp_byte_uint)
  qed
  have blue: "16 \<le> blue_int b g r \<and> blue_int b g r \<le> 240" and red: "16 \<le> red_int b g r \<and> red_int b g r \<le> 240" for b g r
    unfolding blue_int_def red_int_def using uint_byte[of r] uint_byte[of g] uint_byte[of b] by (intro chroma; linarith)+
  obtain m where "th = 2 * m" using even_halves[OF assms(2)] .
  then show ?thesis
    using scaled_bytes[OF assms] luma blue red
    by (auto simp: nv12_of_def luma_at_def chroma_at_def mult.commute split: prod.split)
qed

theorem nv12_frame_well_formed_witness:
  "\<exists>out. bgra_scale_to_nv12 sample_bgra 2 2 4 2 = Some out \<and> length out = 12 \<and> (\<forall>y\<in>set (take 8 out). y \<le> 235)"
  using nv12_frame_well_formed[of 4 2 2 2 sample_bgra] by (auto simp: sample_bgra_def)

end
