(* ===== verification/Kmc_HostRun.thy ===== *)
theory Kmc_HostRun
  imports Kmc_Rtsp Kmc_Bitrate Kmc_Pixels
begin

text \<open>
  The streaming host around the servers (\<^verbatim>\<open>kmc-streamhost/src/host.rs\<close>): what a PLAY request does, the size and bit rate of
  the encoder, and the loop that starts and stops the capture pipeline with the client. Opening sockets, querying the
  monitor and the pipeline itself are events.
\<close>

section \<open>Size and bit rate\<close>

text \<open>The picture is scaled down to the client's box, never up; both sides even and at least two.\<close>

definition fit_size :: "int \<Rightarrow> int \<Rightarrow> int \<Rightarrow> int \<Rightarrow> int \<times> int" where
  "fit_size nw nh bw bh =
     (let (w, h) = (if bw = 0 \<or> bh = 0 \<or> (nw \<le> bw \<and> nh \<le> bh) then (nw, nh)
        else let s = min (f64 (of_int bw / of_int nw)) (f64 (of_int bh / of_int nh))
             in (max (f64_as_u32 (f64 (of_int nw * s))) 2, max (f64_as_u32 (f64 (of_int nh * s))) 2))
      in (w div 2 * 2, h div 2 * 2))"

definition native_size :: "(u32 \<times> u32) option \<Rightarrow> stream_context \<Rightarrow> int \<times> int" where
  "native_size monitor ctx =
     (case monitor of
        Some (mw, mh) \<Rightarrow> (max (uint mw) 2, max (uint mh) 2)
      | None \<Rightarrow> (max (uint (sc_width ctx)) 2, max (uint (sc_height ctx)) 2))"

definition DEFAULT_BITRATE :: int where "DEFAULT_BITRATE = 15000000"

definition negotiated_bitrate :: "stream_context \<Rightarrow> int" where
  "negotiated_bitrate ctx = (if sc_bitrate_bps ctx = 0 then DEFAULT_BITRATE else uint (sc_bitrate_bps ctx))"

record encoder_settings =
  es_width :: int
  es_height :: int
  es_fps :: int
  es_bitrate :: int
  es_codec :: string

definition encoder_settings_for :: "(u32 \<times> u32) option \<Rightarrow> stream_context \<Rightarrow> encoder_settings" where
  "encoder_settings_for monitor ctx =
     (let (nw, nh) = native_size monitor ctx;
          (w, h) = fit_size nw nh (uint (sc_width ctx)) (uint (sc_height ctx));
          fps = (if sc_fps ctx = 0 then 120 else uint (sc_fps ctx));
          px_rate = w * h * fps mod 2 ^ 64;
          bitrate_floor = min \<lfloor>f64 (f64 (of_int px_rate) * f64 (10 / 100))\<rfloor> 60000000
      in \<lparr>es_width = w, es_height = h, es_fps = fps, es_bitrate = max (negotiated_bitrate ctx) bitrate_floor,
          es_codec = (if sc_video_format ctx = 1 then ''hevc_qsv'' else ''h264_qsv'')\<rparr>)"

section \<open>The PLAY hook and the capture supervisor\<close>

text \<open>
  The task that PLAY starts opens the video and audio sockets, waits for the start signal (\<^verbatim>\<open>notify_waiters\<close> wakes only a
  task that already waits), then supervises. A pipeline is its stop flag and its done flag; \<open>hr_running\<close> is the number of the
  one in the supervisor's slot.
\<close>

datatype hook_phase = NoPipeline | Opening stream_context | AwaitStartB stream_context | Woken stream_context | Supervising encoder_settings

record host_run =
  hr_started :: bool
  hr_phase :: hook_phase
  hr_idr_req :: bool
  hr_session_reset :: bool
  hr_client_active :: bool
  hr_bitrate :: bitrate_controller
  hr_pipes :: "(bool \<times> bool) list"
  hr_running :: "nat option"

definition host_run_new :: "bitrate_controller \<Rightarrow> host_run" where
  "host_run_new bc =
     \<lparr>hr_started = False, hr_phase = NoPipeline, hr_idr_req = False, hr_session_reset = False, hr_client_active = False,
      hr_bitrate = bc, hr_pipes = [], hr_running = None\<rparr>"

definition play_hook :: "instant \<Rightarrow> stream_context \<Rightarrow> host_run \<Rightarrow> host_run" where
  "play_hook now ctx r =
     (if hr_started r
      then r\<lparr>hr_session_reset := True, hr_idr_req := True, hr_bitrate := configure now (negotiated_bitrate ctx) (hr_bitrate r)\<rparr>
      else r\<lparr>hr_started := True, hr_phase := Opening ctx\<rparr>)"

definition sockets_opened :: "bool \<Rightarrow> stream_context \<Rightarrow> host_run \<Rightarrow> host_run" where
  "sockets_opened video_ok ctx r =
     (if video_ok then r\<lparr>hr_phase := AwaitStartB ctx\<rparr> else r\<lparr>hr_started := False, hr_phase := NoPipeline\<rparr>)"

definition begin_supervising :: "instant \<Rightarrow> (u32 \<times> u32) option \<Rightarrow> stream_context \<Rightarrow> host_run \<Rightarrow> host_run" where
  "begin_supervising now monitor ctx r =
     (let es = encoder_settings_for monitor ctx
      in r\<lparr>hr_bitrate := configure now (es_bitrate es) (hr_bitrate r), hr_phase := Supervising es\<rparr>)"

abbreviation pipe_stop :: "host_run \<Rightarrow> nat \<Rightarrow> bool" where "pipe_stop r i \<equiv> fst (hr_pipes r ! i)"
abbreviation pipe_done :: "host_run \<Rightarrow> nat \<Rightarrow> bool" where "pipe_done r i \<equiv> snd (hr_pipes r ! i)"

definition supervise :: "host_run \<Rightarrow> host_run" where
  "supervise r =
     (let running = (case hr_running r of None \<Rightarrow> None | Some i \<Rightarrow> if pipe_stop r i \<and> pipe_done r i then None else Some i);
          alive = (case running of None \<Rightarrow> False | Some i \<Rightarrow> \<not> pipe_stop r i);
          r1 = r\<lparr>hr_running := running\<rparr>
      in if hr_client_active r \<and> \<not> alive \<and> running = None
         then r1\<lparr>hr_pipes := hr_pipes r @ [(False, False)], hr_running := Some (length (hr_pipes r))\<rparr>
         else if \<not> hr_client_active r \<and> alive
         then (case running of None \<Rightarrow> r1 | Some i \<Rightarrow> r1\<lparr>hr_pipes := (hr_pipes r)[i := (True, pipe_done r i)]\<rparr>)
         else r1)"

datatype host_event =
    HPlay instant stream_context | HSockets bool | HStartB | HBegin instant "(u32 \<times> u32) option" | HTick
  | HActive bool | HPipeDone nat

definition host_step :: "host_event \<Rightarrow> host_run \<Rightarrow> host_run" where
  "host_step e r =
     (case e of
        HPlay now ctx \<Rightarrow> play_hook now ctx r
      | HSockets ok \<Rightarrow> (case hr_phase r of Opening ctx \<Rightarrow> sockets_opened ok ctx r | _ \<Rightarrow> r)
      | HStartB \<Rightarrow> (case hr_phase r of AwaitStartB ctx \<Rightarrow> r\<lparr>hr_phase := Woken ctx\<rparr> | _ \<Rightarrow> r)
      | HBegin now monitor \<Rightarrow> (case hr_phase r of Woken ctx \<Rightarrow> begin_supervising now monitor ctx r | _ \<Rightarrow> r)
      | HTick \<Rightarrow> (case hr_phase r of Supervising es \<Rightarrow> supervise r | _ \<Rightarrow> r)
      | HActive b \<Rightarrow> r\<lparr>hr_client_active := b\<rparr>
      | HPipeDone i \<Rightarrow> if i < length (hr_pipes r) then r\<lparr>hr_pipes := (hr_pipes r)[i := (pipe_stop r i, True)]\<rparr> else r)"

abbreviation host_run_steps :: "host_event list \<Rightarrow> host_run \<Rightarrow> host_run" where
  "host_run_steps \<equiv> fold host_step"

section \<open>The size\<close>

lemma f64_error:
  assumes "0 \<le> x" "x \<le> 8589934592"
  shows "\<bar>f64 x - x\<bar> \<le> 1 / 1000"
proof (cases "x = 0")
  case False
  then have "\<bar>fl_pos 53 x - x\<bar> \<le> x / 2 ^ 53" using assms by (intro fl_pos_error) simp
  also have "\<dots> \<le> 1 / 1000" using assms(2) by (simp add: divide_le_eq)
  finally show ?thesis using False assms by (simp add: f64_def fl_def)
qed (simp add: f64_def fl_def)

text \<open>A side scaled by the smaller ratio stays in the box and in the native size.\<close>

lemma scaled_side:
  assumes "2 \<le> n" "n < 2 ^ 32" "0 < b" "b < 2 ^ 32" "0 \<le> s" "s \<le> f64 (of_int b / of_int n)" "s \<le> 1"
  shows "f64_as_u32 (f64 (of_int n * s)) \<le> b \<and> f64_as_u32 (f64 (of_int n * s)) \<le> n"
proof -
  define q :: rat where "q = of_int b / of_int n"
  have "(of_int 2 :: rat) \<le> of_int n" using assms(1) by (simp only: of_int_le_iff)
  moreover have "(0 :: rat) < of_int b" using assms(3) by simp
  ultimately have n: "(2 :: rat) \<le> of_int n" "(of_int n :: rat) < 4294967296" "(of_int b :: rat) < 4294967296" "0 < (of_int b :: rat)"
    using of_int_less_pow[OF assms(2)] of_int_less_pow[OF assms(4)] by simp_all
  have q: "0 < q" "of_int n * q = of_int b" using n by (simp_all add: q_def)
  have "fl_pos 53 q \<le> q + q / 2 ^ 53" using abs_le_D1[OF fl_pos_error[OF q(1), of 53]] by (simp only: diff_le_eq add.commute)
  moreover have "s \<le> fl_pos 53 q" using assms(6) q(1) unfolding f64_def fl_def q_def[symmetric] by simp
  ultimately have "s \<le> q + q / 2 ^ 53" by (rule order_trans[rotated])
  then have "of_int n * s \<le> of_int n * (q + q / 2 ^ 53)" using n(1) by (intro mult_left_mono) simp_all
  also have "\<dots> = of_int b + of_int b / 2 ^ 53" unfolding distrib_left times_divide_eq_right q(2) ..
  also have "\<dots> \<le> of_int b + 1 / 1000" using n(3) by (simp add: divide_le_eq)
  finally have up: "of_int n * s \<le> of_int b + 1 / 1000" .
  have ge: "0 \<le> of_int n * s" using n(1) assms(5) by simp
  have "of_int n * s \<le> 8589934592" using up n(3) by linarith
  with ge have "\<bar>f64 (of_int n * s) - of_int n * s\<bar> \<le> 1 / 1000" by (rule f64_error)
  then have "f64 (of_int n * s) - of_int n * s \<le> 1 / 1000" by (rule abs_le_D1)
  then have "f64 (of_int n * s) < of_int (b + 1)" using up unfolding of_int_add of_int_1 by linarith
  then have "\<lfloor>f64 (of_int n * s)\<rfloor> < b + 1" by (simp only: floor_less_iff)
  then have b: "f64_as_u32 (f64 (of_int n * s)) \<le> b" using assms(3) by (simp add: f64_as_u32_def min_le_iff_disj)
  have "of_int n * s \<le> of_int n" using n(1) assms(7) by (simp add: mult_left_le)
  then have "f64 (of_int n * s) \<le> of_int n" using ge assms(2) unfolding f64_def by (intro fl_le_int) simp_all
  then have "f64_as_u32 (f64 (of_int n * s)) \<le> n" using assms(1) by (intro f64_as_u32_le) simp_all
  with b show ?thesis ..
qed

lemma ratio_of_smaller:
  assumes "2 \<le> n" "0 < b" "b < n" "n < 2 ^ 32"
  shows "0 \<le> f64 (of_int b / of_int n) \<and> f64 (of_int b / of_int n) \<le> 1"
proof -
  have "0 \<le> (of_int b / of_int n :: rat)" "(of_int b / of_int n :: rat) \<le> 1" using assms by simp_all
  then show ?thesis unfolding f64_def by (intro fl_unit) simp_all
qed

lemma f64_ratio_nonneg: "0 \<le> n \<Longrightarrow> 0 \<le> b \<Longrightarrow> 0 \<le> f64 (of_int b / of_int n)"
  unfolding f64_def by (intro fl_nonneg) simp_all

lemma fit_size_bounds:
  assumes n: "2 \<le> nw" "nw < 2 ^ 32" "2 \<le> nh" "nh < 2 ^ 32" and b: "0 \<le> bw" "bw < 2 ^ 32" "0 \<le> bh" "bh < 2 ^ 32"
    and fit: "fit_size nw nh bw bh = (w, h)"
  shows "even w \<and> even h \<and> 2 \<le> w \<and> w \<le> nw \<and> 2 \<le> h \<and> h \<le> nh
    \<and> w \<le> (if bw = 0 \<or> bh = 0 then nw else max bw 2) \<and> h \<le> (if bw = 0 \<or> bh = 0 then nh else max bh 2)"
proof -
  define s where "s = min (f64 (of_int bw / of_int nw)) (f64 (of_int bh / of_int nh))"
  define w0 h0 where "w0 = fst (if bw = 0 \<or> bh = 0 \<or> (nw \<le> bw \<and> nh \<le> bh) then (nw, nh)
        else (max (f64_as_u32 (f64 (of_int nw * s))) 2, max (f64_as_u32 (f64 (of_int nh * s))) 2))"
    and "h0 = snd (if bw = 0 \<or> bh = 0 \<or> (nw \<le> bw \<and> nh \<le> bh) then (nw, nh)
        else (max (f64_as_u32 (f64 (of_int nw * s))) 2, max (f64_as_u32 (f64 (of_int nh * s))) 2))"
  have wh: "w = w0 div 2 * 2" "h = h0 div 2 * 2"
    using fit by (auto simp: fit_size_def w0_def h0_def s_def Let_def split: if_splits)
  have scaled: "f64_as_u32 (f64 (of_int nw * s)) \<le> bw \<and> f64_as_u32 (f64 (of_int nw * s)) \<le> nw
      \<and> f64_as_u32 (f64 (of_int nh * s)) \<le> bh \<and> f64_as_u32 (f64 (of_int nh * s)) \<le> nh"
    if "\<not> (bw = 0 \<or> bh = 0 \<or> (nw \<le> bw \<and> nh \<le> bh))"
  proof -
    have s0: "0 \<le> s" using n b f64_ratio_nonneg[of nw bw] f64_ratio_nonneg[of nh bh] by (simp add: s_def)
    have s1: "s \<le> 1"
      using that n b ratio_of_smaller[of nw bw] ratio_of_smaller[of nh bh] by (auto simp: s_def min_le_iff_disj not_le)
    have le: "s \<le> f64 (of_int bw / of_int nw)" "s \<le> f64 (of_int bh / of_int nh)" by (simp_all add: s_def)
    have pos: "0 < bw" "0 < bh" using that b by simp_all
    show ?thesis
      using scaled_side[OF n(1,2) pos(1) b(2) s0 le(1) s1] scaled_side[OF n(3,4) pos(2) b(4) s0 le(2) s1] by blast
  qed
  have w0: "2 \<le> w0 \<and> w0 \<le> nw \<and> w0 \<le> (if bw = 0 \<or> bh = 0 then nw else max bw 2)"
    and h0: "2 \<le> h0 \<and> h0 \<le> nh \<and> h0 \<le> (if bw = 0 \<or> bh = 0 then nh else max bh 2)"
    using scaled n by (auto simp: w0_def h0_def)
  have "2 \<le> x div 2 * 2 \<and> x div 2 * 2 \<le> x" if "2 \<le> x" for x :: int using that by presburger
  from this[of w0] this[of h0] show ?thesis using w0 h0 unfolding wh by auto
qed

text \<open>
  C32: whatever the client asks for, the encoder is given an even size of at least two by two that is no larger than the
  screen and, unless the client left its size open, fits the client's picture; its bit rate is at least the negotiated one
  and is raised above it at most to 60 Mbit/s.
\<close>

theorem encoder_size_fits:
  "let es = encoder_settings_for monitor ctx; (nw, nh) = native_size monitor ctx;
       bw = uint (sc_width ctx); bh = uint (sc_height ctx)
   in even (es_width es) \<and> even (es_height es) \<and> 2 \<le> es_width es \<and> 2 \<le> es_height es
     \<and> es_width es \<le> nw \<and> es_height es \<le> nh
     \<and> es_width es \<le> (if bw = 0 \<or> bh = 0 then nw else max bw 2)
     \<and> es_height es \<le> (if bw = 0 \<or> bh = 0 then nh else max bh 2)
     \<and> negotiated_bitrate ctx \<le> es_bitrate es \<and> es_bitrate es \<le> max (negotiated_bitrate ctx) 60000000"
proof -
  obtain nw nh where nat: "native_size monitor ctx = (nw, nh)" by (cases "native_size monitor ctx")
  obtain w h where fit: "fit_size nw nh (uint (sc_width ctx)) (uint (sc_height ctx)) = (w, h)"
    by (cases "fit_size nw nh (uint (sc_width ctx)) (uint (sc_height ctx))")
  have u: "0 \<le> uint x \<and> uint x < 2 ^ 32" for x :: u32 using uint_bounded[of x] by simp
  have n: "2 \<le> nw" "nw < 2 ^ 32" "2 \<le> nh" "nh < 2 ^ 32"
    using nat u by (auto simp: native_size_def max_def split: option.splits prod.splits if_splits)
  have es: "es_width (encoder_settings_for monitor ctx) = w" "es_height (encoder_settings_for monitor ctx) = h"
      "negotiated_bitrate ctx \<le> es_bitrate (encoder_settings_for monitor ctx)"
      "es_bitrate (encoder_settings_for monitor ctx) \<le> max (negotiated_bitrate ctx) 60000000"
    using nat fit by (simp_all add: encoder_settings_for_def Let_def min_le_iff_disj max.coboundedI2)
  show ?thesis
    using fit_size_bounds[OF n _ _ _ _ fit] u[of "sc_width ctx"] u[of "sc_height ctx"] es(3,4)
    unfolding Let_def nat es(1,2) prod.case by blast
qed

section \<open>The capture supervisor\<close>

definition pipes_ok :: "(bool \<times> bool) list \<Rightarrow> nat option \<Rightarrow> bool" where
  "pipes_ok ps running =
     ((\<forall>i. Suc i < length ps \<longrightarrow> snd (ps ! i))
      \<and> (running = None \<longrightarrow> (\<forall>i < length ps. snd (ps ! i)))
      \<and> (\<forall>i. running = Some i \<longrightarrow> Suc i = length ps))"

abbreviation pipes_inv :: "host_run \<Rightarrow> bool" where
  "pipes_inv r \<equiv> pipes_ok (hr_pipes r) (hr_running r)"

lemma pipes_ok_freed: "pipes_ok ps (Some i) \<Longrightarrow> snd (ps ! i) \<Longrightarrow> pipes_ok ps None"
  unfolding pipes_ok_def by simp (metis Suc_lessI Suc_inject)

lemma pipes_ok_start: "pipes_ok ps None \<Longrightarrow> pipes_ok (ps @ [p]) (Some (length ps))"
  by (simp add: pipes_ok_def nth_append)

lemma flag_kept: "snd (ps ! j) \<Longrightarrow> snd (ps ! i) \<longrightarrow> snd p \<Longrightarrow> j < length ps \<Longrightarrow> snd (ps[i := p] ! j)"
  by (cases "i = j") simp_all

lemma pipes_ok_flag: "pipes_ok ps running \<Longrightarrow> snd (ps ! i) \<longrightarrow> snd p \<Longrightarrow> pipes_ok (ps[i := p]) running"
  using flag_kept[of ps _ i p] by (simp add: pipes_ok_def)

lemma pipes_ok_none [simp]: "pipes_ok [] None"
  by (simp add: pipes_ok_def)

lemma pipes_inv_supervise: "pipes_inv r \<Longrightarrow> pipes_inv (supervise r)"
  using pipes_ok_freed[of "hr_pipes r"] pipes_ok_start[of "hr_pipes r"] pipes_ok_flag[of "hr_pipes r"]
  by (cases "hr_running r") (simp_all add: supervise_def Let_def)

lemma pipes_inv_step: "pipes_inv r \<Longrightarrow> pipes_inv (host_step e r)"
  using pipes_ok_flag[of "hr_pipes r" "hr_running r"]
  by (cases e) (simp_all add: host_step_def play_hook_def sockets_opened_def begin_supervising_def Let_def
    pipes_inv_supervise split: hook_phase.split)

lemma pipes_inv_steps: "pipes_inv r \<Longrightarrow> pipes_inv (host_run_steps es r)"
  by (induction es arbitrary: r) (simp_all add: pipes_inv_step)

lemma pipes_inv_reachable: "pipes_inv (host_run_steps es (host_run_new bc))"
  by (rule pipes_inv_steps) (simp add: host_run_new_def)

lemma pipes_ok_one: "pipes_ok ps running \<Longrightarrow> length (filter (\<lambda>p. \<not> snd p) ps) \<le> 1"
proof (cases ps rule: rev_cases)
  case (snoc qs q)
  assume "pipes_ok ps running"
  then have "\<forall>p \<in> set qs. snd p" 
    by (simp add: snoc pipes_ok_def all_set_conv_all_nth nth_append)
  then show ?thesis by (simp add: snoc filter_False)
qed simp

text \<open>
  C20: at most one capture pipeline is ever live: whatever the order of PLAY requests, signals, ticks, client activity and
  pipelines coming to an end, all pipelines started so far but one have reported that they are done, and the one in the
  supervisor's slot is the last one started.
\<close>

theorem one_pipeline:
  "let r = host_run_steps es (host_run_new bc)
   in length (filter (\<lambda>p. \<not> snd p) (hr_pipes r)) \<le> 1
     \<and> hr_running r \<in> {None, Some (length (hr_pipes r) - 1)}"
proof -
  have inv: "pipes_inv (host_run_steps es (host_run_new bc))" by (rule pipes_inv_reachable)
  then have "hr_running (host_run_steps es (host_run_new bc))
      \<in> {None, Some (length (hr_pipes (host_run_steps es (host_run_new bc))) - 1)}"
    by (cases "hr_running (host_run_steps es (host_run_new bc))") (auto simp: pipes_ok_def)
  with pipes_ok_one[OF inv] show ?thesis by (simp add: Let_def)
qed

lemma tick_follows:
  assumes "pipes_inv r" "hr_phase r = Supervising st"
  shows "case hr_running (host_run_steps [HActive b, HTick, HPipeDone (length (hr_pipes r) - 1), HTick] r) of
      None \<Rightarrow> \<not> b
    | Some i \<Rightarrow> b \<and> \<not> pipe_stop (host_run_steps [HActive b, HTick, HPipeDone (length (hr_pipes r) - 1), HTick] r) i"
  using assms
  by (cases "hr_running r")
    (auto simp: host_step_def supervise_def Let_def pipes_ok_def nth_append nth_list_update split: option.splits)

text \<open>
  The capture follows the client: from any state the host can reach with the stream set up, once the client watches (or
  stops watching), two ticks of the supervisor with the last pipeline coming to its end between them leave a pipeline in the
  slot that was not told to stop (or leave the slot empty).
\<close>

theorem capture_follows_client:
  assumes "hr_phase (host_run_steps es (host_run_new bc)) = Supervising st"
  shows "let r = host_run_steps es (host_run_new bc);
             r' = host_run_steps [HActive b, HTick, HPipeDone (length (hr_pipes r) - 1), HTick] r
         in case hr_running r' of None \<Rightarrow> \<not> b | Some i \<Rightarrow> b \<and> \<not> pipe_stop r' i"
  unfolding Let_def by (rule tick_follows[OF pipes_inv_reachable assms])

definition sample_context :: stream_context where
  "sample_context = stream_context_default\<lparr>sc_width := 1280, sc_height := 720, sc_fps := 60, sc_bitrate_bps := 15000000\<rparr>"

abbreviation sample_start :: "host_event list" where
  "sample_start \<equiv> [HPlay 0 sample_context, HSockets True, HStartB, HBegin 0 (Some (1920, 1080))]"

lemma sample_supervising:
  "hr_phase (host_run_steps sample_start (host_run_new (bc_default 0)))
     = Supervising (encoder_settings_for (Some (1920, 1080)) sample_context)"
  by (simp add: host_step_def play_hook_def sockets_opened_def begin_supervising_def host_run_new_def Let_def)

theorem capture_follows_client_witness:
  "let r = host_run_steps sample_start (host_run_new (bc_default 0));
       r' = host_run_steps [HActive True, HTick, HPipeDone (length (hr_pipes r) - 1), HTick] r
   in case hr_running r' of None \<Rightarrow> \<not> True | Some i \<Rightarrow> True \<and> \<not> pipe_stop r' i"
  by (rule capture_follows_client[OF sample_supervising])

lemma dead_step:
  assumes "hr_running r = Some i" "\<not> pipe_stop r i" "pipe_done r i" "hr_client_active r" "e \<noteq> HActive False"
    "\<forall>j < length (hr_pipes r). pipe_done r j"
  shows "hr_running (host_step e r) = Some i \<and> hr_pipes (host_step e r) = hr_pipes r \<and> hr_client_active (host_step e r)"
proof -
  have "(hr_pipes r)[j := (pipe_stop r j, True)] = hr_pipes r" if "j < length (hr_pipes r)" for j
    using assms(6) that by (metis list_update_id prod.collapse)
  then show ?thesis using assms
    by (cases e) (auto simp: host_step_def play_hook_def sockets_opened_def begin_supervising_def supervise_def Let_def
      split: hook_phase.split)
qed

lemma dead_steps:
  assumes "hr_running r = Some i" "\<not> pipe_stop r i" "pipe_done r i" "hr_client_active r" "HActive False \<notin> set es"
    "\<forall>j < length (hr_pipes r). pipe_done r j"
  shows "hr_running (host_run_steps es r) = Some i \<and> hr_pipes (host_run_steps es r) = hr_pipes r"
  using assms
proof (induction es arbitrary: r)
  case (Cons e es)
  have "hr_running (host_step e r) = Some i \<and> hr_pipes (host_step e r) = hr_pipes r \<and> hr_client_active (host_step e r)"
    using Cons.prems by (intro dead_step) auto
  then show ?case using Cons.IH[of "host_step e r"] Cons.prems by simp
qed simp

text \<open>
  A pipeline that ends by itself is not replaced: when every pipeline started has reported that it is done and the one in
  the slot was not told to stop, then for as long as the client keeps watching no other one is started, whatever else happens.
\<close>

theorem dead_pipeline_not_restarted:
  assumes "hr_running (host_run_steps es (host_run_new bc)) = Some i"
    and "\<not> pipe_stop (host_run_steps es (host_run_new bc)) i" and "pipe_done (host_run_steps es (host_run_new bc)) i"
    and "hr_client_active (host_run_steps es (host_run_new bc))" and "HActive False \<notin> set later"
  shows "hr_pipes (host_run_steps (es @ later) (host_run_new bc)) = hr_pipes (host_run_steps es (host_run_new bc))
    \<and> length (filter (\<lambda>p. \<not> snd p) (hr_pipes (host_run_steps (es @ later) (host_run_new bc)))) = 0"
proof -
  let ?r = "host_run_steps es (host_run_new bc)"
  have "pipes_ok (hr_pipes ?r) (Some i)" using pipes_inv_reachable[of es bc] assms(1) by simp
  then have all: "\<forall>j < length (hr_pipes ?r). pipe_done ?r j"
    using pipes_ok_freed[of "hr_pipes ?r" i] assms(3) unfolding pipes_ok_def by blast
  then have "filter (\<lambda>p. \<not> snd p) (hr_pipes ?r) = []" by (simp add: filter_empty_conv all_set_conv_all_nth)
  moreover have "hr_pipes (host_run_steps later ?r) = hr_pipes ?r" using dead_steps[OF assms all] ..
  ultimately show ?thesis by (simp only: fold_append comp_apply list.size)
qed

theorem dead_pipeline_not_restarted_witness:
  "let r = host_run_steps (sample_start @ [HActive True, HTick, HPipeDone 0]) (host_run_new (bc_default 0))
   in hr_pipes (host_run_steps ((sample_start @ [HActive True, HTick, HPipeDone 0]) @ [HTick, HTick]) (host_run_new (bc_default 0)))
        = hr_pipes r \<and> hr_pipes r = [(False, True)]"
proof -
  let ?r = "host_run_steps (sample_start @ [HActive True, HTick, HPipeDone 0]) (host_run_new (bc_default 0))"
  have r: "hr_running ?r = Some 0" "hr_pipes ?r = [(False, True)]" "hr_client_active ?r"
    by (simp_all add: host_step_def play_hook_def sockets_opened_def begin_supervising_def supervise_def host_run_new_def Let_def)
  have "hr_pipes (host_run_steps ((sample_start @ [HActive True, HTick, HPipeDone 0]) @ [HTick, HTick]) (host_run_new (bc_default 0)))
        = hr_pipes ?r"
    using dead_pipeline_not_restarted[of "sample_start @ [HActive True, HTick, HPipeDone 0]" "bc_default 0" 0 "[HTick, HTick]"] r
    by simp
  with r(2) show ?thesis by (simp add: Let_def)
qed

lemma await_steps:
  "HStartB \<notin> set es \<Longrightarrow> hr_started r \<Longrightarrow> hr_phase r = AwaitStartB ctx \<Longrightarrow> hr_pipes r = [] \<Longrightarrow>
    hr_phase (host_run_steps es r) = AwaitStartB ctx \<and> hr_pipes (host_run_steps es r) = []"
proof (induction es arbitrary: r)
  case (Cons e es)
  have "hr_started (host_step e r) \<and> hr_phase (host_step e r) = AwaitStartB ctx \<and> hr_pipes (host_step e r) = []"
    using Cons.prems by (cases e) (auto simp: host_step_def play_hook_def)
  then show ?case using Cons.IH[of "host_step e r"] Cons.prems by simp
qed simp

text \<open>
  The start signal is lost when it comes too early: \<^verbatim>\<open>notify_waiters\<close> wakes only a task that is already waiting, so a
  StartB that arrives while the PLAY task is still opening its sockets starts nothing, and unless the client sends another
  one no capture pipeline is ever started, however often it watches or plays again.
\<close>

theorem startb_lost:
  assumes "HStartB \<notin> set es"
  shows "hr_pipes (host_run_steps ([HPlay now ctx, HStartB, HSockets True] @ es) (host_run_new bc)) = []"
proof -
  have "hr_pipes (host_run_steps es (host_run_steps [HPlay now ctx, HStartB, HSockets True] (host_run_new bc))) = []"
    using await_steps[OF assms, of "host_run_steps [HPlay now ctx, HStartB, HSockets True] (host_run_new bc)" ctx]
    by (simp add: host_step_def play_hook_def sockets_opened_def host_run_new_def)
  then show ?thesis by simp
qed

theorem startb_lost_witness:
  "hr_pipes (host_run_steps ([HPlay 0 sample_context, HStartB, HSockets True] @ [HActive True, HBegin 0 None, HTick, HTick])
     (host_run_new (bc_default 0))) = []
   \<and> hr_pipes (host_run_steps (sample_start @ [HActive True, HTick]) (host_run_new (bc_default 0))) = [(False, False)]"
  using startb_lost[of "[HActive True, HBegin 0 None, HTick, HTick]" 0 sample_context "bc_default 0"]
  by (simp add: host_step_def play_hook_def sockets_opened_def begin_supervising_def supervise_def host_run_new_def Let_def)

end
