(* ===== verification/Kmc_Hub.thy ===== *)
theory Kmc_Hub
  imports Complex_Main Kmc_Prelude "HOL-Library.List_Lexorder"
begin

text \<open>
  \<^verbatim>\<open>kmc-hub\<close>: the server that registers laptops, keeps the agents' connections, hands out control
  sessions to administrators and relays commands. Every definition is one lock region or one request
  handler; the handlers are compositions of the regions in the order of the code. The random
  identifiers and tokens a handler draws, and the argon2 functions, are arguments.
\<close>

section \<open>Protocol types (\<^verbatim>\<open>kmc-proto\<close>)\<close>

type_synonym uuid = nat
type_synonym token = string

record process_info =
  pi_pid :: u32
  pi_name :: string
  pi_cpu :: rat
  pi_mem_bytes :: u64

record status_report =
  sr_battery_percent :: "rat option"
  sr_battery_charging :: "bool option"
  sr_disk_free_bytes :: u64
  sr_disk_total_bytes :: u64
  sr_processes :: "process_info list"
  sr_reported_at :: string
  sr_encoder_ok :: "bool option"

datatype command_kind = PowerShell string | Gui string string

record command_request =
  cr_command_id :: uuid
  cr_kind :: command_kind
  cr_destructive :: bool

record command_result =
  cres_command_id :: uuid
  cres_exit_code :: "int option"
  cres_stdout :: string
  cres_stderr :: string
  cres_error :: "string option"

datatype agent_to_hub =
    Hello uuid string token "string option"
  | Status status_report
  | CommandResult command_result

datatype hub_to_agent = HelloOk | RunCommand command_request

record agent_view =
  av_agent_id :: uuid
  av_name :: string
  av_online :: bool
  av_status :: "status_report option"
  av_controlled_by :: "string option"
  av_tailscale_addr :: "string option"

datatype alert_level = Info | Warning | Critical

datatype hub_to_admin =
    Snapshot "agent_view list"
  | AgentUpdated agent_view
  | Alert uuid alert_level string

definition LOW_BATTERY_THRESHOLD :: rat where "LOW_BATTERY_THRESHOLD = 20"

section \<open>State\<close>

record laptop =
  lt_agent_id :: uuid
  lt_mac :: string
  lt_name :: string
  lt_provision_token :: token

record admin =
  ad_id :: int
  ad_username :: string
  ad_password_hash :: string

text \<open>
  \<^verbatim>\<open>tx\<close> is the sending half of the connection's queue; \<open>hub_live\<close> holds the connections whose receiving half still
  exists, and \<open>hub_sent\<close> what was queued.
\<close>

record agent_conn =
  ac_name :: string
  ac_last_status :: "status_report option"
  ac_conn_id :: nat

record control_session =
  cs_admin_username :: string
  cs_session_token :: token

record hub =
  hub_laptops :: "laptop list"
  hub_admins :: "admin list"
  hub_admin_tokens :: "token \<rightharpoonup> int"
  hub_admin_names :: "token \<rightharpoonup> string"
  hub_online :: "uuid \<rightharpoonup> agent_conn"
  hub_agent_addr :: "uuid \<rightharpoonup> string"
  hub_sessions :: "uuid \<rightharpoonup> control_session"
  hub_pending :: "uuid set"
  hub_delivered :: "command_result list"
  hub_bcast :: "hub_to_admin list"
  hub_next_conn_id :: nat
  hub_live :: "nat set"
  hub_sent :: "(nat \<times> hub_to_agent) list"

definition hub_new :: "laptop list \<Rightarrow> admin list \<Rightarrow> hub" where
  "hub_new ls as =
     \<lparr>hub_laptops = ls, hub_admins = as, hub_admin_tokens = Map.empty, hub_admin_names = Map.empty,
      hub_online = Map.empty, hub_agent_addr = Map.empty, hub_sessions = Map.empty, hub_pending = {},
      hub_delivered = [], hub_bcast = [], hub_next_conn_id = 1, hub_live = {}, hub_sent = []\<rparr>"

text \<open>A response: the status code and, for a success, its body.\<close>

datatype 'a response = Ok_200 'a | Err nat string

section \<open>Database (\<^verbatim>\<open>db.rs\<close>)\<close>

text \<open>
  The tables are lists of rows in insertion order; \<^verbatim>\<open>agent_id\<close>, \<^verbatim>\<open>mac\<close> and \<^verbatim>\<open>username\<close> are unique, so an
  \<^verbatim>\<open>INSERT\<close> that repeats one fails (\<^term>\<open>None\<close>).
\<close>

definition get_or_create_laptop :: "uuid \<Rightarrow> token \<Rightarrow> string \<Rightarrow> laptop list \<Rightarrow> (laptop \<times> laptop list) option" where
  "get_or_create_laptop fresh_id fresh_token mac ls =
     (case find (\<lambda>l. lt_mac l = mac) ls of
        Some l \<Rightarrow> Some (l, ls)
      | None \<Rightarrow>
          let name = ''student-'' @ pad2 (length ls + 1);
              l = \<lparr>lt_agent_id = fresh_id, lt_mac = mac, lt_name = name, lt_provision_token = fresh_token\<rparr>
          in if fresh_id \<in> lt_agent_id ` set ls then None else Some (l, ls @ [l]))"

definition verify_agent :: "uuid \<Rightarrow> token \<Rightarrow> laptop list \<Rightarrow> string option" where
  "verify_agent a t ls = map_option lt_name (find (\<lambda>l. lt_agent_id l = a \<and> lt_provision_token l = t) ls)"

definition all_laptops :: "laptop list \<Rightarrow> (uuid \<times> string) list" where
  "all_laptops ls = map (\<lambda>l. (lt_agent_id l, lt_name l)) (sort_key (\<lambda>l. map (of_char :: char \<Rightarrow> nat) (lt_name l)) ls)"

definition laptop_name :: "uuid \<Rightarrow> laptop list \<Rightarrow> string option" where
  "laptop_name a ls = map_option lt_name (find (\<lambda>l. lt_agent_id l = a) ls)"

definition verify_admin :: "(string \<Rightarrow> string \<Rightarrow> bool) \<Rightarrow> string \<Rightarrow> string \<Rightarrow> admin list \<Rightarrow> int option" where
  "verify_admin argon2_verify username password as =
     (case find (\<lambda>a. ad_username a = username) as of
        None \<Rightarrow> None
      | Some a \<Rightarrow> if argon2_verify password (ad_password_hash a) then Some (ad_id a) else None)"

definition add_admin :: "(string \<Rightarrow> string) \<Rightarrow> string \<Rightarrow> string \<Rightarrow> admin list \<Rightarrow> admin list option" where
  "add_admin argon2_hash username password as =
     (if username \<in> ad_username ` set as then None
      else Some (as @ [\<lparr>ad_id = int (length as) + 1, ad_username = username, ad_password_hash = argon2_hash password\<rparr>]))"

section \<open>Views and broadcasts (\<^verbatim>\<open>state.rs\<close>)\<close>

definition admin_from_token :: "token \<Rightarrow> hub \<Rightarrow> string option" where
  "admin_from_token t h = hub_admin_names h t"

definition build_agent_view :: "uuid \<Rightarrow> hub \<Rightarrow> agent_view option" where
  "build_agent_view a h =
     (case laptop_name a (hub_laptops h) of
        None \<Rightarrow> None
      | Some name \<Rightarrow>
          Some \<lparr>av_agent_id = a, av_name = name,
                av_online = (hub_online h a \<noteq> None),
                av_status = (case hub_online h a of Some c \<Rightarrow> ac_last_status c | None \<Rightarrow> None),
                av_controlled_by = map_option cs_admin_username (hub_sessions h a),
                av_tailscale_addr = None\<rparr>)"

definition hub_snapshot :: "hub \<Rightarrow> agent_view list" where
  "hub_snapshot h = concat (map (\<lambda>(a, _). case build_agent_view a h of Some v \<Rightarrow> [v] | None \<Rightarrow> []) (all_laptops (hub_laptops h)))"

definition broadcast :: "hub_to_admin \<Rightarrow> hub \<Rightarrow> hub" where
  "broadcast m h = h\<lparr>hub_bcast := hub_bcast h @ [m]\<rparr>"

definition broadcast_agent :: "uuid \<Rightarrow> hub \<Rightarrow> hub" where
  "broadcast_agent a h = (case build_agent_view a h of Some v \<Rightarrow> broadcast (AgentUpdated v) h | None \<Rightarrow> h)"

section \<open>Agent connections (\<^verbatim>\<open>agent_ws.rs\<close>)\<close>

text \<open>The first text frame must be a valid hello; \<^term>\<open>None\<close> closes the socket.\<close>

definition agent_hello :: "agent_to_hub \<Rightarrow> hub \<Rightarrow> (uuid \<times> string \<times> string option) option" where
  "agent_hello m h =
     (case m of
        Hello a n t addr \<Rightarrow> map_option (\<lambda>db_name. (a, db_name, addr)) (verify_agent a t (hub_laptops h))
      | _ \<Rightarrow> None)"

text \<open>The frames of a socket; a text frame carries the parsed message, if it parses.\<close>

datatype ws_frame = WsText "agent_to_hub option" | WsClose | WsOther | WsError

fun await_hello :: "ws_frame list \<Rightarrow> hub \<Rightarrow> (uuid \<times> string \<times> string option) option" where
  "await_hello [] h = None"
| "await_hello (WsText (Some m) # fs) h = agent_hello m h"
| "await_hello (WsText None # fs) h = None"
| "await_hello (WsClose # fs) h = None"
| "await_hello (WsOther # fs) h = await_hello fs h"
| "await_hello (WsError # fs) h = None"

definition register_online :: "uuid \<Rightarrow> string \<Rightarrow> hub \<Rightarrow> nat \<times> hub" where
  "register_online a name h =
     (let conn_id = hub_next_conn_id h;
          prev = hub_online h a;
          entry = \<lparr>ac_name = name, ac_last_status = None, ac_conn_id = conn_id\<rparr>;
          entry' = (case prev of Some p \<Rightarrow> entry\<lparr>ac_last_status := ac_last_status p\<rparr> | None \<Rightarrow> entry)
      in (conn_id, h\<lparr>hub_next_conn_id := conn_id + 1, hub_live := insert conn_id (hub_live h),
                     hub_online := (hub_online h)(a \<mapsto> entry')\<rparr>))"

definition register_addr :: "uuid \<Rightarrow> string option \<Rightarrow> string \<Rightarrow> hub \<Rightarrow> hub" where
  "register_addr a reported peer_ip h =
     h\<lparr>hub_agent_addr := (hub_agent_addr h)(a \<mapsto> (case reported of Some x \<Rightarrow> x | None \<Rightarrow> peer_ip))\<rparr>"

definition cleanup_online :: "uuid \<Rightarrow> nat \<Rightarrow> hub \<Rightarrow> bool \<times> hub" where
  "cleanup_online a conn_id h =
     (case hub_online h a of
        Some c \<Rightarrow> if ac_conn_id c = conn_id then (True, h\<lparr>hub_online := (hub_online h)(a := None)\<rparr>) else (False, h)
      | None \<Rightarrow> (False, h))"

definition cleanup_addr :: "uuid \<Rightarrow> hub \<Rightarrow> hub" where
  "cleanup_addr a h = h\<lparr>hub_agent_addr := (hub_agent_addr h)(a := None)\<rparr>"

definition cleanup_session :: "uuid \<Rightarrow> hub \<Rightarrow> hub" where
  "cleanup_session a h = h\<lparr>hub_sessions := (hub_sessions h)(a := None)\<rparr>"

definition cleanup_broadcast :: "(uuid \<Rightarrow> string) \<Rightarrow> uuid \<Rightarrow> hub \<Rightarrow> hub" where
  "cleanup_broadcast uuid_str a h =
     (let view = (case build_agent_view a h of
                    Some v \<Rightarrow> v
                  | None \<Rightarrow> \<lparr>av_agent_id = a, av_name = uuid_str a, av_online = False, av_status = None,
                             av_controlled_by = None, av_tailscale_addr = None\<rparr>)
      in broadcast (AgentUpdated view) h)"

definition cleanup :: "(uuid \<Rightarrow> string) \<Rightarrow> uuid \<Rightarrow> nat \<Rightarrow> hub \<Rightarrow> hub" where
  "cleanup uuid_str a conn_id h =
     (case cleanup_online a conn_id h of
        (True, h1) \<Rightarrow> cleanup_broadcast uuid_str a (cleanup_session a (cleanup_addr a h1))
      | (False, h1) \<Rightarrow> h1)"

text \<open>Registration up to the receive loop; \<open>hello_sent\<close> says whether the hello reply could be sent.\<close>

definition agent_connect ::
  "(uuid \<Rightarrow> string) \<Rightarrow> agent_to_hub \<Rightarrow> string \<Rightarrow> bool \<Rightarrow> hub \<Rightarrow> (uuid \<times> nat) option \<times> hub" where
  "agent_connect uuid_str m peer_ip hello_sent h =
     (case agent_hello m h of
        None \<Rightarrow> (None, h)
      | Some (a, name, reported) \<Rightarrow>
          let (conn_id, h1) = register_online a name h;
              h2 = register_addr a reported peer_ip h1
          in if hello_sent then (Some (a, conn_id), broadcast_agent a h2)
             else (None, cleanup uuid_str a conn_id (h2\<lparr>hub_live := hub_live h2 - {conn_id}\<rparr>)))"

definition agent_name :: "(uuid \<Rightarrow> string) \<Rightarrow> uuid \<Rightarrow> hub \<Rightarrow> string" where
  "agent_name uuid_str a h = (case hub_online h a of Some c \<Rightarrow> ac_name c | None \<Rightarrow> uuid_str a)"

definition low_battery :: "status_report \<Rightarrow> bool" where
  "low_battery r \<longleftrightarrow>
     (case sr_battery_percent r of Some p \<Rightarrow> p < LOW_BATTERY_THRESHOLD | None \<Rightarrow> False)
     \<and> sr_battery_charging r = Some False"

text \<open>The text between name and percentage of the alert, in UTF-8; \<open>show_pct\<close> formats the percentage.\<close>

definition LOW_BATTERY_TEXT :: string where
  "LOW_BATTERY_TEXT =
     [CHR 0x20, CHR 0xEB, CHR 0xB0, CHR 0xB0, CHR 0xED, CHR 0x84, CHR 0xB0, CHR 0xEB, CHR 0xA6, CHR 0xAC, CHR 0x20,
      CHR 0xEB, CHR 0xB6, CHR 0x80, CHR 0xEC, CHR 0xA1, CHR 0xB1, CHR 0x3A, CHR 0x20]"

definition agent_status :: "(uuid \<Rightarrow> string) \<Rightarrow> (rat \<Rightarrow> string) \<Rightarrow> uuid \<Rightarrow> status_report \<Rightarrow> hub \<Rightarrow> hub" where
  "agent_status uuid_str show_pct a r h =
     (let h1 = (case hub_online h a of
                  Some c \<Rightarrow> h\<lparr>hub_online := (hub_online h)(a \<mapsto> c\<lparr>ac_last_status := Some r\<rparr>)\<rparr>
                | None \<Rightarrow> h);
          h2 = broadcast_agent a h1;
          pct = (case sr_battery_percent r of Some p \<Rightarrow> show_pct p | None \<Rightarrow> ''?'')
      in if low_battery r then broadcast (Alert a Critical (agent_name uuid_str a h2 @ LOW_BATTERY_TEXT @ pct @ ''%'')) h2
         else h2)"

definition agent_command_result :: "command_result \<Rightarrow> hub \<Rightarrow> hub" where
  "agent_command_result r h =
     (if cres_command_id r \<in> hub_pending h
      then h\<lparr>hub_pending := hub_pending h - {cres_command_id r}, hub_delivered := hub_delivered h @ [r]\<rparr>
      else h)"

definition agent_message :: "(uuid \<Rightarrow> string) \<Rightarrow> (rat \<Rightarrow> string) \<Rightarrow> uuid \<Rightarrow> agent_to_hub \<Rightarrow> hub \<Rightarrow> hub" where
  "agent_message uuid_str show_pct a m h =
     (case m of
        Status r \<Rightarrow> agent_status uuid_str show_pct a r h
      | CommandResult r \<Rightarrow> agent_command_result r h
      | Hello _ _ _ _ \<Rightarrow> h)"

text \<open>One turn of the receive loop: whether it goes on, and the state.\<close>

definition agent_frame :: "(uuid \<Rightarrow> string) \<Rightarrow> (rat \<Rightarrow> string) \<Rightarrow> uuid \<Rightarrow> ws_frame \<Rightarrow> hub \<Rightarrow> bool \<times> hub" where
  "agent_frame uuid_str show_pct a f h =
     (case f of
        WsText (Some m) \<Rightarrow> (True, agent_message uuid_str show_pct a m h)
      | WsText None \<Rightarrow> (True, h)
      | WsClose \<Rightarrow> (False, h)
      | WsOther \<Rightarrow> (True, h)
      | WsError \<Rightarrow> (False, h))"

definition agent_disconnect :: "(uuid \<Rightarrow> string) \<Rightarrow> uuid \<Rightarrow> nat \<Rightarrow> hub \<Rightarrow> hub" where
  "agent_disconnect uuid_str a conn_id h = cleanup uuid_str a conn_id (h\<lparr>hub_live := hub_live h - {conn_id}\<rparr>)"

section \<open>Request handlers (\<^verbatim>\<open>routes.rs\<close>)\<close>

definition admin_auth :: "string option \<Rightarrow> hub \<Rightarrow> string option" where
  "admin_auth header h =
     (let hd' = (case header of Some s \<Rightarrow> s | None \<Rightarrow> '''');
          token = trim (case strip_prefix ''Bearer '' hd' of Some t \<Rightarrow> t | None \<Rightarrow> '''')
      in admin_from_token token h)"

definition provision :: "uuid \<Rightarrow> token \<Rightarrow> string \<Rightarrow> hub \<Rightarrow> laptop response \<times> hub" where
  "provision fresh_id fresh_token mac h =
     (case get_or_create_laptop fresh_id fresh_token mac (hub_laptops h) of
        Some (l, ls) \<Rightarrow> (Ok_200 l, h\<lparr>hub_laptops := ls\<rparr>)
      | None \<Rightarrow> (Err 500 ''provision failed'', h))"

definition login :: "(string \<Rightarrow> string \<Rightarrow> bool) \<Rightarrow> token \<Rightarrow> string \<Rightarrow> string \<Rightarrow> hub \<Rightarrow> token response \<times> hub" where
  "login argon2_verify fresh_token username password h =
     (case verify_admin argon2_verify username password (hub_admins h) of
        Some admin_id \<Rightarrow>
          (Ok_200 fresh_token,
           h\<lparr>hub_admin_tokens := (hub_admin_tokens h)(fresh_token \<mapsto> admin_id),
             hub_admin_names := (hub_admin_names h)(fresh_token \<mapsto> username)\<rparr>)
      | None \<Rightarrow> (Err 401 ''invalid credentials'', h))"

definition list_agents :: "string option \<Rightarrow> hub \<Rightarrow> agent_view list response" where
  "list_agents header h =
     (case admin_auth header h of
        None \<Rightarrow> Err 401 ''invalid or missing admin token''
      | Some _ \<Rightarrow> Ok_200 (hub_snapshot h))"

text \<open>The end of \<^verbatim>\<open>session_request\<close>: the lock is taken (again), the address looked up, the change announced.\<close>

definition session_grant :: "string \<Rightarrow> token \<Rightarrow> uuid \<Rightarrow> hub \<Rightarrow> (token \<times> string option) response \<times> hub" where
  "session_grant user fresh_token a h =
     (let h1 = h\<lparr>hub_sessions := (hub_sessions h)(a \<mapsto> \<lparr>cs_admin_username = user, cs_session_token = fresh_token\<rparr>)\<rparr>
      in (Ok_200 (fresh_token, hub_agent_addr h1 a), broadcast_agent a h1))"

definition session_request ::
  "string option \<Rightarrow> token \<Rightarrow> uuid \<Rightarrow> hub \<Rightarrow> (token \<times> string option) response \<times> hub" where
  "session_request header fresh_token a h =
     (case admin_auth header h of
        None \<Rightarrow> (Err 401 ''invalid or missing admin token'', h)
      | Some user \<Rightarrow>
          if laptop_name a (hub_laptops h) = None then (Err 404 ''unknown agent'', h)
          else case hub_sessions h a of
            Some s \<Rightarrow>
              if cs_admin_username s \<noteq> user then (Err 409 ''agent already controlled by another admin'', h)
              else session_grant user fresh_token a h
          | None \<Rightarrow> session_grant user fresh_token a h)"

definition session_release :: "string option \<Rightarrow> uuid \<Rightarrow> hub \<Rightarrow> unit response \<times> hub" where
  "session_release header a h =
     (case admin_auth header h of
        None \<Rightarrow> (Err 401 ''invalid or missing admin token'', h)
      | Some user \<Rightarrow>
          case hub_sessions h a of
            Some s \<Rightarrow>
              if cs_admin_username s = user
              then (Ok_200 (), broadcast_agent a (h\<lparr>hub_sessions := (hub_sessions h)(a := None)\<rparr>))
              else (Err 403 ''not the session owner'', h)
          | None \<Rightarrow> (Ok_200 (), h))"

text \<open>
  \<^verbatim>\<open>run_command\<close> up to the wait (the identifier of the command it waits for, or the error response), and
  the end of the wait. \<^verbatim>\<open>tx.send\<close> fails when the connection's queue is gone.
\<close>

definition run_command_issue ::
  "string option \<Rightarrow> uuid \<Rightarrow> uuid \<Rightarrow> command_kind option \<Rightarrow> string \<Rightarrow> bool \<Rightarrow> hub \<Rightarrow> uuid response \<times> hub" where
  "run_command_issue header fresh_id a kind script destructive h =
     (case admin_auth header h of
        None \<Rightarrow> (Err 401 ''invalid or missing admin token'', h)
      | Some _ \<Rightarrow>
          case hub_online h a of
            None \<Rightarrow> (Err 409 ''agent not online'', h)
          | Some conn \<Rightarrow>
              let h1 = h\<lparr>hub_pending := insert fresh_id (hub_pending h)\<rparr>;
                  kind' = (case kind of Some k \<Rightarrow> k | None \<Rightarrow> PowerShell script);
                  cmd = \<lparr>cr_command_id = fresh_id, cr_kind = kind', cr_destructive = destructive\<rparr>
              in if ac_conn_id conn \<in> hub_live h1
                 then (Ok_200 fresh_id, h1\<lparr>hub_sent := hub_sent h1 @ [(ac_conn_id conn, RunCommand cmd)]\<rparr>)
                 else (Err 409 ''agent connection closed'', h1\<lparr>hub_pending := hub_pending h1 - {fresh_id}\<rparr>))"

datatype wait_outcome = Got command_result | Dropped | TimedOut

definition run_command_finish :: "uuid \<Rightarrow> wait_outcome \<Rightarrow> hub \<Rightarrow> command_result response \<times> hub" where
  "run_command_finish command_id w h =
     (case w of
        Got r \<Rightarrow> (Ok_200 r, h)
      | Dropped \<Rightarrow> (Err 500 ''command channel dropped'', h\<lparr>hub_pending := hub_pending h - {command_id}\<rparr>)
      | TimedOut \<Rightarrow> (Err 504 ''command timed out'', h\<lparr>hub_pending := hub_pending h - {command_id}\<rparr>))"

text \<open>\<^verbatim>\<open>enroll\<close>: \<open>env\<close> is the process environment.\<close>

definition enroll :: "(string \<rightharpoonup> string) \<Rightarrow> string \<Rightarrow> string response" where
  "enroll env secret =
     (let get = (\<lambda>k d. case env k of Some v \<Rightarrow> v | None \<Rightarrow> d);
          expected = get ''KMC_ENROLL_SECRET'' ''''
      in if expected = '''' \<or> secret \<noteq> expected then Err 404 ''not found''
         else
           let authkey = get ''KMC_ENROLL_AUTHKEY'' '''';
               hub_url = get ''KMC_ENROLL_HUB_URL'' ''http://127.0.0.1:8080'';
               release_url = get ''KMC_RELEASE_URL''
                 ''https://github.com/JungyoKim/kmcontrol/releases/latest/download/kmc-agent-bundle.zip'';
               install_url = get ''KMC_INSTALL_URL''
                 ''https://raw.githubusercontent.com/JungyoKim/kmcontrol/main/deploy/install.ps1'';
               q = [CHR 0x27]; nl = [CHR 0x0A]
           in Ok_200 (''$env:KMC_HUB_URL='' @ q @ hub_url @ q @ nl
                @ ''$env:KMC_TS_AUTHKEY='' @ q @ authkey @ q @ nl
                @ ''$env:KMC_RELEASE_URL='' @ q @ release_url @ q @ nl
                @ ''irm '' @ q @ install_url @ q @ '' | iex'' @ nl))"

section \<open>Administrator sockets (\<^verbatim>\<open>admin_ws.rs\<close>)\<close>

text \<open>
  An administrator's socket first gets a snapshot, then subscribes, and from then on gets every broadcast; a
  receiver that fell behind gets a fresh snapshot instead. \<open>aw_next\<close> is the position in the broadcast
  channel from which it reads, \<open>aw_out\<close> what was sent to it.
\<close>

record admin_ws =
  aw_user :: string
  aw_next :: "nat option"
  aw_out :: "hub_to_admin list"

definition admin_ws_open :: "token \<Rightarrow> hub \<Rightarrow> admin_ws option" where
  "admin_ws_open t h =
     map_option (\<lambda>u. \<lparr>aw_user = u, aw_next = None, aw_out = [Snapshot (hub_snapshot h)]\<rparr>) (admin_from_token t h)"

definition admin_ws_subscribe :: "hub \<Rightarrow> admin_ws \<Rightarrow> admin_ws" where
  "admin_ws_subscribe h w = w\<lparr>aw_next := Some (length (hub_bcast h))\<rparr>"

definition BCAST_CAPACITY :: nat where "BCAST_CAPACITY = 256"

definition admin_ws_recv :: "hub \<Rightarrow> admin_ws \<Rightarrow> admin_ws" where
  "admin_ws_recv h w =
     (case aw_next w of
        None \<Rightarrow> w
      | Some n \<Rightarrow>
          if length (hub_bcast h) \<le> n then w
          else if n + BCAST_CAPACITY < length (hub_bcast h)
          then w\<lparr>aw_next := Some (length (hub_bcast h) - BCAST_CAPACITY), aw_out := aw_out w @ [Snapshot (hub_snapshot h)]\<rparr>
          else w\<lparr>aw_next := Some (n + 1), aw_out := aw_out w @ [hub_bcast h ! n]\<rparr>)"

section \<open>The server as a state machine\<close>

datatype hub_event =
    Provision uuid token string
  | Login token string string
  | SessionRequest "string option" token uuid
  | SessionRelease "string option" uuid
  | RunCmd "string option" uuid uuid "command_kind option" string bool
  | CmdEnd uuid wait_outcome
  | Connect agent_to_hub string bool
  | Message uuid agent_to_hub
  | Disconnect uuid nat

record hub_env =
  env_argon2 :: "string \<Rightarrow> string \<Rightarrow> bool"
  env_uuid_str :: "uuid \<Rightarrow> string"
  env_show_pct :: "rat \<Rightarrow> string"

definition hub_step :: "hub_env \<Rightarrow> hub_event \<Rightarrow> hub \<Rightarrow> hub" where
  "hub_step v e h =
     (case e of
        Provision i t m \<Rightarrow> snd (provision i t m h)
      | Login t u p \<Rightarrow> snd (login (env_argon2 v) t u p h)
      | SessionRequest hd' t a \<Rightarrow> snd (session_request hd' t a h)
      | SessionRelease hd' a \<Rightarrow> snd (session_release hd' a h)
      | RunCmd hd' i a k sc d \<Rightarrow> snd (run_command_issue hd' i a k sc d h)
      | CmdEnd i w \<Rightarrow> snd (run_command_finish i w h)
      | Connect m ip ok \<Rightarrow> snd (agent_connect (env_uuid_str v) m ip ok h)
      | Message a m \<Rightarrow> agent_message (env_uuid_str v) (env_show_pct v) a m h
      | Disconnect a c \<Rightarrow> agent_disconnect (env_uuid_str v) a c h)"

text \<open>The identifiers under which a sequence of events issues commands.\<close>

fun issued_ids :: "hub_event list \<Rightarrow> uuid list" where
  "issued_ids [] = []"
| "issued_ids (RunCmd hd' i a k sc d # es) = i # issued_ids es"
| "issued_ids (_ # es) = issued_ids es"

text \<open>The hub and one subscribed administrator socket, interleaved: \<^term>\<open>None\<close> is a turn of the socket's loop.\<close>

definition admin_turn :: "hub_env \<Rightarrow> hub_event option \<Rightarrow> hub \<times> admin_ws \<Rightarrow> hub \<times> admin_ws" where
  "admin_turn v e hw = (case e of Some e \<Rightarrow> (hub_step v e (fst hw), snd hw) | None \<Rightarrow> (fst hw, admin_ws_recv (fst hw) (snd hw)))"

lemma await_hello_first:
  "await_hello fs h = (case dropWhile (\<lambda>f. f = WsOther) fs of WsText (Some m) # _ \<Rightarrow> agent_hello m h | _ \<Rightarrow> None)"
  by (induction fs h rule: await_hello.induct) simp_all

lemma agent_frame_step:
  "snd (agent_frame (env_uuid_str v) (env_show_pct v) a f h) = h
   \<or> (\<exists>m. snd (agent_frame (env_uuid_str v) (env_show_pct v) a f h) = hub_step v (Message a m) h)"
  by (auto simp: agent_frame_def hub_step_def split: ws_frame.split option.split)

section \<open>Frame lemmas\<close>

lemma broadcast_frame [simp]:
  "hub_laptops (broadcast m h) = hub_laptops h" "hub_admins (broadcast m h) = hub_admins h"
  "hub_admin_tokens (broadcast m h) = hub_admin_tokens h" "hub_admin_names (broadcast m h) = hub_admin_names h"
  "hub_online (broadcast m h) = hub_online h" "hub_agent_addr (broadcast m h) = hub_agent_addr h"
  "hub_sessions (broadcast m h) = hub_sessions h" "hub_pending (broadcast m h) = hub_pending h"
  "hub_delivered (broadcast m h) = hub_delivered h" "hub_next_conn_id (broadcast m h) = hub_next_conn_id h"
  "hub_live (broadcast m h) = hub_live h" "hub_sent (broadcast m h) = hub_sent h"
  by (simp_all add: broadcast_def)

lemma broadcast_agent_frame [simp]:
  "hub_laptops (broadcast_agent a h) = hub_laptops h" "hub_admins (broadcast_agent a h) = hub_admins h"
  "hub_admin_tokens (broadcast_agent a h) = hub_admin_tokens h" "hub_admin_names (broadcast_agent a h) = hub_admin_names h"
  "hub_online (broadcast_agent a h) = hub_online h" "hub_agent_addr (broadcast_agent a h) = hub_agent_addr h"
  "hub_sessions (broadcast_agent a h) = hub_sessions h" "hub_pending (broadcast_agent a h) = hub_pending h"
  "hub_delivered (broadcast_agent a h) = hub_delivered h" "hub_next_conn_id (broadcast_agent a h) = hub_next_conn_id h"
  "hub_live (broadcast_agent a h) = hub_live h" "hub_sent (broadcast_agent a h) = hub_sent h"
  by (simp_all add: broadcast_agent_def split: option.split)

lemma cleanup_broadcast_frame [simp]:
  "hub_laptops (cleanup_broadcast u a h) = hub_laptops h" "hub_online (cleanup_broadcast u a h) = hub_online h"
  "hub_admin_tokens (cleanup_broadcast u a h) = hub_admin_tokens h" "hub_admin_names (cleanup_broadcast u a h) = hub_admin_names h"
  "hub_agent_addr (cleanup_broadcast u a h) = hub_agent_addr h" "hub_sessions (cleanup_broadcast u a h) = hub_sessions h"
  "hub_next_conn_id (cleanup_broadcast u a h) = hub_next_conn_id h" "hub_live (cleanup_broadcast u a h) = hub_live h"
  "hub_pending (cleanup_broadcast u a h) = hub_pending h" "hub_delivered (cleanup_broadcast u a h) = hub_delivered h"
  by (simp_all add: cleanup_broadcast_def Let_def)

text \<open>A disconnection clears exactly the entries of its agent, and only if it is the registered connection.\<close>

lemma cleanup_current:
  assumes "hub_online h a = Some c" "ac_conn_id c = n"
  shows "hub_online (cleanup u a n h) = (hub_online h)(a := None)"
    "hub_agent_addr (cleanup u a n h) = (hub_agent_addr h)(a := None)"
    "hub_sessions (cleanup u a n h) = (hub_sessions h)(a := None)"
  using assms by (simp_all add: cleanup_def cleanup_online_def cleanup_session_def cleanup_addr_def)

lemma cleanup_stale:
  assumes "\<And>c. hub_online h a = Some c \<Longrightarrow> ac_conn_id c \<noteq> n"
  shows "cleanup u a n h = h"
  using assms by (auto simp: cleanup_def cleanup_online_def split: option.split)

lemma cleanup_frame [simp]:
  "hub_laptops (cleanup u a n h) = hub_laptops h" "hub_admin_names (cleanup u a n h) = hub_admin_names h"
  "hub_admin_tokens (cleanup u a n h) = hub_admin_tokens h" "hub_next_conn_id (cleanup u a n h) = hub_next_conn_id h"
  "hub_live (cleanup u a n h) = hub_live h" "hub_pending (cleanup u a n h) = hub_pending h"
  "hub_delivered (cleanup u a n h) = hub_delivered h"
  by (simp_all add: cleanup_def cleanup_online_def cleanup_session_def cleanup_addr_def split: option.split)

section \<open>The invariant\<close>

definition hub_inv :: "hub \<Rightarrow> bool" where
  "hub_inv h \<longleftrightarrow>
     distinct (map lt_agent_id (hub_laptops h)) \<and> distinct (map lt_mac (hub_laptops h))
     \<and> (\<forall>a c. hub_online h a = Some c \<longrightarrow> laptop_name a (hub_laptops h) = Some (ac_name c) \<and> ac_conn_id c < hub_next_conn_id h)
     \<and> (\<forall>a b c d. hub_online h a = Some c \<and> hub_online h b = Some d \<and> ac_conn_id c = ac_conn_id d \<longrightarrow> a = b)
     \<and> dom (hub_agent_addr h) = dom (hub_online h)
     \<and> dom (hub_admin_names h) = dom (hub_admin_tokens h)
     \<and> (\<forall>a\<in>dom (hub_sessions h). laptop_name a (hub_laptops h) \<noteq> None)"

lemma find_append: "find P (xs @ ys) = (case find P xs of Some x \<Rightarrow> Some x | None \<Rightarrow> find P ys)"
  by (induction xs) auto

lemma laptop_name_append: "laptop_name a ls = Some n \<Longrightarrow> laptop_name a (ls @ ms) = Some n"
  by (auto simp: laptop_name_def find_append)

lemma find_None_set: "find P xs = None \<Longrightarrow> x \<in> set xs \<Longrightarrow> \<not> P x"
  by (simp add: find_None_iff)

lemma get_or_create_cases:
  assumes "get_or_create_laptop i t m ls = Some (l, ls')"
  obtains "find (\<lambda>l. lt_mac l = m) ls = Some l" "ls' = ls"
  | "find (\<lambda>l. lt_mac l = m) ls = None" "ls' = ls @ [l]" "lt_mac l = m" "lt_agent_id l = i"
    "lt_provision_token l = t" "i \<notin> lt_agent_id ` set ls"
  using assms by (auto simp: get_or_create_laptop_def Let_def split: option.splits if_splits)

lemma hub_inv_provision:
  assumes "hub_inv h"
  shows "hub_inv (snd (provision i t m h))"
proof (cases "get_or_create_laptop i t m (hub_laptops h)")
  case None
  then show ?thesis using assms by (simp add: provision_def)
next
  case (Some r)
  obtain l ls' where r: "r = (l, ls')" by (cases r)
  have eq: "snd (provision i t m h) = h\<lparr>hub_laptops := ls'\<rparr>" using Some r by (simp add: provision_def)
  from Some[unfolded r] show ?thesis
  proof (cases rule: get_or_create_cases)
    case 1
    then show ?thesis using assms eq by (simp add: hub_inv_def)
  next
    case 2
    have "m \<notin> lt_mac ` set (hub_laptops h)" using find_None_set[OF 2(1)] by auto
    moreover have "laptop_name a (hub_laptops h @ [l]) = laptop_name a (hub_laptops h)"
      if "laptop_name a (hub_laptops h) \<noteq> None" for a using that laptop_name_append by fastforce
    ultimately show ?thesis using assms 2 unfolding eq hub_inv_def by (simp del: not_None_eq)
  qed
qed

lemma verify_agent_name:
  assumes "verify_agent a t ls = Some n" "distinct (map lt_agent_id ls)"
  shows "laptop_name a ls = Some n"
proof -
  obtain l where l: "find (\<lambda>l. lt_agent_id l = a \<and> lt_provision_token l = t) ls = Some l" "lt_name l = n"
    using assms(1) by (auto simp: verify_agent_def)
  then have "l \<in> set ls" "lt_agent_id l = a" by (auto simp: find_Some_iff)
  moreover obtain l' where l': "find (\<lambda>l. lt_agent_id l = a) ls = Some l'"
    using find_None_set[of "\<lambda>l. lt_agent_id l = a" ls l] calculation by (cases "find (\<lambda>l. lt_agent_id l = a) ls") auto
  then have "l' \<in> set ls" "lt_agent_id l' = a" by (auto simp: find_Some_iff)
  ultimately have "l' = l" using assms(2) by (metis distinct_map inj_onD)
  then show ?thesis using l l' by (simp add: laptop_name_def)
qed

lemma register_online_frame [simp]:
  "hub_laptops (snd (register_online a n h)) = hub_laptops h" "hub_sessions (snd (register_online a n h)) = hub_sessions h"
  "hub_admin_names (snd (register_online a n h)) = hub_admin_names h"
  "hub_admin_tokens (snd (register_online a n h)) = hub_admin_tokens h"
  "hub_agent_addr (snd (register_online a n h)) = hub_agent_addr h"
  "hub_pending (snd (register_online a n h)) = hub_pending h"
  "hub_delivered (snd (register_online a n h)) = hub_delivered h"
  "hub_next_conn_id (snd (register_online a n h)) = Suc (hub_next_conn_id h)"
  "fst (register_online a n h) = hub_next_conn_id h"
  by (simp_all add: register_online_def Let_def)

lemma register_online_entry:
  "\<exists>c. hub_online (snd (register_online a n h)) = (hub_online h)(a \<mapsto> c) \<and> ac_name c = n
     \<and> ac_conn_id c = hub_next_conn_id h"
  by (auto simp: register_online_def Let_def split: option.split)

lemma hub_inv_register:
  assumes "hub_inv h" "laptop_name a (hub_laptops h) = Some n"
  shows "hub_inv (register_addr a r ip (snd (register_online a n h)))"
proof -
  obtain c where c: "hub_online (snd (register_online a n h)) = (hub_online h)(a \<mapsto> c)" "ac_name c = n"
      "ac_conn_id c = hub_next_conn_id h"
    using register_online_entry by blast
  then show ?thesis using assms unfolding hub_inv_def register_addr_def
    by (simp add: c) (fastforce simp: less_Suc_eq)
qed

lemma hub_inv_cleanup:
  assumes "hub_inv h"
  shows "hub_inv (cleanup u a n h)"
proof (cases "\<exists>c. hub_online h a = Some c \<and> ac_conn_id c = n")
  case False
  then show ?thesis using assms cleanup_stale by metis
next
  case True
  then obtain c where c: "hub_online h a = Some c" "ac_conn_id c = n" by blast
  show ?thesis using assms unfolding hub_inv_def by (simp add: cleanup_current[OF c])
qed

lemma hub_inv_same:
  assumes "hub_inv h" "hub_laptops h' = hub_laptops h" "hub_online h' = hub_online h" "hub_agent_addr h' = hub_agent_addr h"
    "hub_admin_names h' = hub_admin_names h" "hub_admin_tokens h' = hub_admin_tokens h"
    "hub_sessions h' = hub_sessions h" "hub_next_conn_id h' = hub_next_conn_id h"
  shows "hub_inv h'"
  using assms by (simp add: hub_inv_def)

lemma hub_inv_broadcast [simp]: "hub_inv (broadcast m h) = hub_inv h" "hub_inv (broadcast_agent a h) = hub_inv h"
  by (simp_all add: hub_inv_def)

lemma hub_inv_connect:
  assumes "hub_inv h"
  shows "hub_inv (snd (agent_connect u m ip ok h))"
proof (cases "agent_hello m h")
  case None
  then show ?thesis using assms by (simp add: agent_connect_def)
next
  case (Some x)
  obtain a n r where x: "x = (a, n, r)" by (cases x)
  obtain t nm where "m = Hello a nm t r" "verify_agent a t (hub_laptops h) = Some n"
    using Some x by (auto simp: agent_hello_def split: agent_to_hub.splits)
  then have "laptop_name a (hub_laptops h) = Some n"
    using assms verify_agent_name[of a t "hub_laptops h" n] by (simp add: hub_inv_def)
  then have r: "hub_inv (register_addr a r ip (snd (register_online a n h)))" using hub_inv_register[OF assms] by blast
  then have "hub_inv ((register_addr a r ip (snd (register_online a n h)))\<lparr>hub_live := l\<rparr>)" for l
    by (rule hub_inv_same) simp_all
  then show ?thesis using Some x r hub_inv_cleanup
    by (simp add: agent_connect_def Let_def split: prod.split) (metis fst_conv snd_conv)
qed

lemma hub_inv_status:
  assumes "hub_inv h"
  shows "hub_inv (agent_status u sp a r h)"
proof -
  have "hub_inv (h\<lparr>hub_online := (hub_online h)(a \<mapsto> c\<lparr>ac_last_status := Some r\<rparr>)\<rparr>)" if "hub_online h a = Some c" for c
    using assms that unfolding hub_inv_def by (simp add: insert_absorb domI) blast
  then show ?thesis using assms by (auto simp: agent_status_def Let_def split: option.split)
qed

lemma hub_step_inv: "hub_inv h \<Longrightarrow> hub_inv (hub_step v e h)"
proof (cases e)
  case (Login t u p)
  assume "hub_inv h"
  then show ?thesis using Login by (auto simp: hub_step_def login_def hub_inv_def split: option.split)
next
  case (SessionRequest hd' t a)
  assume "hub_inv h"
  then show ?thesis using SessionRequest
    by (auto simp: hub_step_def session_request_def session_grant_def Let_def hub_inv_def split: option.split)
next
  case (SessionRelease hd' a)
  assume "hub_inv h"
  then show ?thesis using SessionRelease
    by (auto simp: hub_step_def session_release_def hub_inv_def split: option.split)
next
  case (RunCmd hd' i a k sc d)
  assume "hub_inv h"
  then show ?thesis using RunCmd
    by (auto simp: hub_step_def run_command_issue_def Let_def split: option.split intro: hub_inv_same)
next
  case (CmdEnd i w)
  assume "hub_inv h"
  then show ?thesis using CmdEnd
    by (auto simp: hub_step_def run_command_finish_def split: wait_outcome.split intro: hub_inv_same)
next
  case (Message a m)
  assume "hub_inv h"
  then show ?thesis using Message hub_inv_status
    by (auto simp: hub_step_def agent_message_def agent_command_result_def split: agent_to_hub.split intro: hub_inv_same)
next
  case (Disconnect a c)
  assume "hub_inv h"
  then have "hub_inv (h\<lparr>hub_live := l\<rparr>)" for l by (rule hub_inv_same) simp_all
  then show ?thesis using Disconnect hub_inv_cleanup by (simp add: hub_step_def agent_disconnect_def)
qed (simp_all add: hub_step_def hub_inv_provision hub_inv_connect)

interpretation hubm: step_invariant "\<lambda>e h. Some (hub_step v e h)" hub_inv for v
  by unfold_locales (simp add: hub_step_inv)

section \<open>Properties\<close>

text \<open>A hub with one registered laptop and one administrator who is logged in.\<close>

definition sample_env :: hub_env where
  "sample_env = \<lparr>env_argon2 = (\<lambda>p h. p = h), env_uuid_str = show_nat, env_show_pct = (\<lambda>_. ''9'')\<rparr>"

definition sample_laptop :: laptop where
  "sample_laptop = \<lparr>lt_agent_id = 7, lt_mac = ''aa:bb'', lt_name = ''student-01'', lt_provision_token = ''tok''\<rparr>"

definition sample_hub :: hub where
  "sample_hub = (hub_new [sample_laptop] [])
     \<lparr>hub_admin_tokens := [''t1'' \<mapsto> 1, ''t2'' \<mapsto> 2], hub_admin_names := [''t1'' \<mapsto> ''kim'', ''t2'' \<mapsto> ''lee'']\<rparr>"

lemma sample_hub_inv: "hub_inv sample_hub"
  by (simp add: hub_inv_def sample_hub_def hub_new_def)

lemma sample_auth: "admin_auth (Some ''Bearer t1'') sample_hub = Some ''kim''" "admin_auth (Some ''Bearer t2'') sample_hub = Some ''lee''"
  by code_simp+

lemma sample_known: "laptop_name 7 (hub_laptops sample_hub) = Some ''student-01''"
  by code_simp

definition sample_hello :: agent_to_hub where
  "sample_hello = Hello 7 ''laptop'' ''tok'' (Some ''100.64.0.7'')"





text \<open>
  Requesting a session. Without a valid token nothing happens (401); an unknown agent is refused (404); an
  agent controlled by someone else is refused (409) and nothing changes; otherwise the requester gets
  the new token and the agent's address, and any other administrator's request is then refused.
\<close>

theorem session_request_outcome:
  "(admin_auth hd' h = None \<longrightarrow> session_request hd' t a h = (Err 401 ''invalid or missing admin token'', h))
   \<and> (\<forall>u s. admin_auth hd' h = Some u \<and> laptop_name a (hub_laptops h) \<noteq> None \<and> hub_sessions h a = Some s
        \<and> cs_admin_username s \<noteq> u \<longrightarrow>
        session_request hd' t a h = (Err 409 ''agent already controlled by another admin'', h))
   \<and> (\<forall>u. admin_auth hd' h = Some u \<and> laptop_name a (hub_laptops h) \<noteq> None
        \<and> (hub_sessions h a = None \<or> (\<exists>s. hub_sessions h a = Some s \<and> cs_admin_username s = u)) \<longrightarrow>
        fst (session_request hd' t a h) = Ok_200 (t, hub_agent_addr h a)
        \<and> (\<forall>hd2 u2 t2. admin_auth hd2 h = Some u2 \<and> u2 \<noteq> u \<longrightarrow>
             fst (session_request hd2 t2 a (snd (session_request hd' t a h)))
               = Err 409 ''agent already controlled by another admin''))"
proof -
  have auth: "admin_auth x (snd (session_grant u t a h)) = admin_auth x h" for x u
    by (simp add: admin_auth_def admin_from_token_def session_grant_def Let_def)
  have lts: "hub_laptops (snd (session_grant u t a h)) = hub_laptops h" for u
    by (simp add: session_grant_def Let_def)
  have ses: "hub_sessions (snd (session_grant u t a h)) a = Some \<lparr>cs_admin_username = u, cs_session_token = t\<rparr>" for u
    by (simp add: session_grant_def Let_def)
  have ok: "fst (session_grant u t a h) = Ok_200 (t, hub_agent_addr h a)" for u
    by (simp add: session_grant_def Let_def)
  have eq: "session_request hd' t a h = session_grant u t a h"
    if "admin_auth hd' h = Some u" "laptop_name a (hub_laptops h) \<noteq> None"
      "hub_sessions h a = None \<or> (\<exists>s. hub_sessions h a = Some s \<and> cs_admin_username s = u)" for u
    using that by (auto simp: session_request_def)
  have "fst (session_request hd2 t2 a (snd (session_grant u t a h))) = Err 409 ''agent already controlled by another admin''"
    if "admin_auth hd2 h = Some u2" "u2 \<noteq> u" "laptop_name a (hub_laptops h) \<noteq> None" for hd2 u2 t2 u
    using that auth lts ses by (simp add: session_request_def)
  then show ?thesis using eq ok by (auto simp: session_request_def)
qed

theorem session_request_outcome_witness:
  "fst (session_request (Some ''Bearer t1'') ''s1'' 7 sample_hub) = Ok_200 (''s1'', None)
   \<and> fst (session_request (Some ''Bearer t2'') ''s2'' 7 (snd (session_request (Some ''Bearer t1'') ''s1'' 7 sample_hub)))
      = Err 409 ''agent already controlled by another admin''"
proof -
  have "hub_sessions sample_hub 7 = None" "hub_agent_addr sample_hub 7 = None" by (simp_all add: sample_hub_def hub_new_def)
  then show ?thesis
    using session_request_outcome[of "Some ''Bearer t1''" sample_hub "''s1''" 7] sample_auth sample_known by auto
qed

text \<open>
  A reconnection wins. When an agent that is still registered connects again, the late end of its old connection
  changes nothing but the liveness of that old queue: the new connection, its address and the session stay.
\<close>

theorem stale_disconnect_harmless:
  assumes "hub_inv h" "hub_online h a = Some c" "agent_connect u m ip True h = (Some (a, n), h1)"
  shows "agent_disconnect u a (ac_conn_id c) h1 = h1\<lparr>hub_live := hub_live h1 - {ac_conn_id c}\<rparr>
    \<and> map_option ac_conn_id (hub_online h1 a) = Some n \<and> n \<noteq> ac_conn_id c \<and> hub_sessions h1 = hub_sessions h"
proof -
  obtain nm r where x: "agent_hello m h = Some (a, nm, r)" "n = hub_next_conn_id h"
      "h1 = broadcast_agent a (register_addr a r ip (snd (register_online a nm h)))"
    using assms(3) by (auto simp: agent_connect_def Let_def case_prod_unfold split: option.splits)
  obtain d where d: "hub_online (snd (register_online a nm h)) = (hub_online h)(a \<mapsto> d)" "ac_conn_id d = n"
    using register_online_entry x(2) by blast
  have "ac_conn_id c < hub_next_conn_id h" using assms(1,2) by (simp add: hub_inv_def)
  then have "n \<noteq> ac_conn_id c" using x(2) by simp
  moreover have on: "hub_online h1 a = Some d" using d x(3) by (simp add: register_addr_def)
  ultimately have "cleanup u a (ac_conn_id c) (h1\<lparr>hub_live := l\<rparr>) = h1\<lparr>hub_live := l\<rparr>" for l
    using cleanup_stale[of "h1\<lparr>hub_live := l\<rparr>" a "ac_conn_id c" u] d by simp
  then show ?thesis using on d x(3) \<open>n \<noteq> ac_conn_id c\<close> by (simp add: agent_disconnect_def register_addr_def)
qed

theorem stale_disconnect_harmless_witness:
  "map_option ac_conn_id (hub_online (snd (agent_connect show_nat sample_hello ''10.0.0.2'' True
      (snd (agent_connect show_nat sample_hello ''10.0.0.1'' True sample_hub)))) 7) = Some 2"
proof -
  let ?h = "snd (agent_connect show_nat sample_hello ''10.0.0.1'' True sample_hub)"
  let ?r = "agent_connect show_nat sample_hello ''10.0.0.2'' True ?h"
  have "hub_inv ?h" using hub_inv_connect sample_hub_inv by blast
  moreover have "map_option ac_conn_id (hub_online ?h 7) = Some 1" by code_simp
  moreover obtain c where "hub_online ?h 7 = Some c" using calculation(2) by auto
  moreover have "fst ?r = Some (7, 2)" by code_simp
  then have "?r = (Some (7, 2), snd ?r)" by (metis prod.collapse)
  ultimately show ?thesis using stale_disconnect_harmless by blast
qed

text \<open>
  The cleanup of a connection is three separate lock regions. If the agent reconnects after its old
  connection was taken out of the online table and before the other two, the agent ends up online under the new
  connection, without an address and without the session its administrator held.
\<close>

theorem cleanup_race_loses_session:
  assumes "hub_online h a = Some c" "agent_hello m h = Some (a, nm, r)"
    "h1 = snd (cleanup_online a (ac_conn_id c) h)"
    "h2 = register_addr a r ip (snd (register_online a nm h1))"
    "h3 = cleanup_session a (cleanup_addr a h2)"
  shows "hub_online h3 a \<noteq> None \<and> hub_agent_addr h3 a = None \<and> hub_sessions h3 a = None \<and> \<not> hub_inv h3"
proof -
  obtain d where "hub_online (snd (register_online a nm h1)) = (hub_online h1)(a \<mapsto> d)"
    using register_online_entry by blast
  then have on: "hub_online h3 a = Some d" using assms(4,5)
    by (simp add: cleanup_session_def cleanup_addr_def register_addr_def)
  have addr: "hub_agent_addr h3 a = None" "hub_sessions h3 a = None"
    using assms(5) by (simp_all add: cleanup_session_def cleanup_addr_def)
  have "\<not> hub_inv h3"
  proof
    assume "hub_inv h3"
    then have "dom (hub_agent_addr h3) = dom (hub_online h3)" by (simp add: hub_inv_def)
    then show False using on addr by (metis domI domIff option.distinct(1))
  qed
  then show ?thesis using on addr by simp
qed

theorem cleanup_race_loses_session_witness:
  "\<exists>h1 h2. h1 = snd (agent_connect show_nat sample_hello ''10.0.0.1'' True sample_hub)
     \<and> h2 = cleanup_session 7 (cleanup_addr 7 (register_addr 7 None ''10.0.0.2''
               (snd (register_online 7 ''student-01'' (snd (cleanup_online 7 1 h1))))))
     \<and> hub_online h2 7 \<noteq> None \<and> hub_agent_addr h2 7 = None"
proof -
  let ?h = "snd (agent_connect show_nat sample_hello ''10.0.0.1'' True sample_hub)"
  have "map_option ac_conn_id (hub_online ?h 7) = Some 1" by code_simp
  then obtain c where c: "hub_online ?h 7 = Some c" "ac_conn_id c = 1" by auto
  have "agent_hello (Hello 7 ''laptop'' ''tok'' None) ?h = Some (7, ''student-01'', None)" by code_simp
  from cleanup_race_loses_session[OF c(1) this refl refl refl] c(2) show ?thesis by auto
qed

text \<open>
  Provisioning and the agent's hello fit together. Whatever identifier and token a provision request hands
  out, for a new or an already known MAC address, a hello that presents them is accepted under the registered
  name, and provisioning the same MAC address again returns the same laptop and changes nothing.
\<close>

theorem provision_hello_roundtrip:
  assumes "hub_inv h" "provision i t mac h = (Ok_200 l, h1)"
  shows "agent_hello (Hello (lt_agent_id l) any (lt_provision_token l) r) h1 = Some (lt_agent_id l, lt_name l, r)
    \<and> lt_mac l = mac \<and> provision i2 t2 mac h1 = (Ok_200 l, h1)"
proof -
  obtain ls' where g: "get_or_create_laptop i t mac (hub_laptops h) = Some (l, ls')" "h1 = h\<lparr>hub_laptops := ls'\<rparr>"
    using assms(2) by (auto simp: provision_def split: option.splits)
  have mac: "lt_mac l = mac" "l \<in> set ls'" and again: "find (\<lambda>l. lt_mac l = mac) ls' = Some l"
    using g(1) by (cases rule: get_or_create_cases; auto simp: find_Some_iff find_append)+
  have "hub_inv h1" using hub_inv_provision[OF assms(1), of i t mac] assms(2) by simp
  then have dist: "distinct (map lt_agent_id ls')" using g(2) by (simp add: hub_inv_def)
  let ?P = "\<lambda>x. lt_agent_id x = lt_agent_id l \<and> lt_provision_token x = lt_provision_token l"
  obtain l' where l': "find ?P ls' = Some l'" using mac(2) find_None_set[of ?P ls' l] by (cases "find ?P ls'") auto
  then have "l' \<in> set ls'" "lt_agent_id l' = lt_agent_id l" by (auto simp: find_Some_iff)
  then have "l' = l" using dist mac(2) by (metis distinct_map inj_onD)
  then show ?thesis using l' g(2) mac again
    by (simp add: agent_hello_def verify_agent_def provision_def get_or_create_laptop_def)
qed

theorem provision_hello_roundtrip_witness:
  "agent_hello (Hello 9 ''x'' ''tok9'' None) (snd (provision 9 ''tok9'' ''cc:dd'' sample_hub)) = Some (9, ''student-02'', None)"
proof -
  let ?l = "\<lparr>lt_agent_id = 9, lt_mac = ''cc:dd'', lt_name = ''student-02'', lt_provision_token = ''tok9''\<rparr>"
  have "fst (provision 9 ''tok9'' ''cc:dd'' sample_hub) = Ok_200 ?l" by code_simp
  then have "provision 9 ''tok9'' ''cc:dd'' sample_hub = (Ok_200 ?l, snd (provision 9 ''tok9'' ''cc:dd'' sample_hub))"
    by (metis prod.collapse)
  from provision_hello_roundtrip[OF sample_hub_inv this] show ?thesis by simp
qed

text \<open>
  A login yields a working credential. With the right password the new token authenticates the
  administrator by name in the \<open>Authorization\<close> header, and every other header authenticates exactly as
  before; with a wrong one the answer is 401 and nothing changes.
\<close>

theorem login_auth_roundtrip:
  assumes "\<forall>c\<in>set t. \<not> is_space c"
  shows "case verify_admin vf u p (hub_admins h) of
      Some i \<Rightarrow> fst (login vf t u p h) = Ok_200 t
        \<and> admin_auth (Some (''Bearer '' @ t)) (snd (login vf t u p h)) = Some u
        \<and> (\<forall>t'. (\<forall>c\<in>set t'. \<not> is_space c) \<and> t' \<noteq> t \<longrightarrow>
             admin_auth (Some (''Bearer '' @ t')) (snd (login vf t u p h)) = admin_auth (Some (''Bearer '' @ t')) h)
    | None \<Rightarrow> login vf t u p h = (Err 401 ''invalid credentials'', h)"
proof -
  have auth: "admin_auth (Some (''Bearer '' @ x)) g = hub_admin_names g x" if "\<forall>c\<in>set x. \<not> is_space c" for x g
    using trim_no_space[OF that] unfolding admin_auth_def Let_def option.case strip_prefix_append
    by (simp add: admin_from_token_def)
  show ?thesis unfolding login_def using assms
    by (cases "verify_admin vf u p (hub_admins h)") (simp_all add: auth[simplified])
qed

theorem login_auth_roundtrip_witness:
  "admin_auth (Some (''Bearer '' @ ''ab12''))
     (snd (login (\<lambda>p h. p = h) ''ab12'' ''kim'' ''pw''
       (hub_new [] [\<lparr>ad_id = 1, ad_username = ''kim'', ad_password_hash = ''pw''\<rparr>]))) = Some ''kim''"
proof -
  let ?h = "hub_new [] [\<lparr>ad_id = 1, ad_username = ''kim'', ad_password_hash = ''pw''\<rparr>]"
  have v: "verify_admin (\<lambda>p h. p = h) ''kim'' ''pw'' (hub_admins ?h) = Some 1" by code_simp
  have sp: "\<forall>c\<in>set ''ab12''. \<not> is_space c" by code_simp
  have "fst (login (\<lambda>p h. p = h) ''ab12'' ''kim'' ''pw'' ?h) = Ok_200 ''ab12''
    \<and> admin_auth (Some (''Bearer '' @ ''ab12'')) (snd (login (\<lambda>p h. p = h) ''ab12'' ''kim'' ''pw'' ?h)) = Some ''kim''"
    using login_auth_roundtrip[OF sp, of "\<lambda>p h. p = h" "''kim''" "''pw''" ?h] unfolding v option.case by blast
  then show ?thesis by blast
qed

section \<open>Commands and administrator sockets over time\<close>

lemma issued_ids_append [simp]: "issued_ids (xs @ ys) = issued_ids xs @ issued_ids ys"
  by (induction xs rule: issued_ids.induct) auto

lemma agent_status_frame [simp]:
  "hub_pending (agent_status u sp a r h) = hub_pending h" "hub_delivered (agent_status u sp a r h) = hub_delivered h"
  by (simp_all add: agent_status_def Let_def split: option.split)

lemma agent_connect_frame [simp]:
  "hub_pending (snd (agent_connect u m ip ok h)) = hub_pending h"
  "hub_delivered (snd (agent_connect u m ip ok h)) = hub_delivered h"
  by (simp_all add: agent_connect_def register_addr_def Let_def case_prod_unfold split: option.split)

lemma hub_step_commands:
  assumes "hub_pending h \<union> cres_command_id ` set (hub_delivered h) \<subseteq> I"
    "hub_pending h \<inter> cres_command_id ` set (hub_delivered h) = {}" "distinct (map cres_command_id (hub_delivered h))"
    "set (issued_ids [e]) \<inter> I = {}"
  shows "hub_pending (hub_step v e h) \<union> cres_command_id ` set (hub_delivered (hub_step v e h)) \<subseteq> I \<union> set (issued_ids [e])
    \<and> hub_pending (hub_step v e h) \<inter> cres_command_id ` set (hub_delivered (hub_step v e h)) = {}
    \<and> distinct (map cres_command_id (hub_delivered (hub_step v e h)))"
proof (cases e)
  case (Message a m)
  then show ?thesis using assms
    by (cases m) (auto simp: hub_step_def agent_message_def agent_command_result_def)
next
  case (RunCmd hd' i a k sc d)
  have "i \<notin> I" using assms(4) RunCmd by simp
  then show ?thesis using assms(1-3) RunCmd
    by (auto simp: hub_step_def run_command_issue_def Let_def split: option.split)
qed (use assms in \<open>auto simp: hub_step_def provision_def login_def session_request_def session_grant_def session_release_def
      run_command_finish_def agent_disconnect_def Let_def split: option.split wait_outcome.split\<close>)

text \<open>
  A command gets at most one answer. In any run in which the commands have distinct identifiers, no
  identifier is answered twice, every answered identifier was issued, and an answered command is no longer
  pending: late, repeated and unsolicited results are dropped.
\<close>

theorem command_answered_once:
  assumes "distinct (issued_ids es)" "h = fold (hub_step v) es (hub_new ls as)"
  shows "distinct (map cres_command_id (hub_delivered h))
    \<and> cres_command_id ` set (hub_delivered h) \<subseteq> set (issued_ids es)
    \<and> hub_pending h \<inter> cres_command_id ` set (hub_delivered h) = {}"
proof -
  have "let h = fold (hub_step v) es (hub_new ls as) in
      hub_pending h \<union> cres_command_id ` set (hub_delivered h) \<subseteq> set (issued_ids es)
      \<and> hub_pending h \<inter> cres_command_id ` set (hub_delivered h) = {} \<and> distinct (map cres_command_id (hub_delivered h))"
    using assms(1)
  proof (induction es rule: rev_induct)
    case Nil
    then show ?case by (simp add: hub_new_def)
  next
    case (snoc e es)
    have "set (issued_ids [e]) \<inter> set (issued_ids es) = {}" using snoc.prems by auto
    with snoc hub_step_commands[of "fold (hub_step v) es (hub_new ls as)" "set (issued_ids es)" e v] show ?case
      by (simp add: Let_def)
  qed
  then show ?thesis using assms(2) by (simp add: Let_def)
qed

theorem command_answered_once_witness:
  "distinct (map cres_command_id (hub_delivered (fold (hub_step sample_env)
     [RunCmd None 5 7 None ''dir'' False, RunCmd None 6 7 None ''dir'' False] (hub_new [sample_laptop] []))))"
  using command_answered_once[of "[RunCmd None 5 7 None ''dir'' False, RunCmd None 6 7 None ''dir'' False]", OF _ refl] by simp

lemma broadcast_prefix [simp]:
  "hub_bcast (broadcast m h) = hub_bcast h @ [m]"
  "\<exists>xs. hub_bcast (broadcast_agent a h) = hub_bcast h @ xs"
  "\<exists>xs. hub_bcast (cleanup u a n h) = hub_bcast h @ xs"
  by (auto simp: broadcast_def broadcast_agent_def cleanup_def cleanup_online_def cleanup_addr_def cleanup_session_def
      cleanup_broadcast_def Let_def split: option.split)

lemma hub_step_bcast: "\<exists>xs. hub_bcast (hub_step v e h) = hub_bcast h @ xs"
proof (cases e)
  case (Connect m ip ok)
  let ?g = "\<lambda>a nm r. register_addr a r ip (snd (register_online a nm h))"
  have g: "hub_bcast (?g a nm r) = hub_bcast h" for a nm r by (simp add: register_addr_def register_online_def Let_def)
  have "\<exists>xs. hub_bcast (broadcast_agent a (?g a nm r)) = hub_bcast h @ xs" for a nm r
    using broadcast_prefix(2)[of a "?g a nm r"] g by simp
  moreover have "\<exists>xs. hub_bcast (cleanup u a n ((?g a nm r)\<lparr>hub_live := l\<rparr>)) = hub_bcast h @ xs" for a nm r u n l
    using broadcast_prefix(3)[of u a n "(?g a nm r)\<lparr>hub_live := l\<rparr>"] g by simp
  ultimately show ?thesis using Connect
    by (auto simp: hub_step_def agent_connect_def Let_def case_prod_unfold split: option.split)
next
  case (Message a m)
  have "\<exists>xs. hub_bcast (agent_status u sp a r h) = hub_bcast h @ xs" for u sp r
  proof -
    define h1 where "h1 = (case hub_online h a of
        Some c \<Rightarrow> h\<lparr>hub_online := (hub_online h)(a \<mapsto> c\<lparr>ac_last_status := Some r\<rparr>)\<rparr> | None \<Rightarrow> h)"
    have "hub_bcast h1 = hub_bcast h" by (simp add: h1_def split: option.split)
    then obtain xs where "hub_bcast (broadcast_agent a h1) = hub_bcast h @ xs" using broadcast_prefix(2)[of a h1] by auto
    then show ?thesis unfolding agent_status_def Let_def h1_def[symmetric] by simp
  qed
  then show ?thesis using Message by (cases m) (auto simp: hub_step_def agent_message_def agent_command_result_def)
next
  case (SessionRequest hd' t a)
  have "\<exists>xs. hub_bcast (snd (session_grant u t a h)) = hub_bcast h @ xs" for u
    using broadcast_prefix(2)[of a "h\<lparr>hub_sessions := m\<rparr>" for m] by (simp add: session_grant_def Let_def)
  then show ?thesis using SessionRequest by (auto simp: hub_step_def session_request_def split: option.split)
next
  case (SessionRelease hd' a)
  have "\<exists>xs. hub_bcast (broadcast_agent a (h\<lparr>hub_sessions := m\<rparr>)) = hub_bcast h @ xs" for m
    using broadcast_prefix(2)[of a "h\<lparr>hub_sessions := m\<rparr>"] by simp
  then show ?thesis using SessionRelease by (auto simp: hub_step_def session_release_def split: option.split)
next
  case (Disconnect a n)
  then show ?thesis using broadcast_prefix(3)[of "env_uuid_str v" a n "h\<lparr>hub_live := hub_live h - {n}\<rparr>"]
    by (simp add: hub_step_def agent_disconnect_def)
qed (auto simp: hub_step_def provision_def login_def run_command_issue_def run_command_finish_def Let_def
      split: option.split wait_outcome.split)

text \<open>What a socket that has not fallen behind has seen: the first \<open>n\<close> broadcasts since it subscribed.\<close>

definition ws_synced :: "hub_to_admin list \<Rightarrow> nat \<Rightarrow> hub \<Rightarrow> admin_ws \<Rightarrow> bool" where
  "ws_synced out0 n0 h w \<longleftrightarrow>
     (\<exists>n. aw_next w = Some (n0 + n) \<and> n0 + n \<le> length (hub_bcast h) \<and> aw_out w = out0 @ take n (drop n0 (hub_bcast h)))"

lemma ws_synced_step:
  assumes "ws_synced out0 n0 h w"
  shows "ws_synced out0 n0 (hub_step v e h) w"
proof -
  obtain xs where "hub_bcast (hub_step v e h) = hub_bcast h @ xs" using hub_step_bcast by blast
  then show ?thesis using assms by (auto simp: ws_synced_def)
qed

lemma ws_synced_recv:
  assumes "ws_synced out0 n0 h w" "length (hub_bcast h) \<le> n0 + BCAST_CAPACITY"
  shows "ws_synced out0 n0 h (admin_ws_recv h w)"
    "aw_next w = Some m \<Longrightarrow> m < length (hub_bcast h) \<Longrightarrow> aw_next (admin_ws_recv h w) = Some (Suc m)"
proof -
  obtain n where n: "aw_next w = Some (n0 + n)" "n0 + n \<le> length (hub_bcast h)"
      "aw_out w = out0 @ take n (drop n0 (hub_bcast h))"
    using assms(1) by (auto simp: ws_synced_def)
  show "ws_synced out0 n0 h (admin_ws_recv h w)"
  proof (cases "n0 + n < length (hub_bcast h)")
    case True
    then have "take (Suc n) (drop n0 (hub_bcast h)) = take n (drop n0 (hub_bcast h)) @ [hub_bcast h ! (n0 + n)]"
      by (simp add: take_Suc_conv_app_nth)
    then show ?thesis using n assms(2) True unfolding ws_synced_def admin_ws_recv_def
      by (auto intro!: exI[of _ "Suc n"])
  qed (use n assms(1) in \<open>simp add: admin_ws_recv_def\<close>)
  show "aw_next (admin_ws_recv h w) = Some (Suc m)" if "aw_next w = Some m" "m < length (hub_bcast h)"
    using that n assms(2) by (simp add: admin_ws_recv_def)
qed

lemma ws_synced_drain:
  assumes "ws_synced out0 n0 h w" "length (hub_bcast h) \<le> n0 + BCAST_CAPACITY"
    "aw_next w = Some m" "length (hub_bcast h) = m + k"
  shows "aw_out ((admin_ws_recv h ^^ k) w) = out0 @ drop n0 (hub_bcast h)"
  using assms
proof (induction k arbitrary: w m)
  case 0
  then show ?case by (auto simp: ws_synced_def)
next
  case (Suc k)
  from Suc.IH[OF ws_synced_recv(1)[OF Suc.prems(1,2)] Suc.prems(2) ws_synced_recv(2)[OF Suc.prems(1-3)]] Suc.prems(4)
  show ?case by (simp add: funpow_swap1 funpow_Suc_right del: funpow.simps)
qed

lemma admin_turn_simps [simp]:
  "admin_turn v None (h, w) = (h, admin_ws_recv h w)" "admin_turn v (Some e) (h, w) = (hub_step v e h, w)"
  by (simp_all add: admin_turn_def)

lemma admin_turn_synced:
  assumes "ws_synced out0 n0 h w" "length (hub_bcast (fst (fold (admin_turn v) es (h, w)))) \<le> n0 + BCAST_CAPACITY"
  shows "case fold (admin_turn v) es (h, w) of (h', w') \<Rightarrow> ws_synced out0 n0 h' w'"
  using assms
proof (induction es arbitrary: h w)
  case (Cons e es)
  have mono: "length (hub_bcast g) \<le> length (hub_bcast (fst (fold (admin_turn v) es (g, x))))" for es g x
  proof (induction es arbitrary: g x)
    case (Cons e es)
    have "length (hub_bcast g) \<le> length (hub_bcast (fst (admin_turn v e (g, x))))"
      using hub_step_bcast by (cases e) (simp_all, metis le_add1 length_append)
    then show ?case using Cons[of "fst (admin_turn v e (g, x))" "snd (admin_turn v e (g, x))"] by simp
  qed simp
  have "ws_synced out0 n0 (fst (admin_turn v e (h, w))) (snd (admin_turn v e (h, w)))"
  proof (cases e)
    case None
    then show ?thesis using ws_synced_recv(1)[OF Cons.prems(1)] mono[of h es "admin_ws_recv h w"] Cons.prems(2)
      by simp
  next
    case (Some e')
    then show ?thesis using ws_synced_step[OF Cons.prems(1)] by simp
  qed
  from Cons.IH[OF this] Cons.prems(2) show ?case by simp
qed simp

text \<open>
  An administrator misses nothing after subscribing. However the hub's events and the socket's turns interleave, as
  long as at most 256 messages were broadcast, draining the channel leaves the socket with exactly the messages
  broadcast since the subscription, in order, after what it had before.
\<close>

theorem admin_ws_complete:
  assumes "fold (admin_turn v) es (h, admin_ws_subscribe h w) = (h', w')"
    and "length (hub_bcast h') \<le> length (hub_bcast h) + BCAST_CAPACITY"
  shows "\<exists>k. aw_out ((admin_ws_recv h' ^^ k) w') = aw_out w @ drop (length (hub_bcast h)) (hub_bcast h')"
proof -
  have "ws_synced (aw_out w) (length (hub_bcast h)) h (admin_ws_subscribe h w)"
    by (simp add: ws_synced_def admin_ws_subscribe_def)
  from admin_turn_synced[OF this, of v es] assms
  have s: "ws_synced (aw_out w) (length (hub_bcast h)) h' w'" by simp
  then obtain m where "aw_next w' = Some m" "m \<le> length (hub_bcast h')" by (auto simp: ws_synced_def)
  then show ?thesis using ws_synced_drain[OF s assms(2)] le_Suc_ex by blast
qed

theorem admin_ws_complete_witness:
  "\<exists>k. aw_out ((admin_ws_recv (hub_step sample_env (Connect sample_hello ''10.0.0.1'' True) sample_hub) ^^ k)
        (admin_ws_subscribe sample_hub \<lparr>aw_user = ''kim'', aw_next = None, aw_out = []\<rparr>))
      = drop (length (hub_bcast sample_hub)) (hub_bcast (hub_step sample_env (Connect sample_hello ''10.0.0.1'' True) sample_hub))"
proof -
  let ?h = "hub_step sample_env (Connect sample_hello ''10.0.0.1'' True) sample_hub"
  let ?w = "\<lparr>aw_user = ''kim'', aw_next = None, aw_out = []\<rparr>"
  have "length (hub_bcast ?h) \<le> length (hub_bcast sample_hub) + BCAST_CAPACITY" by code_simp
  then show ?thesis
    using admin_ws_complete[of sample_env "[Some (Connect sample_hello ''10.0.0.1'' True)]" sample_hub ?w ?h
        "admin_ws_subscribe sample_hub ?w"] by simp
qed

text \<open>
  The socket's snapshot is taken before it subscribes, so an event between the two never reaches it: until the
  next broadcast it shows the state from before the event.
\<close>

theorem admin_ws_snapshot_gap:
  assumes "admin_ws_open t h = Some w" "h' = hub_step v e h"
  shows "aw_out ((admin_ws_recv h' ^^ k) (admin_ws_subscribe h' w)) = [Snapshot (hub_snapshot h)]"
proof -
  have "admin_ws_recv h' (admin_ws_subscribe h' w) = admin_ws_subscribe h' w"
    by (simp add: admin_ws_recv_def admin_ws_subscribe_def)
  then have "(admin_ws_recv h' ^^ k) (admin_ws_subscribe h' w) = admin_ws_subscribe h' w"
    by (induction k) simp_all
  then show ?thesis using assms(1) by (auto simp: admin_ws_open_def admin_ws_subscribe_def)
qed

theorem admin_ws_snapshot_gap_witness:
  "\<exists>w h'. admin_ws_open ''t1'' sample_hub = Some w \<and> h' = hub_step sample_env (Connect sample_hello ''10.0.0.1'' True) sample_hub
     \<and> aw_out ((admin_ws_recv h' ^^ 3) (admin_ws_subscribe h' w)) = [Snapshot (hub_snapshot sample_hub)]
     \<and> hub_snapshot h' \<noteq> hub_snapshot sample_hub"
proof -
  have "admin_from_token ''t1'' sample_hub = Some ''kim''" by code_simp
  then obtain w where w: "admin_ws_open ''t1'' sample_hub = Some w" by (simp add: admin_ws_open_def)
  have "map av_online (hub_snapshot (hub_step sample_env (Connect sample_hello ''10.0.0.1'' True) sample_hub)) = [True]"
    "map av_online (hub_snapshot sample_hub) = [False]" by code_simp+
  then have "hub_snapshot (hub_step sample_env (Connect sample_hello ''10.0.0.1'' True) sample_hub) \<noteq> hub_snapshot sample_hub"
    by auto
  then show ?thesis using admin_ws_snapshot_gap[OF w refl] w by blast
qed

end
