(* ===== verification/Kmc_Input.thy ===== *)
theory Kmc_Input
  imports Complex_Main Kmc_Prelude "HOL-Library.Signed_Division"
begin

unbundle bit_operations_syntax

text \<open>
  Remote input: the client encodes an input event into the fixed payload buffer of the control channel
  (\<^verbatim>\<open>kmc-moonclient/src/control.rs\<close>), the host parses the payload and calls \<^verbatim>\<open>SendInput\<close>
  (\<^verbatim>\<open>kmc-streamhost/src/input.rs\<close>). An \<^verbatim>\<open>i16\<close> is a 16-bit word read with \<^term>\<open>sint\<close>.
\<close>

section \<open>The payload buffer\<close>

definition MAX_PAYLOAD :: nat where [simp]: "MAX_PAYLOAD = 24"

record payload_buf =
  pb_buf :: bytes
  pb_len :: nat

definition pb_new :: payload_buf where
  "pb_new = \<lparr>pb_buf = replicate MAX_PAYLOAD 0, pb_len = 0\<rparr>"

definition as_slice :: "payload_buf \<Rightarrow> bytes" where
  "as_slice p = take (pb_len p) (pb_buf p)"

definition pb_put :: "bytes \<Rightarrow> payload_buf \<Rightarrow> payload_buf" where
  "pb_put s p =
     (let n = pb_len p; e = min (n + length s) MAX_PAYLOAD
      in p\<lparr>pb_buf := blit n (take (e - n) s) (pb_buf p), pb_len := e\<rparr>)"

definition pb_byte :: "u8 \<Rightarrow> payload_buf \<Rightarrow> payload_buf" where "pb_byte v = pb_put [v]"
definition be16 :: "u16 \<Rightarrow> payload_buf \<Rightarrow> payload_buf" where "be16 v = pb_put (u16_to_be_bytes v)"
definition be32 :: "u32 \<Rightarrow> payload_buf \<Rightarrow> payload_buf" where "be32 v = pb_put (u32_to_be_bytes v)"
definition le16 :: "u16 \<Rightarrow> payload_buf \<Rightarrow> payload_buf" where "le16 v = pb_put (u16_to_le_bytes v)"
definition le32 :: "u32 \<Rightarrow> payload_buf \<Rightarrow> payload_buf" where "le32 v = pb_put (u32_to_le_bytes v)"

section \<open>Encoding an event\<close>

definition IN_MAGIC_KEY_DOWN :: u32 where "IN_MAGIC_KEY_DOWN = 0x3"
definition IN_MAGIC_KEY_UP :: u32 where "IN_MAGIC_KEY_UP = 0x4"
definition IN_MAGIC_MOUSE_MOVE_ABS :: u32 where "IN_MAGIC_MOUSE_MOVE_ABS = 0x5"
definition IN_MAGIC_MOUSE_BTN_DOWN :: u32 where "IN_MAGIC_MOUSE_BTN_DOWN = 0x8"
definition IN_MAGIC_MOUSE_BTN_UP :: u32 where "IN_MAGIC_MOUSE_BTN_UP = 0x9"
definition IN_MAGIC_SCROLL :: u32 where "IN_MAGIC_SCROLL = 0xA"

datatype input_event =
    MousePosition u16 u16 u16 u16
  | MouseButton u8 bool
  | Key u16 bool u8
  | Scroll u16

definition encode_input :: "input_event \<Rightarrow> payload_buf" where
  "encode_input ev =
     (case ev of
        MousePosition x y ref_w ref_h \<Rightarrow>
          be16 ref_h (be16 ref_w (be16 0 (be16 y (be16 x (le32 IN_MAGIC_MOUSE_MOVE_ABS (be32 14 pb_new))))))
      | MouseButton button down \<Rightarrow>
          pb_byte button (le32 (if down then IN_MAGIC_MOUSE_BTN_DOWN else IN_MAGIC_MOUSE_BTN_UP) (be32 5 pb_new))
      | Key key_code down modifiers \<Rightarrow>
          le16 0 (pb_byte modifiers (le16 key_code (pb_byte 0
            (le32 (if down then IN_MAGIC_KEY_DOWN else IN_MAGIC_KEY_UP) (be32 10 pb_new)))))
      | Scroll amount \<Rightarrow>
          be16 0 (be16 amount (be16 amount (le32 IN_MAGIC_SCROLL (be32 10 pb_new)))))"

section \<open>Injection on the host\<close>

definition MAGIC_KEY_DOWN :: u32 where "MAGIC_KEY_DOWN = 0x3"
definition MAGIC_KEY_UP :: u32 where "MAGIC_KEY_UP = 0x4"
definition MAGIC_MOUSE_MOVE_ABS :: u32 where "MAGIC_MOUSE_MOVE_ABS = 0x5"
definition MAGIC_MOUSE_MOVE_REL :: u32 where "MAGIC_MOUSE_MOVE_REL = 0x6"
definition MAGIC_MOUSE_MOVE_REL_GEN5 :: u32 where "MAGIC_MOUSE_MOVE_REL_GEN5 = 0x7"
definition MAGIC_MOUSE_BTN_DOWN_GEN5 :: u32 where "MAGIC_MOUSE_BTN_DOWN_GEN5 = 0x8"
definition MAGIC_MOUSE_BTN_UP_GEN5 :: u32 where "MAGIC_MOUSE_BTN_UP_GEN5 = 0x9"
definition MAGIC_SCROLL_GEN5 :: u32 where "MAGIC_SCROLL_GEN5 = 0xA"
definition MAGIC_HSCROLL :: u32 where "MAGIC_HSCROLL = 0x55000001"
definition XBUTTON1 :: int where "XBUTTON1 = 1"
definition XBUTTON2 :: int where "XBUTTON2 = 2"

text \<open>
  What is handed to \<^verbatim>\<open>SendInput\<close>; the flags of the Windows API are kept by name. \<^verbatim>\<open>i32\<close> values are
  integers, the casts that could lose bits are written out.
\<close>

datatype mouse_flag =
    MOUSEEVENTF_MOVE | MOUSEEVENTF_ABSOLUTE | MOUSEEVENTF_LEFTDOWN | MOUSEEVENTF_LEFTUP | MOUSEEVENTF_MIDDLEDOWN
  | MOUSEEVENTF_MIDDLEUP | MOUSEEVENTF_RIGHTDOWN | MOUSEEVENTF_RIGHTUP | MOUSEEVENTF_XDOWN | MOUSEEVENTF_XUP
  | MOUSEEVENTF_WHEEL | MOUSEEVENTF_HWHEEL

datatype key_flag = KEYEVENTF_EXTENDEDKEY | KEYEVENTF_KEYUP

datatype win_input =
    InputMouse (im_dx: int) (im_dy: int) (im_data: u32) (im_flags: "mouse_flag list")
  | InputKey (ik_vk: u16) (ik_flags: "key_flag list")

definition mouse_event :: "mouse_flag list \<Rightarrow> int \<Rightarrow> int \<Rightarrow> int \<Rightarrow> win_input list" where
  "mouse_event flags dx dy mouse_data = [InputMouse dx dy (word_of_int mouse_data) flags]"

definition mouse_move_rel :: "int \<Rightarrow> int \<Rightarrow> win_input list" where
  "mouse_move_rel dx dy = mouse_event [MOUSEEVENTF_MOVE] dx dy 0"

definition as_i32 :: "int \<Rightarrow> int" where
  "as_i32 x = sint (word_of_int x :: 32 word)"

definition mouse_move_abs :: "int \<Rightarrow> int \<Rightarrow> int \<Rightarrow> int \<Rightarrow> win_input list" where
  "mouse_move_abs x y w h =
     (if w \<le> 0 \<or> h \<le> 0 then []
      else mouse_event [MOUSEEVENTF_MOVE, MOUSEEVENTF_ABSOLUTE] (as_i32 (x * 65535 sdiv w)) (as_i32 (y * 65535 sdiv h)) 0)"

definition mouse_button :: "u8 \<Rightarrow> bool \<Rightarrow> win_input list" where
  "mouse_button button down =
     (if button = 1 then mouse_event [if down then MOUSEEVENTF_LEFTDOWN else MOUSEEVENTF_LEFTUP] 0 0 0
      else if button = 2 then mouse_event [if down then MOUSEEVENTF_MIDDLEDOWN else MOUSEEVENTF_MIDDLEUP] 0 0 0
      else if button = 3 then mouse_event [if down then MOUSEEVENTF_RIGHTDOWN else MOUSEEVENTF_RIGHTUP] 0 0 0
      else if button = 4 then mouse_event [if down then MOUSEEVENTF_XDOWN else MOUSEEVENTF_XUP] 0 0 XBUTTON1
      else if button = 5 then mouse_event [if down then MOUSEEVENTF_XDOWN else MOUSEEVENTF_XUP] 0 0 XBUTTON2
      else [])"

definition scroll :: "int \<Rightarrow> bool \<Rightarrow> win_input list" where
  "scroll amount horizontal = mouse_event [if horizontal then MOUSEEVENTF_HWHEEL else MOUSEEVENTF_WHEEL] 0 0 amount"

definition is_extended :: "u16 \<Rightarrow> bool" where
  "is_extended vk \<longleftrightarrow> (0x21 \<le> vk \<and> vk \<le> 0x28) \<or> vk \<in> {0x2D, 0x2E, 0xA3, 0xA5, 0x5B, 0x5C, 0x6F, 0x90}"

definition key :: "u16 \<Rightarrow> bool \<Rightarrow> win_input list" where
  "key vk down = [InputKey vk ((if is_extended vk then [KEYEVENTF_EXTENDEDKEY] else []) @ (if down then [] else [KEYEVENTF_KEYUP]))]"

definition key_from_body :: "bytes \<Rightarrow> bool \<Rightarrow> win_input list" where
  "key_from_body body down = (if 3 \<le> length body then key (u16_from_le_bytes (body ! 1) (body ! 2)) down else [])"

definition i16_be :: "bytes \<Rightarrow> nat \<Rightarrow> int" where
  "i16_be body i = sint (u16_from_be_bytes (body ! i) (body ! (i + 1)))"

definition inject :: "bytes \<Rightarrow> win_input list" where
  "inject payload =
     (if length payload < 8 then []
      else
        let magic = u32_from_le_bytes (payload ! 4) (payload ! 5) (payload ! 6) (payload ! 7);
            body = drop 8 payload
        in if magic = MAGIC_MOUSE_MOVE_REL \<or> magic = MAGIC_MOUSE_MOVE_REL_GEN5 then
             (if 4 \<le> length body then mouse_move_rel (i16_be body 0) (i16_be body 2) else [])
           else if magic = MAGIC_MOUSE_MOVE_ABS then
             (if 10 \<le> length body then mouse_move_abs (i16_be body 0) (i16_be body 2) (i16_be body 6) (i16_be body 8) else [])
           else if magic = MAGIC_MOUSE_BTN_DOWN_GEN5 then
             (case body of b # _ \<Rightarrow> mouse_button b True | [] \<Rightarrow> [])
           else if magic = MAGIC_MOUSE_BTN_UP_GEN5 then
             (case body of b # _ \<Rightarrow> mouse_button b False | [] \<Rightarrow> [])
           else if magic = MAGIC_KEY_DOWN then key_from_body body True
           else if magic = MAGIC_KEY_UP then key_from_body body False
           else if magic = MAGIC_SCROLL_GEN5 then (if 2 \<le> length body then scroll (i16_be body 0) False else [])
           else if magic = MAGIC_HSCROLL then (if 2 \<le> length body then scroll (i16_be body 0) True else [])
           else [])"

section \<open>The buffer never overflows\<close>

definition pb_inv :: "payload_buf \<Rightarrow> bool" where
  "pb_inv p \<longleftrightarrow> length (pb_buf p) = MAX_PAYLOAD \<and> pb_len p \<le> MAX_PAYLOAD"

lemma pb_inv_new [simp]: "pb_inv pb_new" and as_slice_new [simp]: "as_slice pb_new = []"
  by (simp_all add: pb_inv_def pb_new_def as_slice_def)

lemma pb_inv_put [simp]: "pb_inv p \<Longrightarrow> pb_inv (pb_put s p)"
  by (simp add: pb_inv_def pb_put_def Let_def)

lemma as_slice_length: "pb_inv p \<Longrightarrow> length (as_slice p) = pb_len p"
  by (simp add: pb_inv_def as_slice_def)

lemma as_slice_put [simp]:
  assumes "pb_inv p" "length (as_slice p) + length s \<le> MAX_PAYLOAD"
  shows "as_slice (pb_put s p) = as_slice p @ s"
  using assms as_slice_length[OF assms(1)] by (simp add: pb_inv_def pb_put_def as_slice_def blit_def Let_def)

lemmas put_defs = pb_byte_def be16_def be32_def le16_def le32_def

lemma pb_inv_encode [simp]: "pb_inv (encode_input ev)"
  by (simp add: encode_input_def put_defs split: input_event.split)

lemma encode_input_bytes:
  "as_slice (encode_input ev) =
     (case ev of
        MousePosition x y w h \<Rightarrow> u32_to_be_bytes 14 @ u32_to_le_bytes IN_MAGIC_MOUSE_MOVE_ABS @ u16_to_be_bytes x
          @ u16_to_be_bytes y @ u16_to_be_bytes 0 @ u16_to_be_bytes w @ u16_to_be_bytes h
      | MouseButton b d \<Rightarrow> u32_to_be_bytes 5 @ u32_to_le_bytes (if d then IN_MAGIC_MOUSE_BTN_DOWN else IN_MAGIC_MOUSE_BTN_UP) @ [b]
      | Key k d m \<Rightarrow> u32_to_be_bytes 10 @ u32_to_le_bytes (if d then IN_MAGIC_KEY_DOWN else IN_MAGIC_KEY_UP) @ [0]
          @ u16_to_le_bytes k @ [m] @ u16_to_le_bytes 0
      | Scroll a \<Rightarrow> u32_to_be_bytes 10 @ u32_to_le_bytes IN_MAGIC_SCROLL @ u16_to_be_bytes a @ u16_to_be_bytes a @ u16_to_be_bytes 0)"
  by (simp add: encode_input_def put_defs split: input_event.split)

section \<open>Properties\<close>

lemma inject_magic:
  "inject (u32_to_be_bytes n @ u32_to_le_bytes mg @ body) =
     (if mg = MAGIC_MOUSE_MOVE_REL \<or> mg = MAGIC_MOUSE_MOVE_REL_GEN5 then
        (if 4 \<le> length body then mouse_move_rel (i16_be body 0) (i16_be body 2) else [])
      else if mg = MAGIC_MOUSE_MOVE_ABS then
        (if 10 \<le> length body then mouse_move_abs (i16_be body 0) (i16_be body 2) (i16_be body 6) (i16_be body 8) else [])
      else if mg = MAGIC_MOUSE_BTN_DOWN_GEN5 then (case body of b # _ \<Rightarrow> mouse_button b True | [] \<Rightarrow> [])
      else if mg = MAGIC_MOUSE_BTN_UP_GEN5 then (case body of b # _ \<Rightarrow> mouse_button b False | [] \<Rightarrow> [])
      else if mg = MAGIC_KEY_DOWN then key_from_body body True
      else if mg = MAGIC_KEY_UP then key_from_body body False
      else if mg = MAGIC_SCROLL_GEN5 then (if 2 \<le> length body then scroll (i16_be body 0) False else [])
      else if mg = MAGIC_HSCROLL then (if 2 \<le> length body then scroll (i16_be body 0) True else [])
      else [])"
  by (simp add: inject_def u32_to_be_bytes_def u32_to_le_bytes_def Let_def)

lemmas magic_defs = IN_MAGIC_KEY_DOWN_def IN_MAGIC_KEY_UP_def IN_MAGIC_MOUSE_MOVE_ABS_def IN_MAGIC_MOUSE_BTN_DOWN_def
  IN_MAGIC_MOUSE_BTN_UP_def IN_MAGIC_SCROLL_def MAGIC_KEY_DOWN_def MAGIC_KEY_UP_def MAGIC_MOUSE_MOVE_ABS_def
  MAGIC_MOUSE_MOVE_REL_def MAGIC_MOUSE_MOVE_REL_GEN5_def MAGIC_MOUSE_BTN_DOWN_GEN5_def MAGIC_MOUSE_BTN_UP_GEN5_def
  MAGIC_SCROLL_GEN5_def MAGIC_HSCROLL_def

text \<open>The effect an event is meant to have on the host.\<close>

definition event_effect :: "input_event \<Rightarrow> win_input list" where
  "event_effect ev =
     (case ev of
        MousePosition x y w h \<Rightarrow> mouse_move_abs (sint x) (sint y) (sint w) (sint h)
      | MouseButton b d \<Rightarrow> mouse_button b d
      | Key k d m \<Rightarrow> key k d
      | Scroll a \<Rightarrow> scroll (sint a) False)"

lemma inject_encode: "inject (as_slice (encode_input ev)) = event_effect ev"
proof (cases ev)
  case (MousePosition x y w h)
  then show ?thesis unfolding encode_input_bytes MousePosition input_event.case inject_magic event_effect_def
    by (simp add: magic_defs i16_be_def u16_to_be_bytes_def)
next
  case (MouseButton b d)
  then show ?thesis unfolding encode_input_bytes MouseButton input_event.case inject_magic event_effect_def
    by (simp add: magic_defs)
next
  case (Key k d m)
  then show ?thesis unfolding encode_input_bytes Key input_event.case inject_magic event_effect_def
    by (simp add: magic_defs key_from_body_def u16_to_le_bytes_def)
next
  case (Scroll a)
  then show ?thesis unfolding encode_input_bytes Scroll input_event.case inject_magic event_effect_def
    by (simp add: magic_defs i16_be_def u16_to_be_bytes_def)
qed

lemma encode_input_fits: "length (as_slice (encode_input ev)) \<le> 18"
  by (simp add: encode_input_bytes split: input_event.split)

lemma as_i32_id: "- (2 ^ 31) \<le> x \<Longrightarrow> x < 2 ^ 31 \<Longrightarrow> as_i32 x = x"
  by (simp add: as_i32_def sint_sbintrunc' signed_take_bit_int_eq_self)

lemma scaled_coordinate:
  assumes "0 \<le> x" "x \<le> w" "0 < w" "w < 2 ^ 15"
  shows "as_i32 (x * 65535 sdiv w) = x * 65535 div w" "0 \<le> x * 65535 div w" "x * 65535 div w \<le> 65535"
proof -
  have "x * 65535 sdiv w = x * 65535 div w" using assms by (cases "x = 0") (simp_all add: signed_divide_int_def sgn_mult)
  moreover show "0 \<le> x * 65535 div w" using assms by (simp add: pos_imp_zdiv_nonneg_iff)
  moreover show "x * 65535 div w \<le> 65535"
    using zdiv_mono1[of "x * 65535" "w * 65535" w] assms by simp
  ultimately show "as_i32 (x * 65535 sdiv w) = x * 65535 div w" by (simp add: as_i32_id)
qed

text \<open>
  Absolute pointer positions are mapped onto the whole screen. A position inside the reference
  rectangle becomes one inside 0..65535 without overflow, the rectangle's corners become the screen's corners, and the
  order of positions is kept; an empty or negative reference rectangle moves nothing.
\<close>

theorem pointer_position_scaled:
  assumes "0 \<le> sint x" "sint x \<le> sint w" "0 \<le> sint y" "sint y \<le> sint h" "0 < sint w" "0 < sint h"
  shows "\<exists>nx ny. inject (as_slice (encode_input (MousePosition x y w h)))
      = [InputMouse nx ny 0 [MOUSEEVENTF_MOVE, MOUSEEVENTF_ABSOLUTE]]
    \<and> nx = sint x * 65535 div sint w \<and> ny = sint y * 65535 div sint h
    \<and> nx \<in> {0..65535} \<and> ny \<in> {0..65535} \<and> (x = 0 \<longrightarrow> nx = 0) \<and> (x = w \<longrightarrow> nx = 65535)
    \<and> (\<forall>x' y'. 0 \<le> sint x' \<and> sint x' \<le> sint x \<longrightarrow>
         (\<forall>i\<in>set (inject (as_slice (encode_input (MousePosition x' y' w h)))). im_dx i \<le> nx))"
proof -
  have b: "sint w < 2 ^ 15" "sint h < 2 ^ 15" using sint_lt[of w] sint_lt[of h] by simp_all
  note sx = scaled_coordinate[OF assms(1,2,5) b(1)] and sy = scaled_coordinate[OF assms(3,4,6) b(2)]
  have "inject (as_slice (encode_input (MousePosition x y w h)))
      = [InputMouse (sint x * 65535 div sint w) (sint y * 65535 div sint h) 0 [MOUSEEVENTF_MOVE, MOUSEEVENTF_ABSOLUTE]]"
    unfolding inject_encode using assms sx sy by (simp add: event_effect_def mouse_move_abs_def mouse_event_def)
  moreover have "im_dx i \<le> sint x * 65535 div sint w"
    if "0 \<le> sint x'" "sint x' \<le> sint x" "i \<in> set (inject (as_slice (encode_input (MousePosition x' y' w h))))" for x' y' i
    using that scaled_coordinate(1)[OF that(1) _ assms(5) b(1)] assms zdiv_mono1[of "sint x' * 65535" "sint x * 65535" "sint w"]
    unfolding inject_encode by (auto simp: event_effect_def mouse_move_abs_def mouse_event_def)
  ultimately show ?thesis using sx sy assms(5) by auto
qed

theorem pointer_position_scaled_witness:
  "\<exists>nx ny. inject (as_slice (encode_input (MousePosition 1919 540 1920 1080)))
      = [InputMouse nx ny 0 [MOUSEEVENTF_MOVE, MOUSEEVENTF_ABSOLUTE]] \<and> nx = 65500 \<and> ny = 32767"
  using pointer_position_scaled[of 1919 1920 540 1080] by auto

end
