(* ===== verification/Kmc_Control.thy ===== *)
theory Kmc_Control
  imports Complex_Main Kmc_Session Kmc_Input Kmc_Gsproto Kmc_Bitrate
begin

text \<open>
  The encrypted control channel. First the framing and the host's packet handler
  (\<^verbatim>\<open>kmc-streamhost/src/control.rs\<close>), then the client's sender task (\<^verbatim>\<open>kmc-moonclient/src/control.rs\<close>) as a
  state machine. ENet itself is a library: its events are inputs, its \<^verbatim>\<open>send\<close> results an argument.
\<close>

section \<open>Message types and framing\<close>

definition MSG_ENCRYPTED :: u16 where "MSG_ENCRYPTED = 0x0001"
definition MSG_TERMINATION_EXT :: u16 where "MSG_TERMINATION_EXT = 0x0109"
definition MSG_PING :: u16 where "MSG_PING = 0x0200"
definition MSG_START_B :: u16 where "MSG_START_B = 0x0307"
definition MSG_REQUEST_IDR :: u16 where "MSG_REQUEST_IDR = 0x0302"
definition MSG_INVALIDATE_REF :: u16 where "MSG_INVALIDATE_REF = 0x0301"
definition MSG_INPUT_DATA :: u16 where "MSG_INPUT_DATA = 0x0206"
definition MSG_FRAME_FEC_STATUS :: u16 where "MSG_FRAME_FEC_STATUS = 0x5502"
definition TAG_LEN :: nat where [simp]: "TAG_LEN = 16"

lemmas msg_defs = MSG_ENCRYPTED_def MSG_TERMINATION_EXT_def MSG_PING_def MSG_START_B_def MSG_REQUEST_IDR_def
  MSG_INVALIDATE_REF_def MSG_INPUT_DATA_def MSG_FRAME_FEC_STATUS_def

definition parse_header :: "bytes \<Rightarrow> (u16 \<times> bytes) option" where
  "parse_header buf = (if length buf < 4 then None else Some (u16_from_le_bytes (buf ! 0) (buf ! 1), drop 4 buf))"

definition client_parse_header :: "bytes \<Rightarrow> (u16 \<times> bytes) option" where
  "client_parse_header buf = (if length buf < 4 then None else Some (u16_from_le_bytes (buf ! 0) (buf ! 1), drop 4 buf))"

definition client_iv :: "u32 \<Rightarrow> bytes" where
  "client_iv seq = u32_to_le_bytes seq @ replicate 6 0 @ [0x43, 0x43]"

definition host_iv :: "u32 \<Rightarrow> bytes" where
  "host_iv seq = u32_to_le_bytes seq @ replicate 6 0 @ [0x48, 0x43]"

text \<open>Client to host: encryption on the client, decryption on the host with the session's key.\<close>

definition encode_encrypted :: "gcm \<Rightarrow> bytes \<Rightarrow> u32 \<Rightarrow> u16 \<Rightarrow> bytes \<Rightarrow> bytes option" where
  "encode_encrypted g k seq inner_type payload =
     (let pt_len = 4 + length payload;
          plain = u16_to_le_bytes inner_type @ u16_to_le_bytes (of_nat (length payload)) @ payload
      in case gcm_encrypt g k (client_iv seq) plain of
           None \<Rightarrow> None
         | Some sealed \<Rightarrow>
             Some (u16_to_le_bytes MSG_ENCRYPTED @ u16_to_le_bytes (of_nat (4 + TAG_LEN + pt_len)) @ u32_to_le_bytes seq
                   @ drop pt_len sealed @ take pt_len sealed))"

definition decrypt_message :: "gcm \<Rightarrow> session_state \<Rightarrow> bytes \<Rightarrow> bytes option" where
  "decrypt_message g session buf =
     (if length buf < 4 + 4 + TAG_LEN then None
      else
        let len = unat (u16_from_le_bytes (buf ! 2) (buf ! 3));
            seq = u32_from_le_bytes (buf ! 4) (buf ! 5) (buf ! 6) (buf ! 7);
            tag = take TAG_LEN (drop 8 buf);
            ct_len = len - (4 + TAG_LEN);
            ct_start = 8 + TAG_LEN;
            ct_end = min (ct_start + ct_len) (length buf);
            ciphertext = take (ct_end - ct_start) (drop ct_start buf)
        in case session_get session of
             None \<Rightarrow> None
           | Some s \<Rightarrow>
               let k = ls_remote_input_key s
               in if length k \<noteq> 16 then None
                  else aes_gcm_decrypt g ciphertext k (u32_to_le_bytes seq @ replicate 6 0 @ [0x43, 0x43]) tag)"

text \<open>Host to client.\<close>

definition encode_control_message :: "gcm \<Rightarrow> bytes \<Rightarrow> u32 \<Rightarrow> bytes \<Rightarrow> bytes option" where
  "encode_control_message g k seq payload =
     (case aes_gcm_encrypt g payload k (u32_to_le_bytes seq @ replicate 6 0 @ [0x48, 0x43]) of
        None \<Rightarrow> None
      | Some (ct, tag) \<Rightarrow>
          Some (u16_to_le_bytes MSG_ENCRYPTED @ u16_to_le_bytes (of_nat (4 + TAG_LEN + length ct)) @ u32_to_le_bytes seq
                @ tag @ ct))"

definition client_decrypt_message :: "gcm \<Rightarrow> bytes \<Rightarrow> bytes \<Rightarrow> bytes option" where
  "client_decrypt_message g k buf =
     (if length buf < 4 + 4 + TAG_LEN then None
      else
        let len = unat (u16_from_le_bytes (buf ! 2) (buf ! 3));
            seq = u32_from_le_bytes (buf ! 4) (buf ! 5) (buf ! 6) (buf ! 7);
            ct_len = len - (4 + TAG_LEN);
            ct_start = 8 + TAG_LEN;
            ct_end = min (ct_start + ct_len) (length buf);
            sealed = take (ct_end - ct_start) (drop ct_start buf) @ take TAG_LEN (drop 8 buf)
        in gcm_decrypt g k (host_iv seq) sealed)"

section \<open>The host's packet handler\<close>

text \<open>\<open>hc_triggered\<close> counts the start signals, \<open>hc_injected\<close> collects what was handed to \<^verbatim>\<open>SendInput\<close>.\<close>

record host_control =
  hc_session :: session_state
  hc_triggered :: nat
  hc_idr_req :: bool
  hc_bitrate :: bitrate_controller
  hc_injected :: "win_input list"

definition control_dispatch :: "(rat \<Rightarrow> rat) \<Rightarrow> instant \<Rightarrow> u16 \<Rightarrow> bytes \<Rightarrow> host_control \<Rightarrow> host_control" where
  "control_dispatch hp now ty payload h =
     (if ty = MSG_START_B then h\<lparr>hc_triggered := hc_triggered h + 1\<rparr>
      else if ty = MSG_PING then h
      else if ty = MSG_REQUEST_IDR \<or> ty = MSG_INVALIDATE_REF then h\<lparr>hc_idr_req := True\<rparr>
      else if ty = MSG_INPUT_DATA then h\<lparr>hc_injected := hc_injected h @ inject payload\<rparr>
      else if ty = MSG_FRAME_FEC_STATUS then
        (case Option.bind (fec_status_parse payload) loss_fraction of
           Some lf \<Rightarrow> h\<lparr>hc_bitrate := on_loss hp now lf (hc_bitrate h)\<rparr>
         | None \<Rightarrow> h)
      else h)"

definition handle_packet :: "gcm \<Rightarrow> (rat \<Rightarrow> rat) \<Rightarrow> instant \<Rightarrow> bytes \<Rightarrow> host_control \<Rightarrow> host_control" where
  "handle_packet g hp now buf h =
     (case parse_header buf of
        None \<Rightarrow> h
      | Some (msg_type, body) \<Rightarrow>
          if msg_type = MSG_ENCRYPTED then
            (case decrypt_message g (hc_session h) buf of
               None \<Rightarrow> h
             | Some plain \<Rightarrow>
                 (case parse_header plain of
                    None \<Rightarrow> h
                  | Some (t, p) \<Rightarrow> control_dispatch hp now t p h))
          else control_dispatch hp now msg_type body h)"

text \<open>The ENet service loop; \<open>ch_peers\<close> are the peers in state \<^verbatim>\<open>Connected\<close>.\<close>

datatype enet_event = EvConnect nat | EvDisconnect nat | EvReceive nat bytes | EvNone | EvError

record control_host =
  ch_peers :: "nat set"
  ch_connected :: "nat option"
  ch_state :: host_control

definition control_service :: "gcm \<Rightarrow> (rat \<Rightarrow> rat) \<Rightarrow> instant \<times> enet_event \<Rightarrow> control_host \<Rightarrow> control_host" where
  "control_service g hp e c =
     (case e of (now, ev) \<Rightarrow>
       case ev of
         EvConnect p \<Rightarrow>
           let peers = insert p (ch_peers c);
               stale = {q \<in> peers. q \<noteq> p}
           in c\<lparr>ch_peers := peers - stale, ch_connected := Some p\<rparr>
       | EvDisconnect p \<Rightarrow>
           c\<lparr>ch_peers := ch_peers c - {p}, ch_connected := (if ch_connected c = Some p then None else ch_connected c)\<rparr>
       | EvReceive p data \<Rightarrow> c\<lparr>ch_state := handle_packet g hp now data (ch_state c)\<rparr>
       | EvNone \<Rightarrow> c
       | EvError \<Rightarrow> c)"

section \<open>The client's channel\<close>

datatype packet_mode = ReliableSequenced | Unsequenced

record out_msg =
  om_ty :: u16
  om_mode :: packet_mode
  om_payload :: payload_buf

datatype cmd = Msg out_msg | Shutdown

definition PING_INTERVAL :: instant where "PING_INTERVAL = millis 100"

definition start_b_payload :: payload_buf where "start_b_payload = pb_byte 0 pb_new"
definition ping_payload :: payload_buf where "ping_payload = le16 0 (le32 0 (le16 4 pb_new))"
definition fec_status_payload :: "frame_fec_status \<Rightarrow> payload_buf" where
  "fec_status_payload st = pb_put (fec_status_to_bytes st) pb_new"

text \<open>
  \<open>cc_alive\<close>, \<open>cc_term\<close> are the atomics shared with the handle, \<open>cc_queue\<close> the command queue, \<open>cc_handle\<close> whether
  the handle still exists, \<open>cc_peer\<close> whether ENet reports the peer as connected, \<open>cc_running\<close> whether the task
  runs. \<open>cc_sent\<close> is what was handed to ENet, \<open>cc_ivs\<close> every nonce the cipher was used with.
\<close>

record control_client =
  cc_seq :: u32
  cc_alive :: bool
  cc_term :: "int option"
  cc_queue :: "cmd list"
  cc_handle :: bool
  cc_peer :: bool
  cc_running :: bool
  cc_next_ping :: instant
  cc_sent :: "(bytes \<times> packet_mode) list"
  cc_ivs :: "bytes list"

definition enqueue :: "out_msg \<Rightarrow> control_client \<Rightarrow> control_client" where
  "enqueue m c = (if \<not> cc_alive c then c else if \<not> cc_running c then c else c\<lparr>cc_queue := cc_queue c @ [Msg m]\<rparr>)"

definition idr_msg :: out_msg where
  "idr_msg = \<lparr>om_ty = MSG_REQUEST_IDR, om_mode = ReliableSequenced, om_payload = pb_put [0, 0] pb_new\<rparr>"

definition input_msg :: "input_event \<Rightarrow> out_msg" where
  "input_msg ev = \<lparr>om_ty = MSG_INPUT_DATA, om_mode = ReliableSequenced, om_payload = encode_input ev\<rparr>"

definition fec_msg :: "frame_fec_status \<Rightarrow> out_msg" where
  "fec_msg st = \<lparr>om_ty = MSG_FRAME_FEC_STATUS, om_mode = Unsequenced, om_payload = fec_status_payload st\<rparr>"

definition request_idr :: "control_client \<Rightarrow> control_client" where "request_idr = enqueue idr_msg"
definition send_input :: "input_event \<Rightarrow> control_client \<Rightarrow> control_client" where "send_input ev = enqueue (input_msg ev)"
definition send_fec_status :: "frame_fec_status \<Rightarrow> control_client \<Rightarrow> control_client" where
  "send_fec_status st = enqueue (fec_msg st)"
definition termination_code :: "control_client \<Rightarrow> int option" where "termination_code c = cc_term c"

definition shutdown :: "control_client \<Rightarrow> control_client" where
  "shutdown c = (let c1 = c\<lparr>cc_alive := False\<rparr> in if cc_running c1 then c1\<lparr>cc_queue := cc_queue c1 @ [Shutdown]\<rparr> else c1)"

definition queue_msg :: "gcm \<Rightarrow> bytes \<Rightarrow> (u32 \<Rightarrow> bool) \<Rightarrow> out_msg \<Rightarrow> control_client \<Rightarrow> bool \<times> control_client" where
  "queue_msg g k send_ok m c =
     (let this_seq = cc_seq c;
          c1 = c\<lparr>cc_seq := this_seq + 1, cc_ivs := cc_ivs c @ [client_iv this_seq]\<rparr>
      in case encode_encrypted g k this_seq (om_ty m) (as_slice (om_payload m)) of
           None \<Rightarrow> (False, c1)
         | Some bs \<Rightarrow>
             if \<not> cc_peer c1 then (False, c1)
             else if send_ok this_seq then (True, c1\<lparr>cc_sent := cc_sent c1 @ [(bs, om_mode m)]\<rparr>)
             else (False, c1))"

definition handle_inbound :: "gcm \<Rightarrow> bytes \<Rightarrow> bytes \<Rightarrow> control_client \<Rightarrow> control_client" where
  "handle_inbound g k buf c =
     (case (case client_parse_header buf of
              None \<Rightarrow> None
            | Some (msg_type, body) \<Rightarrow>
                if msg_type = MSG_ENCRYPTED then Option.bind (client_decrypt_message g k buf) client_parse_header
                else Some (msg_type, body)) of
        None \<Rightarrow> c
      | Some (ty, payload) \<Rightarrow>
          if ty = MSG_TERMINATION_EXT then
            let code = (if 4 \<le> length payload then sint (u32_from_be_bytes (payload ! 0) (payload ! 1) (payload ! 2) (payload ! 3))
                        else if 2 \<le> length payload then uint (u16_from_le_bytes (payload ! 0) (payload ! 1))
                        else 0)
            in c\<lparr>cc_term := Some code, cc_alive := False\<rparr>
          else c)"

definition control_client_new :: control_client where
  "control_client_new =
     \<lparr>cc_seq = 0, cc_alive = True, cc_term = None, cc_queue = [], cc_handle = True, cc_peer = False, cc_running = False,
      cc_next_ping = 0, cc_sent = [], cc_ivs = []\<rparr>"

datatype service_result = SvConnect | SvDisconnect | SvReceive bytes | SvNone | SvError

datatype connect_error = ConnectTimeout | ConnectRefused | ServiceFailed | StartBFailed | FlushFailed

text \<open>\<^verbatim>\<open>connect\<close>: the handshake loop (each turn with whether the deadline passed), then the start message.\<close>

fun connect_wait ::
  "gcm \<Rightarrow> bytes \<Rightarrow> (bool \<times> service_result) list \<Rightarrow> control_client \<Rightarrow> connect_error + control_client" where
  "connect_wait g k [] c = Inl ConnectTimeout"
| "connect_wait g k ((late, sv) # svs) c =
     (if late then Inl ConnectTimeout
      else case sv of
        SvConnect \<Rightarrow> Inr (c\<lparr>cc_peer := True\<rparr>)
      | SvDisconnect \<Rightarrow> Inl ConnectRefused
      | SvReceive d \<Rightarrow> connect_wait g k svs (handle_inbound g k d c)
      | SvNone \<Rightarrow> connect_wait g k svs c
      | SvError \<Rightarrow> Inl ServiceFailed)"

definition start_b_msg :: out_msg where
  "start_b_msg = \<lparr>om_ty = MSG_START_B, om_mode = ReliableSequenced, om_payload = start_b_payload\<rparr>"

definition ping_msg :: out_msg where
  "ping_msg = \<lparr>om_ty = MSG_PING, om_mode = ReliableSequenced, om_payload = ping_payload\<rparr>"

definition control_connect ::
  "gcm \<Rightarrow> bytes \<Rightarrow> (u32 \<Rightarrow> bool) \<Rightarrow> bool \<Rightarrow> instant \<Rightarrow> (bool \<times> service_result) list
     \<Rightarrow> connect_error + control_client" where
  "control_connect g k send_ok flush_ok now svs =
     (case connect_wait g k svs control_client_new of
        Inl e \<Rightarrow> Inl e
      | Inr c \<Rightarrow>
          (case queue_msg g k send_ok start_b_msg c of
             (False, _) \<Rightarrow> Inl StartBFailed
           | (True, c1) \<Rightarrow> if \<not> flush_ok then Inl FlushFailed else Inr (c1\<lparr>cc_running := True, cc_next_ping := now + PING_INTERVAL\<rparr>)))"

text \<open>The task: drain the queue, ping, service, stop. \<open>drain\<close> returns whether the loop stops.\<close>

fun drain :: "gcm \<Rightarrow> bytes \<Rightarrow> (u32 \<Rightarrow> bool) \<Rightarrow> cmd list \<Rightarrow> control_client \<Rightarrow> bool \<times> control_client" where
  "drain g k send_ok [] c = (\<not> cc_handle c, c\<lparr>cc_queue := []\<rparr>)"
| "drain g k send_ok (Msg m # q) c = drain g k send_ok q (snd (queue_msg g k send_ok m c))"
| "drain g k send_ok (Shutdown # q) c = (True, c\<lparr>cc_queue := q\<rparr>)"

definition run_stop :: "control_client \<Rightarrow> control_client" where
  "run_stop c = c\<lparr>cc_alive := False, cc_running := False, cc_peer := False\<rparr>"

definition run_turn ::
  "gcm \<Rightarrow> bytes \<Rightarrow> (u32 \<Rightarrow> bool) \<Rightarrow> instant \<Rightarrow> service_result \<Rightarrow> control_client \<Rightarrow> control_client" where
  "run_turn g k send_ok now sv c =
     (case drain g k send_ok (cc_queue c) c of
        (True, c1) \<Rightarrow> run_stop c1
      | (False, c1) \<Rightarrow>
          let c2 = (if cc_next_ping c1 \<le> now then (snd (queue_msg g k send_ok ping_msg c1))\<lparr>cc_next_ping := now + PING_INTERVAL\<rparr>
                    else c1);
              (stopping, c3) = (case sv of
                  SvReceive d \<Rightarrow> (False, handle_inbound g k d c2)
                | SvDisconnect \<Rightarrow> (True, c2\<lparr>cc_peer := False\<rparr>)
                | SvConnect \<Rightarrow> (False, c2)
                | SvNone \<Rightarrow> (False, c2)
                | SvError \<Rightarrow> (False, c2))
          in if stopping \<or> cc_term c3 \<noteq> None then run_stop c3 else c3)"

datatype client_event = Enqueue out_msg | ShutdownReq | DropHandle | Turn instant service_result

definition client_step :: "gcm \<Rightarrow> bytes \<Rightarrow> (u32 \<Rightarrow> bool) \<Rightarrow> client_event \<Rightarrow> control_client \<Rightarrow> control_client" where
  "client_step g k send_ok e c =
     (case e of
        Enqueue m \<Rightarrow> enqueue m c
      | ShutdownReq \<Rightarrow> shutdown c
      | DropHandle \<Rightarrow> c\<lparr>cc_handle := False\<rparr>
      | Turn now sv \<Rightarrow> if cc_running c then run_turn g k send_ok now sv c else c)"

section \<open>Both directions keep the message\<close>

text \<open>The common layout: type, length, sequence number, tag, ciphertext.\<close>

definition sealed_frame :: "u32 \<Rightarrow> bytes \<Rightarrow> bytes \<Rightarrow> bytes" where
  "sealed_frame seq tag ct =
     u16_to_le_bytes MSG_ENCRYPTED @ u16_to_le_bytes (of_nat (4 + TAG_LEN + length ct)) @ u32_to_le_bytes seq @ tag @ ct"

lemma unat_of_nat_u16: "n < 2 ^ 16 \<Longrightarrow> unat (of_nat n :: u16) = n"
  by (simp add: unat_of_nat take_bit_nat_eq_self)

lemma sealed_frame_parts:
  assumes "length tag = 16" "20 + length ct < 2 ^ 16"
    and m_def: "m = sealed_frame seq tag ct"
  shows "length m = 24 + length ct" "parse_header m = Some (MSG_ENCRYPTED, drop 4 m)"
    "unat (u16_from_le_bytes (m ! 2) (m ! 3)) = 20 + length ct"
    "u32_from_le_bytes (m ! 4) (m ! 5) (m ! 6) (m ! 7) = seq" "take 16 (drop 8 m) = tag" "drop 24 m = ct"
proof -
  define n :: u16 where "n = of_nat (4 + TAG_LEN + length ct)"
  have m: "m = u16_to_le_bytes MSG_ENCRYPTED @ u16_to_le_bytes n @ u32_to_le_bytes seq @ tag @ ct"
    by (simp add: m_def sealed_frame_def n_def)
  show "length m = 24 + length ct" using assms(1) by (simp add: m)
  show "parse_header m = Some (MSG_ENCRYPTED, drop 4 m)" by (simp add: m parse_header_def u16_to_le_bytes_def)
  have "unat n = 20 + length ct" using unat_of_nat_u16[of "20 + length ct"] assms(2) by (simp add: n_def)
  then show "unat (u16_from_le_bytes (m ! 2) (m ! 3)) = 20 + length ct" by (simp add: m u16_to_le_bytes_def)
  show "u32_from_le_bytes (m ! 4) (m ! 5) (m ! 6) (m ! 7) = seq"
    by (simp add: m u16_to_le_bytes_def u32_to_le_bytes_def)
  show "take 16 (drop 8 m) = tag" "drop 24 m = ct" using assms(1)
    by (simp_all add: m u16_to_le_bytes_def u32_to_le_bytes_def)
qed

lemma parse_framed: "parse_header (u16_to_le_bytes t @ u16_to_le_bytes n @ p) = Some (t, p)"
  by (simp add: parse_header_def u16_to_le_bytes_def)

lemma client_parse_header_eq: "client_parse_header = parse_header"
  by (simp add: fun_eq_iff client_parse_header_def parse_header_def)

text \<open>
  A direction of the channel: \<open>seal\<close> on one end and \<open>unseal\<close> on the other agree on every message that
  fits the length field.
\<close>

locale control_link =
  fixes seal :: "gcm \<Rightarrow> bytes \<Rightarrow> u32 \<Rightarrow> u16 \<Rightarrow> bytes \<Rightarrow> bytes option"
    and unseal :: "gcm \<Rightarrow> bytes \<Rightarrow> bytes \<Rightarrow> (u16 \<times> bytes) option"
  assumes link: "gcm_ok g \<Longrightarrow> length k = 16 \<Longrightarrow> length p + 24 < 2 ^ 16 \<Longrightarrow>
      \<exists>m. seal g k s t p = Some m \<and> parse_header m = Some (MSG_ENCRYPTED, drop 4 m) \<and> unseal g k m = Some (t, p)"
begin

lemma unseal_seal:
  "gcm_ok g \<Longrightarrow> length k = 16 \<Longrightarrow> length p + 24 < 2 ^ 16 \<Longrightarrow> seal g k s t p = Some m \<Longrightarrow>
   unseal g k m = Some (t, p) \<and> parse_header m = Some (MSG_ENCRYPTED, drop 4 m)"
  using link[of g k p s t] by auto

lemma seal_total: "gcm_ok g \<Longrightarrow> length k = 16 \<Longrightarrow> length p + 24 < 2 ^ 16 \<Longrightarrow> \<exists>m. seal g k s t p = Some m"
  using link by blast

lemma seal_inj:
  assumes "gcm_ok g" "length k = 16" "length p + 24 < 2 ^ 16" "length p' + 24 < 2 ^ 16"
    "seal g k s t p = Some m" "seal g k s' t' p' = Some m"
  shows "t = t' \<and> p = p'"
  using unseal_seal[OF assms(1,2,3,5)] unseal_seal[OF assms(1,2,4,6)] by simp

end

definition key_session :: "bytes \<Rightarrow> launch_session" where
  "key_session k = \<lparr>ls_remote_input_key = k, ls_remote_input_key_id = 0, ls_width = 0, ls_height = 0, ls_refresh_rate = 0\<rparr>"

lemma decrypt_message_key:
  "decrypt_message g (Some s) m = decrypt_message g (Some (key_session (ls_remote_input_key s))) m"
  by (simp add: decrypt_message_def session_get_def key_session_def Let_def)

definition host_unseal :: "gcm \<Rightarrow> bytes \<Rightarrow> bytes \<Rightarrow> (u16 \<times> bytes) option" where
  "host_unseal g k m = Option.bind (decrypt_message g (Some (key_session k)) m) parse_header"

definition host_seal :: "gcm \<Rightarrow> bytes \<Rightarrow> u32 \<Rightarrow> u16 \<Rightarrow> bytes \<Rightarrow> bytes option" where
  "host_seal g k s t p = encode_control_message g k s (u16_to_le_bytes t @ u16_to_le_bytes (of_nat (length p)) @ p)"

definition client_unseal :: "gcm \<Rightarrow> bytes \<Rightarrow> bytes \<Rightarrow> (u16 \<times> bytes) option" where
  "client_unseal g k m = Option.bind (client_decrypt_message g k m) client_parse_header"

interpretation c2h: control_link encode_encrypted host_unseal
proof
  fix g :: gcm and k p :: bytes and s :: u32 and t :: u16
  assume a: "gcm_ok g" "length k = 16" "length p + 24 < 2 ^ 16"
  let ?pt = "u16_to_le_bytes t @ u16_to_le_bytes (of_nat (length p)) @ p"
  have "length ?pt < 2 ^ 32" using a(3) by simp
  then obtain c where c: "gcm_encrypt g k (client_iv s) ?pt = Some c" "length c = length ?pt + 16"
      "gcm_decrypt g k (client_iv s) c = Some ?pt"
    by (rule gcm_okD[OF a(1)])
  let ?m = "sealed_frame s (drop (4 + length p) c) (take (4 + length p) c)"
  have m: "encode_encrypted g k s t p = Some ?m"
    using c(1,2) by (simp add: encode_encrypted_def Let_def sealed_frame_def)
  have l: "length (drop (4 + length p) c) = 16" "20 + length (take (4 + length p) c) < 2 ^ 16"
    "length (take (4 + length p) c) = 4 + length p" using c(2) a(3) by simp_all
  note parts = sealed_frame_parts[OF l(1,2) refl, of s]
  have iv: "u32_to_le_bytes s @ replicate 6 0 @ [0x43, 0x43] = client_iv s" by (simp add: client_iv_def)
  have "decrypt_message g (Some (key_session k)) ?m = gcm_decrypt g k (client_iv s) c"
    unfolding decrypt_message_def Let_def using parts l a(2) c(2)
    by (simp add: session_get_def key_session_def aes_gcm_decrypt_def iv)
  then show "\<exists>m. encode_encrypted g k s t p = Some m \<and> parse_header m = Some (MSG_ENCRYPTED, drop 4 m)
      \<and> host_unseal g k m = Some (t, p)"
    using m parts(2) c(3) by (simp add: host_unseal_def parse_framed)
qed

interpretation h2c: control_link host_seal client_unseal
proof
  fix g :: gcm and k p :: bytes and s :: u32 and t :: u16
  assume a: "gcm_ok g" "length k = 16" "length p + 24 < 2 ^ 16"
  let ?pt = "u16_to_le_bytes t @ u16_to_le_bytes (of_nat (length p)) @ p"
  have "length ?pt < 2 ^ 32" using a(3) by simp
  then obtain ct tag where c: "aes_gcm_encrypt g ?pt k (host_iv s) = Some (ct, tag)" "length ct = length ?pt" "length tag = 16"
      "aes_gcm_decrypt g ct k (host_iv s) tag = Some ?pt"
    using aes_gcm_roundtrip[OF a(1)] by blast
  have m: "host_seal g k s t p = Some (sealed_frame s tag ct)"
    using c(1) by (simp add: host_seal_def encode_control_message_def sealed_frame_def host_iv_def)
  have l: "20 + length ct < 2 ^ 16" using c(2) a(3) by simp
  note parts = sealed_frame_parts[OF c(3) l refl, of s]
  have "client_decrypt_message g k (sealed_frame s tag ct) = Some ?pt"
    unfolding client_decrypt_message_def Let_def using parts c(4)
    by (simp add: aes_gcm_decrypt_def)
  then show "\<exists>m. host_seal g k s t p = Some m \<and> parse_header m = Some (MSG_ENCRYPTED, drop 4 m)
      \<and> client_unseal g k m = Some (t, p)"
    using m parts(2) by (simp add: client_unseal_def client_parse_header_eq parse_framed)
qed

section \<open>Lemmas on the client\<close>

lemma control_dispatch_session [simp]: "hc_session (control_dispatch hp now t p h) = hc_session h"
  by (simp add: control_dispatch_def split: option.split)

lemma handle_sealed:
  assumes "gcm_ok g" "hc_session h = Some s" "ls_remote_input_key s = k" "length k = 16" "length p + 24 < 2 ^ 16"
    and "encode_encrypted g k seq t p = Some m"
  shows "handle_packet g hp now m h = control_dispatch hp now t p h"
proof -
  note u = c2h.unseal_seal[OF assms(1,4,5,6)]
  then obtain pl where "decrypt_message g (hc_session h) m = Some pl" "parse_header pl = Some (t, p)"
    using assms(2,3) decrypt_message_key[of g s m] by (auto simp: host_unseal_def bind_eq_Some_conv)
  then show ?thesis using u by (simp add: handle_packet_def)
qed

definition msg_effect :: "(rat \<Rightarrow> rat) \<Rightarrow> instant \<Rightarrow> out_msg \<Rightarrow> host_control \<Rightarrow> host_control" where
  "msg_effect hp now m = control_dispatch hp now (om_ty m) (as_slice (om_payload m))"

lemma payload_fits: "pb_inv p \<Longrightarrow> length (as_slice p) + 24 < 2 ^ 16"
  using as_slice_length[of p] by (simp add: pb_inv_def)

lemma queue_msg_frame [simp]:
  "cc_peer (snd (queue_msg g k ok m c)) = cc_peer c" "cc_handle (snd (queue_msg g k ok m c)) = cc_handle c"
  "cc_alive (snd (queue_msg g k ok m c)) = cc_alive c" "cc_term (snd (queue_msg g k ok m c)) = cc_term c"
  "cc_running (snd (queue_msg g k ok m c)) = cc_running c" "cc_queue (snd (queue_msg g k ok m c)) = cc_queue c"
  "cc_seq (snd (queue_msg g k ok m c)) = cc_seq c + 1" "cc_ivs (snd (queue_msg g k ok m c)) = cc_ivs c @ [client_iv (cc_seq c)]"
  "cc_next_ping (snd (queue_msg g k ok m c)) = cc_next_ping c"
  by (simp_all add: queue_msg_def Let_def split: option.split)

lemma queue_msg_sends:
  assumes "gcm_ok g" "length k = 16" "pb_inv (om_payload m)" "cc_peer c" "ok (cc_seq c)"
  obtains bs where "cc_sent (snd (queue_msg g k ok m c)) = cc_sent c @ [(bs, om_mode m)]"
    "\<And>h s hp now. hc_session h = Some s \<Longrightarrow> ls_remote_input_key s = k \<Longrightarrow> handle_packet g hp now bs h = msg_effect hp now m h"
proof -
  obtain bs where bs: "encode_encrypted g k (cc_seq c) (om_ty m) (as_slice (om_payload m)) = Some bs"
    using c2h.seal_total[OF assms(1,2) payload_fits[OF assms(3)]] by blast
  have "cc_sent (snd (queue_msg g k ok m c)) = cc_sent c @ [(bs, om_mode m)]"
    using bs assms by (simp add: queue_msg_def Let_def)
  then show ?thesis using that handle_sealed[OF assms(1) _ _ assms(2) payload_fits[OF assms(3)] bs]
    by (metis msg_effect_def)
qed

text \<open>What the host does with the packets a client has sent.\<close>

definition host_receives :: "gcm \<Rightarrow> (rat \<Rightarrow> rat) \<Rightarrow> instant \<Rightarrow> (bytes \<times> packet_mode) list \<Rightarrow> host_control \<Rightarrow> host_control" where
  "host_receives g hp now pks h = fold (\<lambda>pk. handle_packet g hp now (fst pk)) pks h"

lemma drain_frame [simp]:
  "cc_peer (snd (drain g k ok q c)) = cc_peer c" "cc_alive (snd (drain g k ok q c)) = cc_alive c"
  "cc_term (snd (drain g k ok q c)) = cc_term c" "cc_next_ping (snd (drain g k ok q c)) = cc_next_ping c"
  "cc_running (snd (drain g k ok q c)) = cc_running c"
  by (induction g k ok q c rule: drain.induct) simp_all

lemma drain_stop: "fst (drain g k ok (map Msg ms) c) = (\<not> cc_handle c)"
  by (induction ms arbitrary: c) simp_all

lemma drain_delivers:
  assumes "gcm_ok g" "length k = 16" "\<forall>m\<in>set ms. pb_inv (om_payload m)" "cc_peer c" "\<forall>s. ok s"
    "hc_session h = Some s" "ls_remote_input_key s = k"
  shows "\<exists>pks. cc_sent (snd (drain g k ok (map Msg ms) c)) = cc_sent c @ pks \<and> map snd pks = map om_mode ms
    \<and> host_receives g hp now pks h = fold (msg_effect hp now) ms h"
  using assms(3,4,6)
proof (induction ms arbitrary: c h)
  case Nil
  then show ?case by (simp add: host_receives_def)
next
  case (Cons m ms)
  obtain bs where bs: "cc_sent (snd (queue_msg g k ok m c)) = cc_sent c @ [(bs, om_mode m)]"
      "\<And>h s hp now. hc_session h = Some s \<Longrightarrow> ls_remote_input_key s = k \<Longrightarrow> handle_packet g hp now bs h = msg_effect hp now m h"
    using queue_msg_sends[OF assms(1,2), of m c ok] Cons.prems assms(5) by auto
  let ?h = "msg_effect hp now m h"
  have "hc_session ?h = Some s" using Cons.prems(3) by (simp add: msg_effect_def)
  then obtain pks where pks: "cc_sent (snd (drain g k ok (map Msg ms) (snd (queue_msg g k ok m c))))
        = cc_sent (snd (queue_msg g k ok m c)) @ pks" "map snd pks = map om_mode ms"
      "host_receives g hp now pks ?h = fold (msg_effect hp now) ms ?h"
    using Cons.IH[of "snd (queue_msg g k ok m c)" ?h] Cons.prems(1,2) by auto
  then show ?case using bs Cons.prems(3) assms(7)
    by (intro exI[of _ "(bs, om_mode m) # pks"]) (simp add: host_receives_def)
qed

lemma ping_no_effect: "msg_effect hp now ping_msg h = h"
  by (simp add: msg_effect_def ping_msg_def control_dispatch_def msg_defs)

lemma ping_fits [simp]: "pb_inv (om_payload ping_msg)"
  by (simp add: ping_msg_def ping_payload_def put_defs)

text \<open>One turn of a healthy task with messages waiting, and nothing received.\<close>

lemma run_turn_idle:
  assumes "drain g k ok (cc_queue c) c = (False, c1)" "cc_term c1 = None"
  shows "run_turn g k ok now SvNone c =
    (if cc_next_ping c1 \<le> now then (snd (queue_msg g k ok ping_msg c1))\<lparr>cc_next_ping := now + PING_INTERVAL\<rparr> else c1)"
  using assms by (simp add: run_turn_def)

lemma turn_delivers:
  assumes "gcm_ok g" "length k = 16" "\<forall>m\<in>set ms. pb_inv (om_payload m)" "\<forall>s. ok s"
    "hc_session h = Some s" "ls_remote_input_key s = k"
    and c: "cc_peer c" "cc_handle c" "cc_running c" "cc_term c = None" "cc_queue c = map Msg ms"
  shows "\<exists>pks. cc_sent (client_step g k ok (Turn now SvNone) c) = cc_sent c @ pks
    \<and> host_receives g hp t pks h = fold (msg_effect hp t) ms h"
proof -
  let ?d = "drain g k ok (map Msg ms) c"
  obtain pks where pks: "cc_sent (snd ?d) = cc_sent c @ pks" "host_receives g hp t pks h = fold (msg_effect hp t) ms h"
    using drain_delivers[OF assms(1-3) c(1) assms(4-6)] by blast
  have d: "?d = (False, snd ?d)" using drain_stop[of g k ok ms c] c(2) by (metis prod.collapse)
  have fin: "hc_session (fold (msg_effect hp t) ms h) = Some s"
    using assms(5) by (induction ms arbitrary: h) (simp_all add: msg_effect_def)
  have step: "client_step g k ok (Turn now SvNone) c = (if cc_next_ping (snd ?d) \<le> now
      then (snd (queue_msg g k ok ping_msg (snd ?d)))\<lparr>cc_next_ping := now + PING_INTERVAL\<rparr> else snd ?d)"
    using run_turn_idle[of g k ok c "snd ?d" now] d c by (simp add: client_step_def)
  obtain bs where bs: "cc_sent (snd (queue_msg g k ok ping_msg (snd ?d))) = cc_sent (snd ?d) @ [(bs, om_mode ping_msg)]"
      "\<And>h s hp now. hc_session h = Some s \<Longrightarrow> ls_remote_input_key s = k \<Longrightarrow> handle_packet g hp now bs h = msg_effect hp now ping_msg h"
    using queue_msg_sends[OF assms(1,2) ping_fits, of "snd ?d" ok] assms(4) c(1) by auto
  have "host_receives g hp t (pks @ [(bs, om_mode ping_msg)]) h = fold (msg_effect hp t) ms h"
    using pks(2) bs(2)[OF fin assms(6)] ping_no_effect by (simp add: host_receives_def)
  then show ?thesis unfolding step using bs(1) pks by (cases "cc_next_ping (snd ?d) \<le> now") auto
qed

lemma fold_enqueue:
  "cc_alive c \<Longrightarrow> cc_running c \<Longrightarrow> fold enqueue ms c = c\<lparr>cc_queue := cc_queue c @ map Msg ms\<rparr>"
  by (induction ms arbitrary: c) (simp_all add: enqueue_def)

section \<open>Nonces\<close>

definition iv_inv :: "control_client \<Rightarrow> bool" where
  "iv_inv c \<longleftrightarrow> cc_ivs c = map (\<lambda>n. client_iv (of_nat n)) [0..<length (cc_ivs c)] \<and> cc_seq c = of_nat (length (cc_ivs c))"

lemma iv_inv_queue_msg: "iv_inv c \<Longrightarrow> iv_inv (snd (queue_msg g k ok m c))"
  by (simp add: iv_inv_def add.commute)

lemma iv_inv_same: "iv_inv c \<Longrightarrow> cc_ivs c' = cc_ivs c \<Longrightarrow> cc_seq c' = cc_seq c \<Longrightarrow> iv_inv c'"
  by (simp add: iv_inv_def)

lemma iv_inv_drain: "iv_inv c \<Longrightarrow> iv_inv (snd (drain g k ok q c))"
proof (induction g k ok q c rule: drain.induct)
  case (2 g k ok m q c)
  then show ?case by (simp add: iv_inv_queue_msg)
qed (auto intro: iv_inv_same)

lemma handle_inbound_frame [simp]:
  "cc_ivs (handle_inbound g k d c) = cc_ivs c" "cc_seq (handle_inbound g k d c) = cc_seq c"
  "cc_sent (handle_inbound g k d c) = cc_sent c" "cc_queue (handle_inbound g k d c) = cc_queue c"
  "cc_running (handle_inbound g k d c) = cc_running c"
  by (simp_all add: handle_inbound_def Let_def split: option.split)

lemma iv_inv_run_turn:
  assumes "iv_inv c"
  shows "iv_inv (run_turn g k ok now sv c)"
proof -
  obtain st c1 where d: "drain g k ok (cc_queue c) c = (st, c1)" by (cases "drain g k ok (cc_queue c) c")
  have c1: "iv_inv c1" using iv_inv_drain[OF assms, of g k ok "cc_queue c"] d by simp
  have stop: "iv_inv x \<Longrightarrow> iv_inv (run_stop x)" for x by (erule iv_inv_same) (simp_all add: run_stop_def)
  define c2 where "c2 = (if cc_next_ping c1 \<le> now then (snd (queue_msg g k ok ping_msg c1))\<lparr>cc_next_ping := now + PING_INTERVAL\<rparr>
      else c1)"
  have "iv_inv ((snd (queue_msg g k ok ping_msg c1))\<lparr>cc_next_ping := t\<rparr>)" for t
    by (rule iv_inv_same[OF iv_inv_queue_msg[OF c1]]) simp_all
  then have c2: "iv_inv c2" using c1 by (simp add: c2_def)
  have "iv_inv (handle_inbound g k x c2)" "iv_inv (c2\<lparr>cc_peer := b\<rparr>)" for x b
    by (rule iv_inv_same[OF c2]; simp)+
  then show ?thesis using c1 c2 stop d
    by (cases st; cases sv) (auto simp: run_turn_def Let_def c2_def[symmetric])
qed

lemma iv_inv_step: "iv_inv c \<Longrightarrow> iv_inv (client_step g k ok e c)"
  by (cases e)
    (auto simp: client_step_def enqueue_def shutdown_def Let_def iv_inv_run_turn intro: iv_inv_same split: if_splits)

interpretation ivs: step_invariant "\<lambda>e c. Some (client_step g k ok e c)" iv_inv for g k ok
  by unfold_locales (simp add: iv_inv_step)

lemma iv_inv_connect_wait:
  assumes "connect_wait g k svs c = Inr c'"
  shows "cc_ivs c' = cc_ivs c \<and> cc_seq c' = cc_seq c"
  using assms by (induction g k svs c rule: connect_wait.induct) (auto split: if_splits service_result.splits)

lemma iv_inv_connect:
  assumes "control_connect g k ok flushed now svs = Inr c"
  shows "iv_inv c"
proof -
  obtain c1 where c1: "connect_wait g k svs control_client_new = Inr c1"
    using assms by (auto simp: control_connect_def split: sum.splits)
  have c2: "cc_ivs c = cc_ivs (snd (queue_msg g k ok start_b_msg c1))" "cc_seq c = cc_seq (snd (queue_msg g k ok start_b_msg c1))"
    using assms c1 by (cases "queue_msg g k ok start_b_msg c1"; auto simp: control_connect_def split: bool.splits if_splits)+
  have "iv_inv c1" using iv_inv_connect_wait[OF c1] by (simp add: iv_inv_def control_client_new_def)
  from iv_inv_same[OF iv_inv_queue_msg[OF this] c2] show ?thesis .
qed

lemma u32_to_le_bytes_inj: "u32_to_le_bytes a = u32_to_le_bytes b \<Longrightarrow> a = b"
  unfolding u32_to_le_bytes_def by (metis list.inject u32_le_cancel)

lemma client_iv_inj: "client_iv a = client_iv b \<Longrightarrow> a = b"
  by (simp add: client_iv_def u32_to_le_bytes_inj)

lemma client_host_iv: "client_iv a \<noteq> host_iv b"
  by (simp add: client_iv_def host_iv_def)

section \<open>Properties\<close>

text \<open>Values for the examples: a client right after connecting, and a host whose session has the same key.\<close>

definition sample_key :: bytes where "sample_key = replicate 16 7"

definition sample_client :: control_client where
  "sample_client = control_client_new\<lparr>cc_peer := True, cc_running := True\<rparr>"

definition sample_host :: host_control where
  "sample_host = \<lparr>hc_session = Some (key_session sample_key), hc_triggered = 0, hc_idr_req = False,
     hc_bitrate = bc_default 0, hc_injected = []\<rparr>"

definition sample_report :: frame_fec_status where
  "sample_report = \<lparr>ff_frame_index = 3, ff_highest_received_seq = 9, ff_next_contiguous_seq = 4, ff_missing_before_highest = 2,
     ff_total_data_shards = 8, ff_total_parity_shards = 2, ff_received_data_shards = 3, ff_received_parity_shards = 2,
     ff_fec_percentage = 25, ff_block_index = 0, ff_block_count = 1\<rparr>"

text \<open>
  C3: remote input arrives. Whatever events are sent on a connected channel, the next turn of the client's task hands them
  to ENet, and a host whose session has the same key injects exactly these events, in order, and changes
  nothing else; a ping that goes out in the same turn has no effect.
\<close>

theorem input_delivered:
  assumes "gcm_ok g" "length k = 16" "\<forall>s. ok s" "hc_session h = Some s" "ls_remote_input_key s = k"
    and "cc_alive c" "cc_peer c" "cc_handle c" "cc_running c" "cc_term c = None" "cc_queue c = []"
  shows "\<exists>pks. cc_sent (client_step g k ok (Turn now SvNone) (fold send_input evs c)) = cc_sent c @ pks
    \<and> host_receives g hp t pks h = h\<lparr>hc_injected := hc_injected h @ concat (map event_effect evs)\<rparr>"
proof -
  let ?ms = "map input_msg evs"
  have c: "fold send_input evs c = c\<lparr>cc_queue := map Msg ?ms\<rparr>"
    using fold_enqueue[OF assms(6,9), of ?ms] assms(11) by (simp add: fold_map comp_def send_input_def[abs_def])
  have fits: "\<forall>m\<in>set ?ms. pb_inv (om_payload m)" by (simp add: input_msg_def)
  have "fold (msg_effect hp t) ?ms h = h\<lparr>hc_injected := hc_injected h @ concat (map event_effect evs)\<rparr>"
    by (induction evs arbitrary: h) (simp_all add: msg_effect_def input_msg_def control_dispatch_def msg_defs inject_encode)
  then show ?thesis
    using turn_delivers[where ok = ok and c = "fold send_input evs c", OF assms(1,2) fits assms(3-5), of now hp t] assms by (simp add: c)
qed

theorem input_delivered_witness:
  "\<exists>pks. cc_sent (client_step mask_gcm sample_key (\<lambda>_. True) (Turn 0 SvNone)
        (fold send_input [Key 0x41 True 0, Key 0x41 False 0] sample_client)) = cc_sent sample_client @ pks
    \<and> hc_injected (host_receives mask_gcm (\<lambda>_. 1) 0 pks sample_host) = [InputKey 0x41 [], InputKey 0x41 [KEYEVENTF_KEYUP]]"
proof -
  have "\<exists>pks. cc_sent (client_step mask_gcm sample_key (\<lambda>_. True) (Turn 0 SvNone)
        (fold send_input [Key 0x41 True 0, Key 0x41 False 0] sample_client)) = cc_sent sample_client @ pks
    \<and> host_receives mask_gcm (\<lambda>_. 1) 0 pks sample_host = sample_host
        \<lparr>hc_injected := hc_injected sample_host @ concat (map event_effect [Key 0x41 True 0, Key 0x41 False 0])\<rparr>"
    by (rule input_delivered[where s = "key_session sample_key", OF mask_gcm_ok])
      (simp_all add: sample_key_def sample_host_def sample_client_def control_client_new_def key_session_def)
  then show ?thesis by (auto simp: sample_host_def event_effect_def key_def is_extended_def)
qed



text \<open>
  C39: the host does not insist on encryption, nor on fresh sequence numbers. Without any session, an
  unencrypted input message is injected as it is; and an encrypted message that is received again takes effect again.
\<close>

theorem control_not_authenticated:
  "handle_packet g hp now (u16_to_le_bytes MSG_INPUT_DATA @ u16_to_le_bytes n @ p) h
     = h\<lparr>hc_injected := hc_injected h @ inject p\<rparr>
   \<and> (\<forall>m s. gcm_ok g \<and> hc_session h = Some s \<and> length (ls_remote_input_key s) = 16
        \<and> encode_encrypted g (ls_remote_input_key s) sq MSG_INPUT_DATA (as_slice (encode_input ev)) = Some m \<longrightarrow>
        hc_injected (handle_packet g hp now2 m (handle_packet g hp now m h)) = hc_injected h @ event_effect ev @ event_effect ev)"
proof -
  have "handle_packet g hp now (u16_to_le_bytes MSG_INPUT_DATA @ u16_to_le_bytes n @ p) h
      = h\<lparr>hc_injected := hc_injected h @ inject p\<rparr>"
    unfolding handle_packet_def parse_framed by (simp add: control_dispatch_def msg_defs)
  moreover have "handle_packet g hp t m h' = h'\<lparr>hc_injected := hc_injected h' @ event_effect ev\<rparr>"
    if "gcm_ok g" "hc_session h' = Some s" "length (ls_remote_input_key s) = 16"
      "encode_encrypted g (ls_remote_input_key s) sq MSG_INPUT_DATA (as_slice (encode_input ev)) = Some m" for m s h' t
    using handle_sealed[OF that(1,2) refl that(3) payload_fits[OF pb_inv_encode] that(4)]
    by (simp add: control_dispatch_def msg_defs inject_encode)
  ultimately show ?thesis by auto
qed

theorem control_not_authenticated_witness:
  "hc_injected (handle_packet mask_gcm (\<lambda>_. 1) 0
      (u16_to_le_bytes MSG_INPUT_DATA @ u16_to_le_bytes 14 @ as_slice (encode_input (Key 0x5B True 0)))
      (sample_host\<lparr>hc_session := None\<rparr>)) = [InputKey 0x5B [KEYEVENTF_EXTENDEDKEY]]"
proof -
  have "inject (as_slice (encode_input (Key 0x5B True 0))) = [InputKey 0x5B [KEYEVENTF_EXTENDEDKEY]]"
    unfolding inject_encode by (simp add: event_effect_def key_def is_extended_def)
  then show ?thesis
    using control_not_authenticated[of mask_gcm "\<lambda>_. 1" 0 14 "as_slice (encode_input (Key 0x5B True 0))"
        "sample_host\<lparr>hc_session := None\<rparr>"] by (simp add: sample_host_def)
qed

text \<open>
  C31: loss reports drive the host's bitrate. A report sent by the client makes the host lower its target as
  \<open>on_loss\<close> does for the reported fraction of missing shards; a report about an empty frame changes nothing.
\<close>

theorem loss_report_reaches_controller:
  assumes "gcm_ok g" "length k = 16" "\<forall>s. ok s" "hc_session h = Some s" "ls_remote_input_key s = k"
    and "cc_alive c" "cc_peer c" "cc_handle c" "cc_running c" "cc_term c = None" "cc_queue c = []"
  shows "\<exists>pks. cc_sent (client_step g k ok (Turn now SvNone) (send_fec_status st c)) = cc_sent c @ pks
    \<and> host_receives g hp t pks h = (case loss_fraction st of
         Some lf \<Rightarrow> h\<lparr>hc_bitrate := on_loss hp t lf (hc_bitrate h)\<rparr> | None \<Rightarrow> h)"
proof -
  have c: "send_fec_status st c = c\<lparr>cc_queue := map Msg [fec_msg st]\<rparr>"
    using assms(6,9,11) by (simp add: send_fec_status_def enqueue_def)
  have len: "length (fec_status_to_bytes st) = 21" using fec_status.enc_length[of st] by simp
  have fits: "\<forall>m\<in>set [fec_msg st]. pb_inv (om_payload m)" by (simp add: fec_msg_def fec_status_payload_def)
  have sl: "as_slice (om_payload (fec_msg st)) = fec_status_to_bytes st"
    using len by (simp add: fec_msg_def fec_status_payload_def)
  have "fold (msg_effect hp t) [fec_msg st] h = (case loss_fraction st of
         Some lf \<Rightarrow> h\<lparr>hc_bitrate := on_loss hp t lf (hc_bitrate h)\<rparr> | None \<Rightarrow> h)"
    using fec_status.dec_enc_exact[of st] unfolding fold_simps msg_effect_def sl
    by (simp add: control_dispatch_def fec_msg_def msg_defs)
  then show ?thesis
    using turn_delivers[where ok = ok and c = "send_fec_status st c", OF assms(1,2) fits assms(3-5), of now hp t] assms
    by (simp add: c)
qed

theorem loss_report_reaches_controller_witness:
  "\<exists>pks. cc_sent (client_step mask_gcm sample_key (\<lambda>_. True) (Turn 0 SvNone) (send_fec_status sample_report sample_client))
      = cc_sent sample_client @ pks
    \<and> host_receives mask_gcm (\<lambda>_. 1) 0 pks sample_host = sample_host\<lparr>hc_bitrate := on_loss (\<lambda>_. 1) 0 (1 / 2) (hc_bitrate sample_host)\<rparr>"
proof -
  have "\<exists>pks. cc_sent (client_step mask_gcm sample_key (\<lambda>_. True) (Turn 0 SvNone) (send_fec_status sample_report sample_client))
      = cc_sent sample_client @ pks
    \<and> host_receives mask_gcm (\<lambda>_. 1) 0 pks sample_host = (case loss_fraction sample_report of
         Some lf \<Rightarrow> sample_host\<lparr>hc_bitrate := on_loss (\<lambda>_. 1) 0 lf (hc_bitrate sample_host)\<rparr> | None \<Rightarrow> sample_host)"
    by (rule loss_report_reaches_controller[where s = "key_session sample_key", OF mask_gcm_ok])
      (simp_all add: sample_key_def sample_host_def sample_client_def control_client_new_def key_session_def)
  moreover have "loss_fraction sample_report = Some (1 / 2)" by code_simp
  ultimately show ?thesis by simp
qed

lemma client_dead:
  assumes "\<not> cc_running c" "\<not> cc_alive c"
  shows "\<not> cc_running (client_step g k ok e c) \<and> \<not> cc_alive (client_step g k ok e c)
    \<and> cc_sent (client_step g k ok e c) = cc_sent c \<and> cc_term (client_step g k ok e c) = cc_term c"
  using assms by (cases e) (simp_all add: client_step_def enqueue_def shutdown_def Let_def)

lemma client_dead_run:
  assumes "\<not> cc_running c" "\<not> cc_alive c"
  shows "cc_sent (fold (client_step g k ok) es c) = cc_sent c \<and> cc_term (fold (client_step g k ok) es c) = cc_term c
    \<and> \<not> cc_running (fold (client_step g k ok) es c)"
  using assms
proof (induction es arbitrary: c)
  case (Cons e es)
  from Cons.IH[of "client_step g k ok e c"] client_dead[OF Cons.prems, of g k ok e] show ?case by simp
qed simp

text \<open>
  C37: the host can end the session. When a termination message of the host arrives while the task runs, the task stops in
  that turn, the handle reports the host's code, and whatever is called later, nothing more is ever sent.
\<close>

theorem host_termination_stops_client:
  assumes "gcm_ok g" "length k = 16" "host_seal g k sq MSG_TERMINATION_EXT (u32_to_be_bytes code) = Some m"
    and "cc_running c" "cc_handle c" "cc_queue c = map Msg ms"
    and "c' = client_step g k ok (Turn now (SvReceive m)) c"
  shows "\<not> cc_running c' \<and> termination_code c' = Some (sint code)
    \<and> cc_sent (fold (client_step g k ok) es c') = cc_sent c'
    \<and> termination_code (fold (client_step g k ok) es c') = Some (sint code)"
proof -
  have "length (u32_to_be_bytes code) + 24 < 2 ^ 16" by simp
  from h2c.unseal_seal[OF assms(1,2) this assms(3)]
  have u: "client_unseal g k m = Some (MSG_TERMINATION_EXT, u32_to_be_bytes code)"
    "client_parse_header m = Some (MSG_ENCRYPTED, drop 4 m)" by (simp_all add: client_parse_header_eq)
  then have inb: "handle_inbound g k m x = x\<lparr>cc_term := Some (sint code), cc_alive := False\<rparr>" for x
    unfolding handle_inbound_def client_unseal_def by (simp add: u32_to_be_bytes_def)
  let ?d = "drain g k ok (map Msg ms) c"
  have d: "drain g k ok (cc_queue c) c = (False, snd ?d)"
    using drain_stop[of g k ok ms c] assms(5,6) by (metis prod.collapse)
  have c': "\<not> cc_running c'" "\<not> cc_alive c'" "cc_term c' = Some (sint code)"
    using assms(4,7) d by (simp_all add: client_step_def run_turn_def inb run_stop_def)
  then show ?thesis using client_dead_run[OF c'(1,2), of g k ok es] by (simp add: termination_code_def)
qed

theorem host_termination_stops_client_witness:
  "\<exists>m. host_seal mask_gcm sample_key 0 MSG_TERMINATION_EXT (u32_to_be_bytes 5) = Some m
     \<and> \<not> cc_running (client_step mask_gcm sample_key (\<lambda>_. True) (Turn 0 (SvReceive m)) sample_client)
     \<and> termination_code (client_step mask_gcm sample_key (\<lambda>_. True) (Turn 0 (SvReceive m)) sample_client) = Some 5"
proof -
  have k: "length sample_key = 16" by (simp add: sample_key_def)
  obtain m where m: "host_seal mask_gcm sample_key 0 MSG_TERMINATION_EXT (u32_to_be_bytes 5) = Some m"
    using h2c.seal_total[OF mask_gcm_ok k, of "u32_to_be_bytes 5"] by auto
  have "cc_running sample_client" "cc_handle sample_client" "cc_queue sample_client = map Msg []"
    by (simp_all add: sample_client_def control_client_new_def)
  from host_termination_stops_client[OF mask_gcm_ok k m this refl] m show ?thesis by auto
qed

text \<open>One controller at a time: the connected peer is the only one.\<close>

definition one_peer :: "control_host \<Rightarrow> bool" where
  "one_peer c \<longleftrightarrow> ch_peers c = set_option (ch_connected c)"

lemma one_peer_step: "one_peer c \<Longrightarrow> one_peer (control_service g hp e c)"
  by (cases e; cases "snd e") (auto simp: one_peer_def control_service_def Let_def split: if_splits)

interpretation peers: step_invariant "\<lambda>e c. Some (control_service g hp e c)" one_peer for g hp
  by unfold_locales (simp add: one_peer_step)

text \<open>
  At most one administrator controls the host. After any sequence of ENet events at most one peer is connected, and
  it is the one that connected last; the peer slots of earlier connections are free again.
\<close>

theorem single_controller:
  assumes "ch_peers c = {}" "ch_connected c = None" "c' = fold (control_service g hp) es c"
  shows "ch_peers c' = set_option (ch_connected c') \<and> card (ch_peers c') \<le> 1
    \<and> ch_peers (control_service g hp (now, EvConnect p) c') = {p}"
proof -
  have "one_peer c" using assms(1,2) by (simp add: one_peer_def)
  then have c': "one_peer c'" using peers.run_inv[of c g hp es] assms(3) by (simp add: run_steps_total)
  moreover have "ch_peers (control_service g hp (now, EvConnect p) c') = {p}"
    by (auto simp: control_service_def Let_def)
  ultimately show ?thesis by (cases "ch_connected c'") (simp_all add: one_peer_def)
qed

theorem single_controller_witness:
  "ch_peers (fold (control_service mask_gcm (\<lambda>_. 1)) [(0, EvConnect 1), (1, EvConnect 2)]
      \<lparr>ch_peers = {}, ch_connected = None, ch_state = sample_host\<rparr>) = {2}"
  using single_controller[of "\<lparr>ch_peers = {}, ch_connected = None, ch_state = sample_host\<rparr>" _ mask_gcm "\<lambda>_. 1"
      "[(0, EvConnect 1)]" 1 2, OF _ _ refl] by simp

end
