(* ===== verification/Kmc_Keyhook.thy ===== *)
theory Kmc_Keyhook
  imports Complex_Main Kmc_Strings Kmc_Input
begin

text \<open>
  The keyboard and mouse hook of the administrator's machine: the sidecar \<^verbatim>\<open>kmc-keyhook\<close> decides for
  every key and button whether it belongs to the remote host, prints what it captured as text lines, and the admin process
  (\<^verbatim>\<open>kmc-admin/src-tauri/src/keyhook.rs\<close>) parses the lines into input events.
\<close>

section \<open>The sidecar\<close>

record keyhook =
  kh_streaming :: bool
  kh_focused :: bool
  kh_hovering :: bool
  kh_rect_set :: bool
  kh_rect :: "int \<times> int \<times> int \<times> int"
  kh_key_remote :: "nat set"
  kh_btn_remote :: "nat set"
  kh_out :: "string list"

definition keyhook_init :: keyhook where
  "keyhook_init = \<lparr>kh_streaming = False, kh_focused = False, kh_hovering = False, kh_rect_set = False, kh_rect = (0, 0, 0, 0),
     kh_key_remote = {}, kh_btn_remote = {}, kh_out = []\<rparr>"

definition active :: "keyhook \<Rightarrow> bool" where
  "active s \<longleftrightarrow> kh_streaming s \<and> kh_focused s \<and> kh_hovering s"

definition emit :: "string \<Rightarrow> keyhook \<Rightarrow> keyhook" where
  "emit line s = s\<lparr>kh_out := kh_out s @ [line]\<rparr>"

text \<open>\<^verbatim>\<open>format!("k {vk} 0")\<close> and the like.\<close>

definition k_line :: "nat \<Rightarrow> nat \<Rightarrow> string" where "k_line vk down = unwords [''k'', show_nat vk, show_nat down]"
definition mb_line :: "nat \<Rightarrow> nat \<Rightarrow> string" where "mb_line b down = unwords [''mb'', show_nat b, show_nat down]"
definition mm_line :: "int \<times> int \<times> int \<times> int \<Rightarrow> string" where
  "mm_line p = (case p of (x, y, w, h) \<Rightarrow> unwords [''mm'', show_int x, show_int y, show_int w, show_int h])"
definition ms_line :: "int \<Rightarrow> string" where "ms_line d = unwords [''ms'', show_int d]"
definition h_line :: "bool \<Rightarrow> string" where "h_line on = unwords [''h'', show_nat (if on then 1 else 0)]"

definition release_all_remote :: "keyhook \<Rightarrow> keyhook" where
  "release_all_remote s =
     (let s1 = fold (\<lambda>vk s. if vk \<in> kh_key_remote s then emit (k_line vk 0) (s\<lparr>kh_key_remote := kh_key_remote s - {vk}\<rparr>) else s) [0..<256] s
      in fold (\<lambda>b s. if b \<in> kh_btn_remote s then emit (mb_line b 0) (s\<lparr>kh_btn_remote := kh_btn_remote s - {b}\<rparr>) else s) [1..<6] s1)"

text \<open>
  Subtractions wrap in \<^verbatim>\<open>i32\<close>. (\<^verbatim>\<open>clamp\<close> panics for an upper bound below 0, which takes a rectangle wider than \<^verbatim>\<open>i32::MAX\<close>.)
\<close>

definition update_hover :: "int \<Rightarrow> int \<Rightarrow> keyhook \<Rightarrow> (int \<times> int \<times> int \<times> int) option \<times> keyhook" where
  "update_hover px py s =
     (if \<not> kh_rect_set s then
        (None, if kh_hovering s then emit (h_line False) (s\<lparr>kh_hovering := False\<rparr>) else s)
      else
        (case kh_rect s of (l, t, r, b) \<Rightarrow>
          let inside = (l \<le> px \<and> px < r \<and> t \<le> py \<and> py < b);
              s1 = s\<lparr>kh_hovering := inside\<rparr>;
              s2 = (if inside \<noteq> kh_hovering s then emit (h_line inside) s1 else s1)
          in if \<not> inside \<or> r \<le> l \<or> b \<le> t then (None, s2)
             else
               let w = as_i32 (r - l); h = as_i32 (b - t);
                   x = max 0 (min (w - 1) (as_i32 (px - l)));
                   y = max 0 (min (h - 1) (as_i32 (py - t)))
               in (Some (x, y, w, h), s2)))"

datatype kbd_msg = WM_KEYDOWN | WM_SYSKEYDOWN | WM_KEYUP | WM_SYSKEYUP | WM_KBD_OTHER

text \<open>The hooks return whether the event is kept from the local system. \<open>action\<close> is \<^verbatim>\<open>code == HC_ACTION\<close>.\<close>

definition kbd_proc :: "bool \<Rightarrow> kbd_msg \<Rightarrow> nat \<Rightarrow> keyhook \<Rightarrow> bool \<times> keyhook" where
  "kbd_proc action m vkCode s =
     (let down = (m = WM_KEYDOWN \<or> m = WM_SYSKEYDOWN);
          up = (m = WM_KEYUP \<or> m = WM_SYSKEYUP);
          vk = vkCode mod 256
      in if \<not> action \<or> \<not> (down \<or> up) then (False, s)
         else if down then
           (if active s then (True, emit (k_line vkCode 1) (s\<lparr>kh_key_remote := insert vk (kh_key_remote s)\<rparr>))
            else (False, s))
         else if vk \<in> kh_key_remote s then
           (True, emit (k_line vkCode 0) (s\<lparr>kh_key_remote := kh_key_remote s - {vk}\<rparr>))
         else (False, s))"

datatype mouse_msg =
    WM_LBUTTONDOWN | WM_LBUTTONUP | WM_RBUTTONDOWN | WM_RBUTTONUP | WM_MBUTTONDOWN | WM_MBUTTONUP
  | WM_XBUTTONDOWN | WM_XBUTTONUP | WM_MOUSEMOVE | WM_MOUSEWHEEL | WM_MOUSEHWHEEL | WM_MOUSE_OTHER

definition hiword :: "u32 \<Rightarrow> u16" where
  "hiword d = ucast (drop_bit 16 d)"

definition mouse_btn :: "mouse_msg \<Rightarrow> u32 \<Rightarrow> (nat \<times> bool) option" where
  "mouse_btn m mouseData =
     (let xb = (if hiword mouseData = 1 then 4 else 5)
      in case m of
           WM_LBUTTONDOWN \<Rightarrow> Some (1, True) | WM_LBUTTONUP \<Rightarrow> Some (1, False)
         | WM_RBUTTONDOWN \<Rightarrow> Some (3, True) | WM_RBUTTONUP \<Rightarrow> Some (3, False)
         | WM_MBUTTONDOWN \<Rightarrow> Some (2, True) | WM_MBUTTONUP \<Rightarrow> Some (2, False)
         | WM_XBUTTONDOWN \<Rightarrow> Some (xb, True) | WM_XBUTTONUP \<Rightarrow> Some (xb, False)
         | _ \<Rightarrow> None)"

definition mouse_proc :: "bool \<Rightarrow> mouse_msg \<Rightarrow> int \<Rightarrow> int \<Rightarrow> u32 \<Rightarrow> keyhook \<Rightarrow> keyhook" where
  "mouse_proc action m px py mouseData s =
     (if \<not> action then s
      else case update_hover px py s of (mapped, s1) \<Rightarrow>
        (case mouse_btn m mouseData of
           Some (b, pressed) \<Rightarrow>
             if pressed then
               (if active s1 then emit (mb_line b 1) (s1\<lparr>kh_btn_remote := insert b (kh_btn_remote s1)\<rparr>) else s1)
             else if b \<in> kh_btn_remote s1 then emit (mb_line b 0) (s1\<lparr>kh_btn_remote := kh_btn_remote s1 - {b}\<rparr>)
             else s1
         | None \<Rightarrow>
             if active s1 then
               (case m of
                  WM_MOUSEMOVE \<Rightarrow> (case mapped of Some p \<Rightarrow> emit (mm_line p) s1 | None \<Rightarrow> s1)
                | WM_MOUSEWHEEL \<Rightarrow> emit (ms_line (sint (hiword mouseData))) s1
                | _ \<Rightarrow> s1)
             else s1))"

definition stdin_line :: "string \<Rightarrow> keyhook \<Rightarrow> keyhook" where
  "stdin_line raw s =
     (let line = trim raw
      in if line = ''s1'' then s\<lparr>kh_streaming := True\<rparr>
         else if line = ''s0'' then release_all_remote (s\<lparr>kh_streaming := False\<rparr>)
         else if line = ''f1'' then s\<lparr>kh_focused := True\<rparr>
         else if line = ''f0'' then s\<lparr>kh_focused := False\<rparr>
         else case strip_prefix ''r '' line of
           None \<Rightarrow> s
         | Some rest \<Rightarrow>
             (case List.map_filter parse_i32 (split_ws rest) of
                [l, t, r, b] \<Rightarrow> s\<lparr>kh_rect := (l, t, r, b), kh_rect_set := (l < r \<and> t < b)\<rparr>
              | _ \<Rightarrow> s))"

datatype kh_event = Kbd bool kbd_msg nat | Mouse bool mouse_msg int int u32 | Stdin string

definition kh_step :: "kh_event \<Rightarrow> keyhook \<Rightarrow> keyhook" where
  "kh_step e s =
     (case e of
        Kbd a m vk \<Rightarrow> snd (kbd_proc a m vk s)
      | Mouse a m px py d \<Rightarrow> mouse_proc a m px py d s
      | Stdin line \<Rightarrow> stdin_line line s)"

section \<open>The admin process\<close>

text \<open>The input events a line causes; a hover line only updates the user interface.\<close>

definition handle_line :: "string \<Rightarrow> input_event list" where
  "handle_line line =
     (case split_ws line of
        [] \<Rightarrow> []
      | w # it \<Rightarrow>
          if w = ''k'' then
            (case it of
               vk # d # _ \<Rightarrow>
                 (case (parse_i32 vk, parse_u8 d) of
                    (Some vk, Some d) \<Rightarrow> [Key (word_of_int vk) (d = 1) 0]
                  | _ \<Rightarrow> [])
             | _ \<Rightarrow> [])
          else if w = ''mm'' then
            (case List.map_filter parse_i32 it of
               [x, y, w, h] \<Rightarrow> [MousePosition (word_of_int x) (word_of_int y) (word_of_int w) (word_of_int h)]
             | _ \<Rightarrow> [])
          else if w = ''mb'' then
            (case it of
               b # d # _ \<Rightarrow>
                 (case (parse_u8 b, parse_u8 d) of
                    (Some b, Some d) \<Rightarrow> [MouseButton (of_nat b) (d = 1)]
                  | _ \<Rightarrow> [])
             | _ \<Rightarrow> [])
          else if w = ''ms'' then
            (case it of
               a # _ \<Rightarrow> (case parse_i16 a of Some a \<Rightarrow> [Scroll (word_of_int a)] | None \<Rightarrow> [])
             | _ \<Rightarrow> [])
          else [])"

section \<open>What the remote host sees\<close>

text \<open>The keys and buttons that are down on the remote host after a list of lines.\<close>

fun apply_event :: "input_event \<Rightarrow> u16 set \<times> u8 set \<Rightarrow> u16 set \<times> u8 set" where
  "apply_event (Key k d m) (ks, bs) = ((if d then insert k ks else ks - {k}), bs)"
| "apply_event (MouseButton b d) (ks, bs) = (ks, (if d then insert b bs else bs - {b}))"
| "apply_event _ st = st"

definition remote_held :: "string list \<Rightarrow> u16 set \<times> u8 set" where
  "remote_held out = fold apply_event (concat (map handle_line out)) ({}, {})"

lemma remote_held_Nil [simp]: "remote_held [] = ({}, {})"
  by (simp add: remote_held_def)

lemma remote_held_snoc: "remote_held (out @ [l]) = fold apply_event (handle_line l) (remote_held out)"
  by (simp add: remote_held_def)

lemma words_ok:
  "show_nat n \<noteq> [] \<and> (\<forall>c\<in>set (show_nat n). \<not> is_space c)" "show_int i \<noteq> [] \<and> (\<forall>c\<in>set (show_int i). \<not> is_space c)"
  using show_nat_no_space show_int_no_space by simp_all

lemma keyword_ok: "\<forall>w\<in>set [''k'', ''mm'', ''mb'', ''ms'', ''h'']. w \<noteq> [] \<and> (\<forall>c\<in>set w. \<not> is_space c)"
  by (simp add: is_space_def)

lemma split_lines:
  "split_ws (k_line vk d) = [''k'', show_nat vk, show_nat d]"
  "split_ws (mb_line b d) = [''mb'', show_nat b, show_nat d]"
  "split_ws (mm_line (x, y, w, h)) = [''mm'', show_int x, show_int y, show_int w, show_int h]"
  "split_ws (ms_line i) = [''ms'', show_int i]"
  "split_ws (h_line on) = [''h'', show_nat (if on then 1 else 0)]"
  unfolding k_line_def mb_line_def mm_line_def ms_line_def h_line_def prod.case
  using keyword_ok words_ok by (intro split_unwords; simp)+

lemma parse_int_show_nat: "parse_int lo hi (show_nat n) = (if lo \<le> int n \<and> int n \<le> hi then Some (int n) else None)"
  using parse_int_show[of lo hi "int n"] by (simp add: show_int_def)

lemma handle_lines [simp]:
  "vk < 2 ^ 31 \<Longrightarrow> d \<le> 255 \<Longrightarrow> handle_line (k_line vk d) = [Key (of_nat vk) (d = 1) 0]"
  "b \<le> 255 \<Longrightarrow> d \<le> 255 \<Longrightarrow> handle_line (mb_line b d) = [MouseButton (of_nat b) (d = 1)]"
  "handle_line (h_line on) = []"
  "fold apply_event (handle_line (ms_line i)) st = st"
  by (simp_all add: handle_line_def split_lines parse_int_show_nat split: option.split)

lemma handle_mm_held [simp]: "fold apply_event (handle_line (mm_line p)) st = st"
  by (cases p) (simp add: handle_line_def split_lines split: list.split)

text \<open>Inside the rectangle the pointer position is passed on as it is.\<close>

lemma handle_mm:
  "\<forall>i\<in>{x, y, w, h}. - (2 ^ 31) \<le> i \<and> i \<le> 2 ^ 31 - 1 \<Longrightarrow> handle_line (mm_line (x, y, w, h))
   = [MousePosition (word_of_int x) (word_of_int y) (word_of_int w) (word_of_int h)]"
  by (simp add: handle_line_def split_lines List.map_filter_def)

section \<open>Ownership of keys and buttons\<close>

definition kh_inv :: "keyhook \<Rightarrow> bool" where
  "kh_inv s \<longleftrightarrow> kh_key_remote s \<subseteq> {..<256} \<and> kh_btn_remote s \<subseteq> {1..<6}
     \<and> remote_held (kh_out s) = (of_nat ` kh_key_remote s, of_nat ` kh_btn_remote s)"

lemma of_nat_inj_small: "inj_on (of_nat :: nat \<Rightarrow> u16) {..<256}" "inj_on (of_nat :: nat \<Rightarrow> u8) {..<256}"
  by (rule inj_onI, drule arg_cong[of _ _ unat], simp add: unat_of_nat take_bit_nat_eq_self)+

lemma image_remove_key: "S \<subseteq> {..<256} \<Longrightarrow> v < 256 \<Longrightarrow> (of_nat :: nat \<Rightarrow> u16) ` (S - {v}) = of_nat ` S - {of_nat v}"
  by (subst inj_on_image_set_diff[OF of_nat_inj_small(1)]) auto

lemma image_remove_btn: "S \<subseteq> {1..<6} \<Longrightarrow> v < 6 \<Longrightarrow> (of_nat :: nat \<Rightarrow> u8) ` (S - {v}) = of_nat ` S - {of_nat v}"
  by (subst inj_on_image_set_diff[OF of_nat_inj_small(2)]) auto

lemma kh_inv_upd [simp]:
  "kh_inv (s\<lparr>kh_streaming := x\<rparr>) = kh_inv s" "kh_inv (s\<lparr>kh_focused := x\<rparr>) = kh_inv s"
  "kh_inv (s\<lparr>kh_hovering := x\<rparr>) = kh_inv s" "kh_inv (s\<lparr>kh_rect_set := x\<rparr>) = kh_inv s" "kh_inv (s\<lparr>kh_rect := q\<rparr>) = kh_inv s"
  by (simp_all add: kh_inv_def)

lemma kh_inv_emit: "kh_inv s \<Longrightarrow> fold apply_event (handle_line l) (remote_held (kh_out s)) = remote_held (kh_out s) \<Longrightarrow> kh_inv (emit l s)"
  by (simp add: kh_inv_def emit_def remote_held_snoc)

lemma kh_inv_key_down: "kh_inv s \<Longrightarrow> vk < 256 \<Longrightarrow> kh_inv (emit (k_line vk 1) (s\<lparr>kh_key_remote := insert vk (kh_key_remote s)\<rparr>))"
  by (simp add: kh_inv_def emit_def remote_held_snoc)

lemma kh_inv_key_up: "kh_inv s \<Longrightarrow> vk < 256 \<Longrightarrow> kh_inv (emit (k_line vk 0) (s\<lparr>kh_key_remote := kh_key_remote s - {vk}\<rparr>))"
  by (auto simp: kh_inv_def emit_def remote_held_snoc image_remove_key)

lemma kh_inv_btn_down: "kh_inv s \<Longrightarrow> b \<in> {1..<6} \<Longrightarrow> kh_inv (emit (mb_line b 1) (s\<lparr>kh_btn_remote := insert b (kh_btn_remote s)\<rparr>))"
  by (simp add: kh_inv_def emit_def remote_held_snoc)

lemma kh_inv_btn_up: "kh_inv s \<Longrightarrow> b \<in> {1..<6} \<Longrightarrow> kh_inv (emit (mb_line b 0) (s\<lparr>kh_btn_remote := kh_btn_remote s - {b}\<rparr>))"
  by (auto simp: kh_inv_def emit_def remote_held_snoc image_remove_btn)

lemma mouse_btn_range: "mouse_btn m d = Some (b, p) \<Longrightarrow> b \<in> {1..<6}"
  by (auto simp: mouse_btn_def Let_def split: mouse_msg.splits if_splits)

lemma kh_inv_hover: "kh_inv s \<Longrightarrow> kh_inv (snd (update_hover px py s))"
  by (auto simp: update_hover_def Let_def split: prod.split intro!: kh_inv_emit)

lemma kh_inv_mouse:
  assumes "kh_inv s"
  shows "kh_inv (mouse_proc a m px py d s)"
proof -
  obtain mp s1 where h: "update_hover px py s = (mp, s1)" by (cases "update_hover px py s")
  have s1: "kh_inv s1" using kh_inv_hover[OF assms, of px py] h by simp
  show ?thesis
  proof (cases "mouse_btn m d")
    case None
    then show ?thesis using assms s1 h
      by (auto simp: mouse_proc_def split: mouse_msg.split option.split intro!: kh_inv_emit)
  next
    case (Some x)
    obtain b p where x: "x = (b, p)" by (cases x)
    then show ?thesis using Some assms s1 h kh_inv_btn_down kh_inv_btn_up mouse_btn_range[of m d b p]
      by (simp add: mouse_proc_def)
  qed
qed

lemma release_keys:
  assumes "kh_inv s" "\<forall>v\<in>set vs. v < 256"
  shows "let s' = fold (\<lambda>vk s. if vk \<in> kh_key_remote s then emit (k_line vk 0) (s\<lparr>kh_key_remote := kh_key_remote s - {vk}\<rparr>) else s) vs s
    in kh_inv s' \<and> kh_key_remote s' = kh_key_remote s - set vs \<and> kh_btn_remote s' = kh_btn_remote s"
  using assms
proof (induction vs arbitrary: s)
  case (Cons v vs)
  show ?case
  proof (cases "v \<in> kh_key_remote s")
    case True
    let ?s = "emit (k_line v 0) (s\<lparr>kh_key_remote := kh_key_remote s - {v}\<rparr>)"
    have "kh_inv ?s" using kh_inv_key_up Cons.prems by simp
    from Cons.IH[OF this] Cons.prems True show ?thesis by (auto simp: Let_def emit_def)
  next
    case False
    then show ?thesis using Cons.IH[OF Cons.prems(1)] Cons.prems by (auto simp: Let_def)
  qed
qed simp

lemma release_btns:
  assumes "kh_inv s" "\<forall>v\<in>set vs. v \<in> {1..<6}"
  shows "let s' = fold (\<lambda>b s. if b \<in> kh_btn_remote s then emit (mb_line b 0) (s\<lparr>kh_btn_remote := kh_btn_remote s - {b}\<rparr>) else s) vs s
    in kh_inv s' \<and> kh_btn_remote s' = kh_btn_remote s - set vs \<and> kh_key_remote s' = kh_key_remote s"
  using assms
proof (induction vs arbitrary: s)
  case (Cons v vs)
  show ?case
  proof (cases "v \<in> kh_btn_remote s")
    case True
    let ?s = "emit (mb_line v 0) (s\<lparr>kh_btn_remote := kh_btn_remote s - {v}\<rparr>)"
    have "kh_inv ?s" using kh_inv_btn_up Cons.prems by simp
    from Cons.IH[OF this] Cons.prems True show ?thesis by (auto simp: Let_def emit_def)
  next
    case False
    then show ?thesis using Cons.IH[OF Cons.prems(1)] Cons.prems by (auto simp: Let_def)
  qed
qed simp

lemma release_all:
  assumes "kh_inv s"
  shows "kh_inv (release_all_remote s) \<and> kh_key_remote (release_all_remote s) = {} \<and> kh_btn_remote (release_all_remote s) = {}"
proof -
  let ?s1 = "fold (\<lambda>vk s. if vk \<in> kh_key_remote s then emit (k_line vk 0) (s\<lparr>kh_key_remote := kh_key_remote s - {vk}\<rparr>) else s) [0..<256] s"
  have k: "kh_inv ?s1" "kh_key_remote ?s1 = kh_key_remote s - {0..<256}" "kh_btn_remote ?s1 = kh_btn_remote s"
    using release_keys[OF assms, of "[0..<256]"] unfolding Let_def by auto
  have b: "kh_inv (release_all_remote s)" "kh_btn_remote (release_all_remote s) = kh_btn_remote ?s1 - {1..<6}"
      "kh_key_remote (release_all_remote s) = kh_key_remote ?s1"
    using release_btns[OF k(1), of "[1..<6]"] unfolding release_all_remote_def Let_def by auto
  have "kh_key_remote s \<subseteq> {0..<256}" "kh_btn_remote s \<subseteq> {1..<6}" using assms by (auto simp: kh_inv_def)
  then show ?thesis using b k by simp
qed

text \<open>The virtual key codes of Windows are below 256.\<close>

fun vk_ok :: "kh_event \<Rightarrow> bool" where
  "vk_ok (Kbd a m vk) = (vk < 256)"
| "vk_ok _ = True"

lemma kh_inv_step:
  assumes "kh_inv s" "vk_ok e"
  shows "kh_inv (kh_step e s)"
proof (cases e)
  case (Kbd a m vk)
  then show ?thesis using assms kh_inv_key_down kh_inv_key_up by (simp add: kh_step_def kbd_proc_def Let_def)
next
  case (Mouse a m px py d)
  then show ?thesis using assms kh_inv_mouse by (simp add: kh_step_def)
next
  case (Stdin l)
  have "kh_inv (release_all_remote (s\<lparr>kh_streaming := False\<rparr>))"
    using release_all[of "s\<lparr>kh_streaming := False\<rparr>"] assms(1) by simp
  then show ?thesis using Stdin assms(1) by (simp add: kh_step_def stdin_line_def Let_def split: option.split list.split)
qed

interpretation kh: step_invariant "\<lambda>e s. if vk_ok e then Some (kh_step e s) else Some s" kh_inv
  by unfold_locales (simp add: kh_inv_step)

lemma kh_run_inv:
  assumes "\<forall>e\<in>set es. vk_ok e"
  shows "kh_inv (fold kh_step es keyhook_init)"
proof -
  have "kh_inv keyhook_init" by (simp add: kh_inv_def keyhook_init_def)
  moreover have "run_steps (\<lambda>e s. if vk_ok e then Some (kh_step e s) else Some s) es s = Some (fold kh_step es s)" for s
    using assms by (induction es arbitrary: s) simp_all
  ultimately show ?thesis using kh.run_inv[of keyhook_init es] by simp
qed

section \<open>Properties\<close>



text \<open>The keyboard events that reach the local system.\<close>

fun local_keys :: "kh_event list \<Rightarrow> keyhook \<Rightarrow> (kbd_msg \<times> nat) list" where
  "local_keys [] s = []"
| "local_keys (Kbd a m vk # es) s =
     (if fst (kbd_proc a m vk s) then [] else [(m, vk)]) @ local_keys es (kh_step (Kbd a m vk) s)"
| "local_keys (e # es) s = local_keys es (kh_step e s)"

text \<open>
  A held key can stick on the local machine. When a key is pressed over the video and the pointer leaves it while the key
  is held, the key's repeated press passes to the local system, but its release is sent to the remote host
  only: the local system sees a press without a release.
\<close>

theorem autorepeat_sticks_locally:
  assumes "active s" "vk < 256" "kh_rect_set s" "kh_rect s = (l, t, r, b)" "\<not> (l \<le> px \<and> px < r \<and> t \<le> py \<and> py < b)"
  shows "local_keys [Kbd True WM_KEYDOWN vk, Mouse True WM_MOUSEMOVE px py d, Kbd True WM_KEYDOWN vk, Kbd True WM_KEYUP vk] s
    = [(WM_KEYDOWN, vk)]"
proof -
  let ?s1 = "emit (k_line vk 1) (s\<lparr>kh_key_remote := insert vk (kh_key_remote s)\<rparr>)"
  have s1: "kbd_proc True WM_KEYDOWN vk s = (True, ?s1)" using assms(1,2) by (simp add: kbd_proc_def)
  let ?s2 = "mouse_proc True WM_MOUSEMOVE px py d ?s1"
  have h: "fst (update_hover px py ?s1) = None" "\<not> kh_hovering (snd (update_hover px py ?s1))"
    "kh_key_remote (snd (update_hover px py ?s1)) = insert vk (kh_key_remote s)"
    using assms(3-5) by (auto simp: update_hover_def emit_def Let_def)
  then have s2: "\<not> active ?s2" "vk \<in> kh_key_remote ?s2"
    by (simp_all add: mouse_proc_def mouse_btn_def active_def case_prod_unfold)
  then have "kbd_proc True WM_KEYDOWN vk ?s2 = (False, ?s2)" "fst (kbd_proc True WM_KEYUP vk ?s2)"
    using assms(2) by (simp_all add: kbd_proc_def)
  then show ?thesis using s1 by (simp add: kh_step_def)
qed

theorem autorepeat_sticks_locally_witness:
  "local_keys [Kbd True WM_KEYDOWN 65, Mouse True WM_MOUSEMOVE 900 5 0, Kbd True WM_KEYDOWN 65, Kbd True WM_KEYUP 65]
     (keyhook_init\<lparr>kh_streaming := True, kh_focused := True, kh_hovering := True, kh_rect_set := True, kh_rect := (0, 0, 640, 480)\<rparr>)
   = [(WM_KEYDOWN, 65)]"
  by (rule autorepeat_sticks_locally[where l = 0 and t = 0 and r = 640 and b = 480]) (simp_all add: active_def)

end
