(* ===== verification/Kmc_Audio.thy ===== *)
theory Kmc_Audio
  imports Complex_Main Kmc_Prelude
begin

unbundle bit_operations_syntax

text \<open>
  The audio stream: the host's sender task (\<^verbatim>\<open>kmc-streamhost/src/audio.rs\<close>), which wraps Opus frames in RTP for the
  client that registered by a ping, and the client's receiver with its loss statistics
  (\<^verbatim>\<open>kmc-moonclient/src/audio.rs\<close>). Capture and encoding are not modelled: a frame is a byte list.
\<close>

section \<open>The host\<close>

definition AUDIO_RTP_HEADER_LEN :: nat where [simp]: "AUDIO_RTP_HEADER_LEN = 12"
definition AUDIO_PAYLOAD_TYPE :: u8 where "AUDIO_PAYLOAD_TYPE = 97"
definition SAMPLES_PER_FRAME :: u32 where "SAMPLES_PER_FRAME = (48000 div 1000) * 5"
definition OWNER_TIMEOUT :: instant where "OWNER_TIMEOUT = millis 2000"
definition AUDIO_PING :: bytes where "AUDIO_PING = [0x50, 0x49, 0x4E, 0x47]"

record audio_host =
  ah_client :: "nat option"
  ah_seq :: u16
  ah_timestamp :: u32
  ah_last_ping :: instant

datatype audio_event = AudioRecv instant bytes nat | AudioReset | AudioRecvErr | AudioFrame bytes

definition audio_host_new :: "instant \<Rightarrow> audio_host" where
  "audio_host_new now = \<lparr>ah_client = None, ah_seq = 0, ah_timestamp = 0, ah_last_ping = now\<rparr>"

definition audio_packet :: "u16 \<Rightarrow> u32 \<Rightarrow> bytes \<Rightarrow> bytes" where
  "audio_packet seq ts frame =
     [0x80, AUDIO_PAYLOAD_TYPE] @ u16_to_be_bytes seq @ u32_to_be_bytes ts @ u32_to_be_bytes 0 @ frame"

text \<open>One turn of the sender's loop, with the datagram it sends and to whom. \<open>AudioReset\<close> is the error 10054.\<close>

definition audio_host_step :: "audio_event \<Rightarrow> audio_host \<Rightarrow> (nat \<times> bytes) option \<times> audio_host" where
  "audio_host_step e a =
     (case e of
        AudioRecv now data addr \<Rightarrow>
          if data \<noteq> AUDIO_PING then (None, a)
          else
            let owner_active = (ah_client a \<noteq> None \<and> ah_client a \<noteq> Some addr \<and> now - ah_last_ping a < OWNER_TIMEOUT)
            in if owner_active then (None, a)
               else
                 let a1 = (if ah_client a \<noteq> Some addr then a\<lparr>ah_seq := 0, ah_timestamp := 0\<rparr> else a)
                 in (None, a1\<lparr>ah_client := Some addr, ah_last_ping := now\<rparr>)
      | AudioReset \<Rightarrow> (None, a\<lparr>ah_client := None\<rparr>)
      | AudioRecvErr \<Rightarrow> (None, a)
      | AudioFrame frame \<Rightarrow>
          let ts = ah_timestamp a + SAMPLES_PER_FRAME;
              a1 = a\<lparr>ah_timestamp := ts\<rparr>
          in case ah_client a1 of
               None \<Rightarrow> (None, a1)
             | Some dst \<Rightarrow> (Some (dst, audio_packet (ah_seq a1) ts frame), a1\<lparr>ah_seq := ah_seq a1 + 1\<rparr>))"

section \<open>The client\<close>

datatype audio_parse_error = TooShort nat | BadVersion u8 | UnsupportedHeader u8 | WrongPayloadType u8 | EmptyPayload

record audio_rtp_header =
  arh_sequence :: u16
  arh_timestamp :: u32
  arh_ssrc :: u32

definition parse_rtp_audio :: "bytes \<Rightarrow> audio_parse_error + audio_rtp_header \<times> bytes" where
  "parse_rtp_audio d =
     (if length d < AUDIO_RTP_HEADER_LEN then Inl (TooShort (length d))
      else
        let b0 = d ! 0
        in if drop_bit 6 b0 \<noteq> 2 then Inl (BadVersion b0)
           else if b0 AND 0x1F \<noteq> 0 then Inl (UnsupportedHeader b0)
           else
             let payload_type = d ! 1 AND 0x7F
             in if payload_type \<noteq> AUDIO_PAYLOAD_TYPE then Inl (WrongPayloadType payload_type)
                else
                  let payload = drop AUDIO_RTP_HEADER_LEN d
                  in if payload = [] then Inl EmptyPayload
                     else Inr (\<lparr>arh_sequence = u16_from_be_bytes (d ! 2) (d ! 3),
                                arh_timestamp = u32_from_be_bytes (d ! 4) (d ! 5) (d ! 6) (d ! 7),
                                arh_ssrc = u32_from_be_bytes (d ! 8) (d ! 9) (d ! 10) (d ! 11)\<rparr>, payload))"

record loss_stats =
  st_received :: u64
  st_expected :: u64
  st_rejected :: u64

definition lost :: "loss_stats \<Rightarrow> u64" where
  "lost s = word_saturating_sub (st_expected s) (st_received s)"

datatype seq_step = Resync | Forward u16 | Stale

definition RESYNC_THRESHOLD :: int where "RESYNC_THRESHOLD = 1024"

definition seq_advance :: "u16 \<Rightarrow> u16 option \<Rightarrow> seq_step \<times> u16 option" where
  "seq_advance seq tr =
     (case tr of
        None \<Rightarrow> (Resync, Some seq)
      | Some l \<Rightarrow>
          let diff = sint (seq - l)
          in if diff > 0 then (Forward (word_of_int diff - 1), Some seq)
             else if diff \<le> - RESYNC_THRESHOLD then (Resync, Some seq)
             else (Stale, tr))"

text \<open>\<open>ad_out\<close> is what was put into the sink.\<close>

record audio_depacketizer =
  ad_out :: "bytes list"
  ad_stats :: loss_stats
  ad_tracker :: "u16 option"

definition audio_depacketizer_new :: audio_depacketizer where
  "audio_depacketizer_new = \<lparr>ad_out = [], ad_stats = \<lparr>st_received = 0, st_expected = 0, st_rejected = 0\<rparr>, ad_tracker = None\<rparr>"

definition ingest :: "bool \<Rightarrow> bytes \<Rightarrow> audio_depacketizer \<Rightarrow> (audio_parse_error + bool) \<times> audio_depacketizer" where
  "ingest sink_open d a =
     (case parse_rtp_audio d of
        Inl e \<Rightarrow> (Inl e, a\<lparr>ad_stats := (ad_stats a)\<lparr>st_rejected := st_rejected (ad_stats a) + 1\<rparr>\<rparr>)
      | Inr (header, payload) \<Rightarrow>
          (case seq_advance (arh_sequence header) (ad_tracker a) of (step, tr) \<Rightarrow>
            let s = ad_stats a;
                s1 = (case step of
                        Resync \<Rightarrow> s\<lparr>st_expected := st_expected s + 1\<rparr>
                      | Forward gap \<Rightarrow> s\<lparr>st_expected := st_expected s + (ucast gap + 1)\<rparr>
                      | Stale \<Rightarrow> s);
                s2 = s1\<lparr>st_received := st_received s1 + 1\<rparr>;
                a1 = a\<lparr>ad_stats := s2, ad_tracker := tr\<rparr>
            in if sink_open then (Inr True, a1\<lparr>ad_out := ad_out a1 @ [payload]\<rparr>) else (Inr False, a1)))"

text \<open>One received datagram in the receiver's loop: whether the loop ends.\<close>

definition audio_recv :: "bool \<Rightarrow> bytes \<Rightarrow> audio_depacketizer \<Rightarrow> bool \<times> audio_depacketizer" where
  "audio_recv sink_open d a =
     (case ingest sink_open d a of
        (Inr True, a1) \<Rightarrow> (False, a1)
      | (Inr False, a1) \<Rightarrow> (True, a1)
      | (Inl e, a1) \<Rightarrow> (False, a1))"

section \<open>Lemmas\<close>

lemma parse_audio_packet:
  "frame \<noteq> [] \<Longrightarrow> parse_rtp_audio (audio_packet seq ts frame) = Inr (\<lparr>arh_sequence = seq, arh_timestamp = ts, arh_ssrc = 0\<rparr>, frame)"
proof -
  have b: "drop_bit 6 (0x80 :: u8) = 2" "(0x80 :: u8) AND 0x1F = 0" "AUDIO_PAYLOAD_TYPE AND 0x7F = AUDIO_PAYLOAD_TYPE"
    by code_simp+
  assume "frame \<noteq> []"
  then show ?thesis
    by (simp add: parse_rtp_audio_def audio_packet_def Let_def u16_to_be_bytes_def u32_to_be_bytes_def b)
      (simp add: u32_from_be_bytes_def)
qed

text \<open>A step forward by \<open>d\<close> places, also across the wrap-around of the sequence number.\<close>

lemma seq_advance_forward:
  assumes "0 < d" "d < 2 ^ 15"
  shows "seq_advance (l + of_nat d) (Some l) = (Forward (of_nat d - 1), Some (l + of_nat d))"
proof -
  have "(of_nat d :: u16) = word_of_int (int d)" by simp
  then have "sint (of_nat d :: u16) = signed_take_bit 15 (int d)" by (simp only: sint_sbintrunc') simp
  then have "sint (of_nat d :: u16) = int d" using assms by (simp add: signed_take_bit_int_eq_self)
  then show ?thesis using assms by (simp add: seq_advance_def Let_def)
qed

lemma ucast_of_nat_gap:
  assumes "0 < d" "d < 2 ^ 15"
  shows "ucast (of_nat d - 1 :: u16) + 1 = (of_nat d :: u64)"
proof -
  obtain e where e: "d = Suc e" using assms(1) by (cases d) auto
  have "unat (of_nat e :: u16) = e" using assms e by (simp add: unat_of_nat take_bit_nat_eq_self)
  then have "ucast (of_nat e :: u16) = (of_nat e :: u64)" by (metis of_nat_unat)
  then show ?thesis by (simp add: e)
qed

text \<open>The datagrams the host sends for a list of frames.\<close>

primrec host_packets :: "bytes list \<Rightarrow> audio_host \<Rightarrow> (nat \<times> bytes) list" where
  "host_packets [] a = []"
| "host_packets (f # fs) a =
     (case audio_host_step (AudioFrame f) a of (p, a1) \<Rightarrow> (case p of Some x \<Rightarrow> [x] | None \<Rightarrow> []) @ host_packets fs a1)"

lemma host_packets_Cons:
  assumes "ah_client a = Some dst"
  shows "host_packets (f # fs) a = (dst, audio_packet (ah_seq a) (ah_timestamp a + SAMPLES_PER_FRAME) f)
      # host_packets fs (a\<lparr>ah_timestamp := ah_timestamp a + SAMPLES_PER_FRAME, ah_seq := ah_seq a + 1\<rparr>)"
  using assms by (simp add: audio_host_step_def Let_def)

lemma host_packets_nth:
  assumes "ah_client a = Some dst" "i < length fs"
  shows "\<exists>ts. host_packets fs a ! i = (dst, audio_packet (ah_seq a + of_nat i) ts (fs ! i))"
  using assms
proof (induction fs arbitrary: a i)
  case (Cons f fs)
  let ?a = "a\<lparr>ah_timestamp := ah_timestamp a + SAMPLES_PER_FRAME, ah_seq := ah_seq a + 1\<rparr>"
  show ?case using host_packets_Cons[OF Cons.prems(1), of f fs] Cons.IH[of ?a "i - 1"] Cons.prems
    by (cases i) (auto simp: add.assoc)
qed simp

lemma ingest_forward:
  assumes "ad_tracker a = Some (s0 + of_nat i)" "i < j" "j - i < 2 ^ 15" "f \<noteq> []"
  shows "snd (ingest True (audio_packet (s0 + of_nat j) ts f) a) = a\<lparr>ad_out := ad_out a @ [f], ad_tracker := Some (s0 + of_nat j),
      ad_stats := (ad_stats a)\<lparr>st_expected := st_expected (ad_stats a) + of_nat (j - i), st_received := st_received (ad_stats a) + 1\<rparr>\<rparr>"
proof -
  have j: "s0 + of_nat j = s0 + of_nat i + of_nat (j - i)" using assms(2) by (simp add: of_nat_diff)
  have "seq_advance (s0 + of_nat j) (Some (s0 + of_nat i)) = (Forward (of_nat (j - i) - 1), Some (s0 + of_nat j))"
    unfolding j using assms by (intro seq_advance_forward) simp_all
  moreover have "ucast (of_nat (j - i) - 1 :: u16) + 1 = (of_nat (j - i) :: u64)"
    using assms by (intro ucast_of_nat_gap) simp_all
  ultimately show ?thesis using assms by (simp add: ingest_def parse_audio_packet Let_def)
qed

lemma ingest_run:
  assumes "successively (\<lambda>i j. i < j \<and> j - i < 2 ^ 15) (i # is)" "ad_tracker a = Some (s0 + of_nat i)"
    "\<forall>j\<in>set is. fs ! j \<noteq> []" "\<forall>j\<in>set is. \<exists>ts. pk j = audio_packet (s0 + of_nat j) ts (fs ! j)"
  shows "\<exists>t. fold (\<lambda>j a. snd (ingest True (pk j) a)) is a = a\<lparr>ad_out := ad_out a @ map ((!) fs) is, ad_tracker := t,
      ad_stats := (ad_stats a)\<lparr>st_expected := st_expected (ad_stats a) + of_nat (last (i # is) - i),
        st_received := st_received (ad_stats a) + of_nat (length is)\<rparr>\<rparr> \<and> i \<le> last (i # is)"
  using assms
proof (induction "is" arbitrary: i a)
  case Nil
  then show ?case by (intro exI[of _ "ad_tracker a"]) simp
next
  case (Cons j js)
  obtain ts where pk: "pk j = audio_packet (s0 + of_nat j) ts (fs ! j)" using Cons.prems(4) by auto
  let ?a = "snd (ingest True (pk j) a)"
  have ij: "i < j" "j - i < 2 ^ 15" using Cons.prems(1) by auto
  have a: "?a = a\<lparr>ad_out := ad_out a @ [fs ! j], ad_tracker := Some (s0 + of_nat j),
      ad_stats := (ad_stats a)\<lparr>st_expected := st_expected (ad_stats a) + of_nat (j - i), st_received := st_received (ad_stats a) + 1\<rparr>\<rparr>"
    using ingest_forward[OF Cons.prems(2) ij] Cons.prems(3) pk by simp
  have "ad_tracker ?a = Some (s0 + of_nat j)" by (simp add: a)
  then obtain t where t: "fold (\<lambda>j a. snd (ingest True (pk j) a)) js ?a = ?a\<lparr>ad_out := ad_out ?a @ map ((!) fs) js, ad_tracker := t,
      ad_stats := (ad_stats ?a)\<lparr>st_expected := st_expected (ad_stats ?a) + of_nat (last (j # js) - j),
        st_received := st_received (ad_stats ?a) + of_nat (length js)\<rparr>\<rparr>" "j \<le> last (j # js)"
    using Cons.IH[of j ?a] Cons.prems by auto
  have "of_nat (j - i) + of_nat (last (j # js) - j) = (of_nat (last (j # js) - i) :: u64)"
    using ij(1) t(2) by (simp flip: of_nat_add)
  then show ?case using t ij by (intro exI[of _ t]) (simp add: a ac_simps)
qed

lemma ingest_first:
  assumes "f \<noteq> []"
  shows "snd (ingest True (audio_packet s ts f) audio_depacketizer_new) =
    \<lparr>ad_out = [f], ad_stats = \<lparr>st_received = 1, st_expected = 1, st_rejected = 0\<rparr>, ad_tracker = Some s\<rparr>"
  using assms by (simp add: ingest_def parse_audio_packet seq_advance_def audio_depacketizer_new_def Let_def)

section \<open>Properties\<close>

text \<open>
  C30: audio arrives in order and losses are counted exactly. When of the datagrams the host sends to its client any
  increasing selection arrives, with fewer than \<open>2\<^sup>1\<^sup>5\<close> lost in a row, the client hands on exactly the frames that
  arrived, in order, rejects none, and reports as lost exactly those missing between the first and the last
  that arrived, also when the sequence number wraps around.
\<close>

theorem audio_loss_exact:
  assumes "ah_client h = Some dst" "\<forall>f\<in>set fs. f \<noteq> []" "\<forall>j\<in>set (i # is). j < length fs"
    "successively (\<lambda>i j. i < j \<and> j - i < 2 ^ 15) (i # is)" "length fs < 2 ^ 63"
    and "a = fold (\<lambda>j a. snd (ingest True (snd (host_packets fs h ! j)) a)) (i # is) audio_depacketizer_new"
  shows "ad_out a = map ((!) fs) (i # is) \<and> st_rejected (ad_stats a) = 0
    \<and> unat (st_received (ad_stats a)) = length (i # is)
    \<and> unat (lost (ad_stats a)) = (last (i # is) - i + 1) - length (i # is)"
proof -
  let ?pk = "\<lambda>j. snd (host_packets fs h ! j)"
  have pk: "\<exists>ts. ?pk j = audio_packet (ah_seq h + of_nat j) ts (fs ! j)" if "j < length fs" for j
    using host_packets_nth[OF assms(1) that] by auto
  obtain ts where i: "?pk i = audio_packet (ah_seq h + of_nat i) ts (fs ! i)" using pk assms(3) by auto
  let ?a = "\<lparr>ad_out = [fs ! i], ad_stats = \<lparr>st_received = 1, st_expected = 1, st_rejected = 0\<rparr>, ad_tracker = Some (ah_seq h + of_nat i)\<rparr>"
  have "snd (ingest True (?pk i) audio_depacketizer_new) = ?a"
    unfolding i using assms(2,3) by (intro ingest_first) simp
  then have "a = fold (\<lambda>j a. snd (ingest True (?pk j) a)) is ?a" using assms(6) by simp
  moreover obtain t where "fold (\<lambda>j a. snd (ingest True (?pk j) a)) is ?a = ?a\<lparr>ad_out := ad_out ?a @ map ((!) fs) is, ad_tracker := t,
      ad_stats := (ad_stats ?a)\<lparr>st_expected := st_expected (ad_stats ?a) + of_nat (last (i # is) - i),
        st_received := st_received (ad_stats ?a) + of_nat (length is)\<rparr>\<rparr>" "i \<le> last (i # is)"
    using ingest_run[OF assms(4), of ?a "ah_seq h" fs ?pk] pk assms(2,3) by auto
  ultimately have a: "ad_out a = map ((!) fs) (i # is)" "st_rejected (ad_stats a) = 0"
    "st_received (ad_stats a) = of_nat (length (i # is))" "st_expected (ad_stats a) = of_nat (last (i # is) - i + 1)"
    by simp_all
  have "distinct (i # is)" using assms(4)
    by (metis (no_types, lifting) strict_sorted_iff successively_conv_sorted_wrt successively_mono transp_on_less)
  then have len: "length (i # is) \<le> length fs"
    using assms(3) card_mono[of "{..<length fs}" "set (i # is)"] distinct_card[of "i # is"] by auto
  have "last (i # is) < length fs" using assms(3) last_in_set[of "i # is"] by blast
  then have u: "unat (of_nat (length (i # is)) :: u64) = length (i # is)"
    "unat (of_nat (last (i # is) - i + 1) :: u64) = last (i # is) - i + 1"
    using len assms(5) by (simp_all only: unat_of_nat) (simp_all add: take_bit_nat_eq_self)
  have sub: "unat (word_saturating_sub x y) = unat x - unat y" for x y :: u64
    by (simp add: word_saturating_sub_def word_le_nat_alt unat_sub)
  show ?thesis unfolding lost_def sub a using a u by simp
qed

theorem audio_loss_exact_witness:
  "ad_out (fold (\<lambda>j a. snd (ingest True (snd (host_packets [[1], [2], [3]] \<lparr>ah_client = Some 9, ah_seq = 0xFFFF, ah_timestamp = 0,
        ah_last_ping = 0\<rparr> ! j)) a)) [0, 2] audio_depacketizer_new) = [[1], [3]]
   \<and> unat (lost (ad_stats (fold (\<lambda>j a. snd (ingest True (snd (host_packets [[1], [2], [3]] \<lparr>ah_client = Some 9, ah_seq = 0xFFFF,
        ah_timestamp = 0, ah_last_ping = 0\<rparr> ! j)) a)) [0, 2] audio_depacketizer_new))) = 1"
proof -
  let ?h = "\<lparr>ah_client = Some 9, ah_seq = 0xFFFF, ah_timestamp = 0, ah_last_ping = 0\<rparr>"
  let ?a = "fold (\<lambda>j a. snd (ingest True (snd (host_packets [[1], [2], [3]] ?h ! j)) a)) [0, 2] audio_depacketizer_new"
  have "ad_out ?a = map ((!) [[1], [2], [3]]) [0, 2] \<and> st_rejected (ad_stats ?a) = 0
    \<and> unat (st_received (ad_stats ?a)) = length [0::nat, 2]
    \<and> unat (lost (ad_stats ?a)) = (last [0, 2] - 0 + 1) - length [0::nat, 2]"
    by (rule audio_loss_exact[where dst = 9]) simp_all
  then show ?thesis by simp
qed

end
