(* ===== verification/Kmc_Web.thy ===== *)
theory Kmc_Web
  imports Complex_Main Kmc_Strings Kmc_Session
begin

text \<open>
  The host's web server: the pairing cryptography (\<^verbatim>\<open>kmc-streamhost/src/crypto.rs\<close>), the list of paired clients
  (\<^verbatim>\<open>state.rs\<close>), the pairing state machine (\<^verbatim>\<open>clients.rs\<close>) and the request handlers (\<^verbatim>\<open>webserver.rs\<close>). The
  crates behind them are the fields of \<open>web_libs\<close>; random values and whether a file write succeeds are the
  fields of \<open>web_env\<close>. A Rust string is the list of its UTF-8 bytes as characters.
\<close>

section \<open>Strings and bytes\<close>

definition as_bytes :: "string \<Rightarrow> bytes" where
  "as_bytes s = map (\<lambda>c. of_nat (of_char c)) s"

definition byte_in :: "nat \<Rightarrow> nat \<Rightarrow> u8 \<Rightarrow> bool" where
  "byte_in lo hi b \<longleftrightarrow> lo \<le> unat b \<and> unat b \<le> hi"

abbreviation cont_byte :: "u8 \<Rightarrow> bool" where "cont_byte \<equiv> byte_in 0x80 0xBF"

text \<open>\<^verbatim>\<open>String::from_utf8\<close>: the well-formed byte sequences.\<close>

fun utf8_valid :: "bytes \<Rightarrow> bool" where
  "utf8_valid [] = True"
| "utf8_valid (a # r) =
     (if byte_in 0 0x7F a then utf8_valid r
      else case r of [] \<Rightarrow> False | b # r1 \<Rightarrow>
        if byte_in 0xC2 0xDF a then cont_byte b \<and> utf8_valid r1
        else case r1 of [] \<Rightarrow> False | c # r2 \<Rightarrow>
          if byte_in 0xE0 0xEF a then
            byte_in (if a = 0xE0 then 0xA0 else 0x80) (if a = 0xED then 0x9F else 0xBF) b \<and> cont_byte c \<and> utf8_valid r2
          else case r2 of [] \<Rightarrow> False | d # r3 \<Rightarrow>
            byte_in 0xF0 0xF4 a \<and> byte_in (if a = 0xF0 then 0x90 else 0x80) (if a = 0xF4 then 0x8F else 0xBF) b
            \<and> cont_byte c \<and> cont_byte d \<and> utf8_valid r3)"

definition from_utf8 :: "bytes \<Rightarrow> string option" where
  "from_utf8 bs = (if utf8_valid bs then Some (map (\<lambda>b. char_of (unat b)) bs) else None)"

definition is_ascii :: "string \<Rightarrow> bool" where
  "is_ascii s \<longleftrightarrow> (\<forall>c\<in>set s. (of_char c :: nat) < 128)"

lemma unat_char [simp]: "unat (of_nat (of_char c) :: u8) = of_char c"
  using nat_of_char_less_256[of c] by (simp add: unat_of_nat take_bit_nat_eq_self)

lemma from_utf8_ascii: "is_ascii s \<Longrightarrow> from_utf8 (as_bytes s) = Some s"
proof -
  assume "is_ascii s"
  then have "utf8_valid (as_bytes s)"
    by (induction s) (auto simp: is_ascii_def as_bytes_def byte_in_def)
  then show ?thesis by (simp add: from_utf8_def as_bytes_def comp_def)
qed

section \<open>The crates\<close>

text \<open>
  \<open>lib_hex_encode\<close> and \<open>lib_hex_decode\<close> are the crate \<^verbatim>\<open>hex\<close>, \<open>lib_sha256\<close> is \<^verbatim>\<open>sha2\<close>, the block functions are
  \<^verbatim>\<open>aes\<close> (key, block). Keys and certificates: \<open>lib_private_key\<close> is \<^verbatim>\<open>from_pkcs8_pem\<close>, \<open>lib_pem\<close> the contents
  \<^verbatim>\<open>parse_x509_pem\<close> finds, \<open>lib_x509\<close> is \<^verbatim>\<open>parse_x509\<close>, \<open>lib_public_key\<close> is \<^verbatim>\<open>from_public_key_der\<close>, \<open>lib_signature\<close> says
  whether \<^verbatim>\<open>Signature::try_from\<close> accepts the bytes. \<open>lib_json_write\<close> and \<open>lib_json_read\<close> are \<^verbatim>\<open>serde_json\<close> on the state
  file, \<open>lib_form\<close> is \<^verbatim>\<open>form_urlencoded::parse\<close>, \<open>lib_host\<close> says which
  host names a URL may have, \<open>lib_url\<close> is what a server gets of a URL, and \<open>lib_xml\<close> is
  \<^verbatim>\<open>roxmltree\<close>: of a document it gives the text of the first element with a tag name.
\<close>

record x509 =
  x_subject_pki :: bytes
  x_signature_value :: bytes

record url_parts =
  up_https :: bool
  up_port :: nat
  up_path :: string
  up_query :: string

record state_data =
  sd_clients :: "string \<rightharpoonup> string"
  sd_paired_fingerprints :: "string list"

type_synonym xml_doc = "string \<Rightarrow> string option"

record web_libs =
  lib_hex_encode :: "bytes \<Rightarrow> string"
  lib_hex_decode :: "string \<Rightarrow> bytes option"
  lib_sha256 :: "bytes \<Rightarrow> bytes"
  lib_encrypt_block :: "bytes \<Rightarrow> bytes \<Rightarrow> bytes"
  lib_decrypt_block :: "bytes \<Rightarrow> bytes \<Rightarrow> bytes"
  lib_private_key :: "string \<Rightarrow> nat option"
  lib_public_key :: "bytes \<Rightarrow> nat option"
  lib_pem :: "string \<Rightarrow> bytes option"
  lib_x509 :: "bytes \<Rightarrow> x509 option"
  lib_sign :: "nat \<Rightarrow> bytes \<Rightarrow> bytes"
  lib_signature :: "bytes \<Rightarrow> bool"
  lib_verify :: "nat \<Rightarrow> bytes \<Rightarrow> bytes \<Rightarrow> bool"
  lib_json_write :: "state_data \<Rightarrow> bytes"
  lib_json_read :: "bytes \<Rightarrow> state_data option"
  lib_form :: "string \<Rightarrow> (string \<times> string) list"
  lib_host :: "string \<Rightarrow> bool"
  lib_url :: "string \<Rightarrow> url_parts option"
  lib_xml :: "string \<Rightarrow> xml_doc option"

record web_env =
  we_server_secret :: bytes
  we_server_challenge :: bytes
  we_disk_ok :: bool

section \<open>Pairing cryptography\<close>

datatype web_error =
  EcbLength nat | BadPem | BadX509 | BadPublicKey | BadPrivateKey | BadSignature | VerifyFailed
| NoPendingClient | NoPin | NoServerSecret | NoClientHash | NoServerChallenge | SecretTooShort nat | HashMismatch
| BadStateFile | WriteFailed

definition derive_key :: "web_libs \<Rightarrow> bytes \<Rightarrow> string \<Rightarrow> bytes" where
  "derive_key L salt pin = take 16 (lib_sha256 L (salt @ as_bytes pin))"

text \<open>\<^verbatim>\<open>chunks_mut(16)\<close>, each chunk replaced.\<close>

function map_blocks :: "(bytes \<Rightarrow> bytes) \<Rightarrow> bytes \<Rightarrow> bytes" where
  "map_blocks f bs = (if bs = [] then [] else f (take 16 bs) @ map_blocks f (drop 16 bs))"
  by pat_completeness auto
termination
  by (relation "measure (length \<circ> snd)") auto

declare map_blocks.simps [simp del]

definition aes_ecb_encrypt :: "web_libs \<Rightarrow> bytes \<Rightarrow> bytes \<Rightarrow> web_error + bytes" where
  "aes_ecb_encrypt L data k =
     (if length data mod 16 \<noteq> 0 then Inl (EcbLength (length data))
      else Inr (map_blocks (lib_encrypt_block L k) data))"

definition aes_ecb_decrypt :: "web_libs \<Rightarrow> bytes \<Rightarrow> bytes \<Rightarrow> web_error + bytes" where
  "aes_ecb_decrypt L data k =
     (if length data mod 16 \<noteq> 0 then Inl (EcbLength (length data))
      else Inr (map_blocks (lib_decrypt_block L k) data))"

definition rsa_sign_sha256 :: "web_libs \<Rightarrow> bytes \<Rightarrow> string \<Rightarrow> web_error + bytes" where
  "rsa_sign_sha256 L data key_pem =
     bindE (ok_or BadPrivateKey (lib_private_key L key_pem)) (\<lambda>pk. Inr (lib_sign L pk data))"

definition parse_cert :: "web_libs \<Rightarrow> string \<Rightarrow> web_error + x509" where
  "parse_cert L cert_pem =
     bindE (ok_or BadPem (lib_pem L cert_pem)) (\<lambda>contents. ok_or BadX509 (lib_x509 L contents))"

definition rsa_verify_cert_sha256 :: "web_libs \<Rightarrow> string \<Rightarrow> bytes \<Rightarrow> bytes \<Rightarrow> web_error + unit" where
  "rsa_verify_cert_sha256 L cert_pem data signature =
     bindE (parse_cert L cert_pem) (\<lambda>cert.
     bindE (ok_or BadPublicKey (lib_public_key L (x_subject_pki cert))) (\<lambda>pk.
       if \<not> lib_signature L signature then Inl BadSignature
       else if lib_verify L pk data signature then Inr () else Inl VerifyFailed))"

definition cert_signature :: "web_libs \<Rightarrow> string \<Rightarrow> web_error + bytes" where
  "cert_signature L cert_pem = bindE (parse_cert L cert_pem) (\<lambda>cert. Inr (x_signature_value cert))"

definition cert_fingerprint :: "web_libs \<Rightarrow> string \<Rightarrow> web_error + string" where
  "cert_fingerprint L cert_pem =
     bindE (ok_or BadPem (lib_pem L cert_pem)) (\<lambda>contents. Inr (lib_hex_encode L (lib_sha256 L contents)))"

lemma map_blocks_step:
  "length b = 16 \<Longrightarrow> map_blocks f (b @ bs) = f b @ map_blocks f bs"
  by (subst map_blocks.simps) auto

lemma blocks_induct [consumes 1, case_names Nil Block]:
  assumes "length bs mod 16 = 0" "P []" "\<And>b bs. length b = 16 \<Longrightarrow> P bs \<Longrightarrow> P (b @ bs)"
  shows "P (bs :: bytes)"
  using assms(1)
proof (induction bs rule: length_induct)
  case (1 bs)
  show ?case
  proof (cases "bs = []")
    case False
    then have l: "16 \<le> length bs" using "1.prems" by (cases "length bs < 16") auto
    then have "length (drop 16 bs) mod 16 = 0" using "1.prems" by (simp add: mod_if)
    then have "P (drop 16 bs)" using "1.IH" False by (simp add: l)
    then show ?thesis using assms(3)[of "take 16 bs" "drop 16 bs"] l by simp
  qed (simp add: assms(2))
qed

lemma map_blocks_length:
  assumes "length bs mod 16 = 0" "\<And>b. length b = 16 \<Longrightarrow> length (f b) = 16"
  shows "length (map_blocks f bs) = length bs"
  using assms(1) by (induction rule: blocks_induct) (simp_all add: map_blocks_step assms(2) map_blocks.simps[of f "[]"])

lemma map_blocks_inverse:
  assumes "length bs mod 16 = 0" "\<And>b. length b = 16 \<Longrightarrow> length (f b) = 16 \<and> g (f b) = b"
  shows "map_blocks g (map_blocks f bs) = bs"
  using assms(1)
  by (induction rule: blocks_induct) (simp_all add: map_blocks_step assms(2) map_blocks.simps[of _ "[]"])
section \<open>Paired clients on disk\<close>

definition state_data_default :: state_data where
  "state_data_default = \<lparr>sd_clients = Map.empty, sd_paired_fingerprints = []\<rparr>"

text \<open>The data under the lock, and the contents of the state file.\<close>

record persistent_state =
  ps_data :: state_data
  ps_file :: "bytes option"

definition load_or_default :: "web_libs \<Rightarrow> bytes option \<Rightarrow> web_error + persistent_state" where
  "load_or_default L file =
     bindE (case file of
              Some bs \<Rightarrow> ok_or BadStateFile (lib_json_read L bs)
            | None \<Rightarrow> Inr state_data_default)
       (\<lambda>data. Inr \<lparr>ps_data = data, ps_file = file\<rparr>)"

definition has_client :: "string \<Rightarrow> persistent_state \<Rightarrow> bool" where
  "has_client i s \<longleftrightarrow> sd_clients (ps_data s) i \<noteq> None"

definition has_paired_cert :: "string \<Rightarrow> persistent_state \<Rightarrow> bool" where
  "has_paired_cert fp s \<longleftrightarrow> (\<exists>f\<in>set (sd_paired_fingerprints (ps_data s)). f = fp)"

definition persist :: "web_libs \<Rightarrow> web_env \<Rightarrow> persistent_state \<Rightarrow> (web_error + unit) \<times> persistent_state" where
  "persist L env s =
     (if we_disk_ok env then (Inr (), s\<lparr>ps_file := Some (lib_json_write L (ps_data s))\<rparr>) else (Inl WriteFailed, s))"

definition add_paired ::
  "web_libs \<Rightarrow> web_env \<Rightarrow> string \<Rightarrow> string \<Rightarrow> string \<Rightarrow> persistent_state \<Rightarrow> (web_error + unit) \<times> persistent_state" where
  "add_paired L env i fp pem s =
     (let d = ps_data s;
          d1 = d\<lparr>sd_clients := (sd_clients d)(i \<mapsto> pem)\<rparr>;
          d2 = (if \<not> has_paired_cert fp s then d1\<lparr>sd_paired_fingerprints := sd_paired_fingerprints d1 @ [fp]\<rparr> else d1)
      in persist L env (s\<lparr>ps_data := d2\<rparr>))"

section \<open>The pairing state machine\<close>

record pending_client =
  pc_id :: string
  pc_pem :: string
  pc_salt :: bytes
  pc_key :: "bytes option"
  pc_server_secret :: "bytes option"
  pc_server_challenge :: "bytes option"
  pc_client_hash :: "bytes option"

record client_manager =
  cm_pending :: "string \<rightharpoonup> pending_client"
  cm_state :: persistent_state
  cm_server_cert_pem :: string
  cm_server_key_pem :: string

definition client_manager_new :: "web_libs \<Rightarrow> bytes option \<Rightarrow> string \<Rightarrow> string \<Rightarrow> web_error + client_manager" where
  "client_manager_new L file cert key_pem =
     bindE (load_or_default L file) (\<lambda>st. Inr
       \<lparr>cm_pending = Map.empty, cm_state = st, cm_server_cert_pem = cert, cm_server_key_pem = key_pem\<rparr>)"

definition is_paired :: "string \<Rightarrow> client_manager \<Rightarrow> bool" where
  "is_paired i c = has_client i (cm_state c)"

definition is_cert_paired :: "string \<Rightarrow> client_manager \<Rightarrow> bool" where
  "is_cert_paired fp c = has_paired_cert fp (cm_state c)"

definition put_pending :: "string \<Rightarrow> pending_client \<Rightarrow> client_manager \<Rightarrow> client_manager" where
  "put_pending i p c = c\<lparr>cm_pending := (cm_pending c)(i \<mapsto> p)\<rparr>"

definition start_pairing :: "pending_client \<Rightarrow> client_manager \<Rightarrow> client_manager" where
  "start_pairing p c = put_pending (pc_id p) p c"

definition register_pin :: "web_libs \<Rightarrow> string \<Rightarrow> string \<Rightarrow> client_manager \<Rightarrow> (web_error + unit) \<times> client_manager" where
  "register_pin L i pin c =
     (case cm_pending c i of
        None \<Rightarrow> (Inl NoPendingClient, c)
      | Some p \<Rightarrow> (Inr (), put_pending i (p\<lparr>pc_key := Some (derive_key L (pc_salt p) pin)\<rparr>) c))"

definition client_challenge ::
  "web_libs \<Rightarrow> web_env \<Rightarrow> string \<Rightarrow> bytes \<Rightarrow> client_manager \<Rightarrow> (web_error + bytes) \<times> client_manager" where
  "client_challenge L env i challenge c =
     (case cm_pending c i of
        None \<Rightarrow> (Inl NoPendingClient, c)
      | Some p \<Rightarrow>
          (case pc_key p of
             None \<Rightarrow> (Inl NoPin, c)
           | Some k \<Rightarrow>
               let server_secret = we_server_secret env;
                   p1 = p\<lparr>pc_server_secret := Some server_secret\<rparr>
               in case bindE (aes_ecb_decrypt L challenge k) (\<lambda>decrypted.
                         bindE (cert_signature L (cm_server_cert_pem c)) (\<lambda>cert_sig.
                           Inr (decrypted @ cert_sig @ server_secret))) of
                    Inl e \<Rightarrow> (Inl e, put_pending i p1 c)
                  | Inr decrypted \<Rightarrow>
                      let server_challenge = we_server_challenge env;
                          p2 = p1\<lparr>pc_server_challenge := Some server_challenge\<rparr>
                      in (aes_ecb_encrypt L (lib_sha256 L decrypted @ server_challenge) k, put_pending i p2 c)))"

definition server_challenge_response ::
  "web_libs \<Rightarrow> string \<Rightarrow> bytes \<Rightarrow> client_manager \<Rightarrow> (web_error + bytes) \<times> client_manager" where
  "server_challenge_response L i challenge_response c =
     (case cm_pending c i of
        None \<Rightarrow> (Inl NoPendingClient, c)
      | Some p \<Rightarrow>
          (case pc_key p of
             None \<Rightarrow> (Inl NoPin, c)
           | Some k \<Rightarrow>
               (case aes_ecb_decrypt L challenge_response k of
                  Inl e \<Rightarrow> (Inl e, c)
                | Inr decrypted \<Rightarrow>
                    (bindE (ok_or NoServerSecret (pc_server_secret p)) (\<lambda>server_secret.
                     bindE (rsa_sign_sha256 L server_secret (cm_server_key_pem c)) (\<lambda>signed.
                       Inr (server_secret @ signed))),
                     put_pending i (p\<lparr>pc_client_hash := Some decrypted\<rparr>) c))))"

definition verify_pairing_secret :: "web_libs \<Rightarrow> pending_client \<Rightarrow> bytes \<Rightarrow> web_error + unit" where
  "verify_pairing_secret L p client_secret =
     bindE (ok_or NoClientHash (pc_client_hash p)) (\<lambda>client_hash.
     bindE (ok_or NoServerChallenge (pc_server_challenge p)) (\<lambda>server_challenge.
       if length client_secret < 16 then Inl (SecretTooShort (length client_secret))
       else
         let payload = take 16 client_secret; signature = drop 16 client_secret
         in bindE (cert_signature L (pc_pem p)) (\<lambda>cert_sig.
            if lib_sha256 L (server_challenge @ cert_sig @ payload) \<noteq> client_hash then Inl HashMismatch
            else rsa_verify_cert_sha256 L (pc_pem p) payload signature)))"

definition check_client_pairing_secret ::
  "web_libs \<Rightarrow> web_env \<Rightarrow> string \<Rightarrow> bytes \<Rightarrow> client_manager \<Rightarrow> (web_error + unit) \<times> client_manager" where
  "check_client_pairing_secret L env i client_secret c =
     (case cm_pending c i of
        None \<Rightarrow> (Inl NoPendingClient, c)
      | Some p \<Rightarrow>
          (case bindE (verify_pairing_secret L p client_secret) (\<lambda>_. cert_fingerprint L (pc_pem p)) of
             Inl e \<Rightarrow> (Inl e, c)
           | Inr fingerprint \<Rightarrow>
               (case add_paired L env i fingerprint (pc_pem p) (cm_state c) of
                  (r, st) \<Rightarrow> (r, c\<lparr>cm_state := st\<rparr>))))"

section \<open>The web server\<close>

definition SERVERINFO_APP_VERSION :: string where "SERVERINFO_APP_VERSION = ''7.1.431.-1''"
definition SERVERINFO_GFE_VERSION :: string where "SERVERINFO_GFE_VERSION = ''3.23.0.74''"

record server_config =
  sv_name :: string
  sv_unique_id :: string
  sv_http_port :: u16
  sv_https_port :: u16
  sv_rtsp_port :: u16

text \<open>The certificate and key for TLS are those of the client manager.\<close>

record webserver =
  wb_config :: server_config
  wb_clients :: client_manager
  wb_session :: session_state

datatype http_method = GET | POST | OtherVerb string

record http_request =
  hq_https :: bool
  hq_method :: http_method
  hq_path :: string
  hq_query :: "string option"
  hq_body :: "string option"
  hq_local :: "string option"
  hq_peer_fingerprint :: "string option"

record http_response =
  hr_status :: nat
  hr_content_type :: "string option"
  hr_body :: string

type_synonym params = "string \<rightharpoonup> string"

text \<open>
  A response is sent at once, or, for the first pairing request, when the wait for the PIN has ended: by the
  notification of \<^verbatim>\<open>register_pin\<close> or after 90 seconds, with the same response in both cases. Meanwhile other
  requests are served.
\<close>

datatype reply = Now http_response | AfterPin http_response

primrec reply_response :: "reply \<Rightarrow> http_response" where
  "reply_response (Now r) = r"
| "reply_response (AfterPin r) = r"

definition xml_ok :: "string \<Rightarrow> http_response" where
  "xml_ok body = \<lparr>hr_status = 200, hr_content_type = Some ''application/xml'', hr_body = body\<rparr>"

definition html_ok :: "string \<Rightarrow> http_response" where
  "html_ok body = \<lparr>hr_status = 200, hr_content_type = Some ''text/html; charset=utf-8'', hr_body = body\<rparr>"

definition paired_xml :: "string \<Rightarrow> http_response" where
  "paired_xml inner = xml_ok (''<root status_code=\"200\"><paired>1</paired>'' @ inner @ ''</root>'')"

definition bad_request :: "string \<Rightarrow> http_response" where
  "bad_request msg =
     \<lparr>hr_status = 400, hr_content_type = Some ''application/xml'',
      hr_body = ''<root status_code=\"400\"><paired>0</paired></root>''\<rparr>"

definition not_found :: http_response where
  "not_found = \<lparr>hr_status = 404, hr_content_type = None, hr_body = ''not found''\<rparr>"

definition replace_char :: "char \<Rightarrow> string \<Rightarrow> string \<Rightarrow> string" where
  "replace_char c r s = concat (map (\<lambda>x. if x = c then r else [x]) s)"

definition escape_xml :: "string \<Rightarrow> string" where
  "escape_xml s =
     replace_char (CHR ''\"'') ''&quot;'' (replace_char (CHR ''>'') ''&gt;''
       (replace_char (CHR ''<'') ''&lt;'' (replace_char (CHR ''&'') ''&amp;'' s)))"

text \<open>\<^verbatim>\<open><tag>text</tag>\<close>.\<close>

definition xml_elem :: "string \<Rightarrow> string \<Rightarrow> string" where
  "xml_elem tag s = ''<'' @ tag @ ''>'' @ s @ ''</'' @ tag @ ''>''"

definition show_u16 :: "u16 \<Rightarrow> string" where
  "show_u16 w = show_nat (unat w)"

definition server_info :: "string option \<Rightarrow> webserver \<Rightarrow> http_response" where
  "server_info local_ip w =
     (let cfg = wb_config w; ip = (case local_ip of Some a \<Rightarrow> a | None \<Rightarrow> [])
      in xml_ok (''<root status_code=\"200\">''
           @ xml_elem ''hostname'' (escape_xml (sv_name cfg))
           @ xml_elem ''appversion'' SERVERINFO_APP_VERSION
           @ xml_elem ''GfeVersion'' SERVERINFO_GFE_VERSION
           @ xml_elem ''uniqueid'' (sv_unique_id cfg)
           @ xml_elem ''HttpsPort'' (show_u16 (sv_https_port cfg))
           @ xml_elem ''ExternalPort'' (show_u16 (sv_http_port cfg))
           @ xml_elem ''mac'' ''00:00:00:00:00:00''
           @ xml_elem ''MaxLumaPixelsHEVC'' ''0''
           @ xml_elem ''LocalIP'' (escape_xml ip)
           @ xml_elem ''ServerCodecModeSupport'' ''1''
           @ xml_elem ''SupportedDisplayMode'' []
           @ xml_elem ''PairStatus'' ''1''
           @ xml_elem ''currentgame'' ''0''
           @ xml_elem ''state'' ''KMC_SERVER_FREE''
           @ ''</root>''))"

definition app_list :: http_response where
  "app_list = xml_ok (''<root status_code=\"200\"><App><IsHdrSupported>0</IsHdrSupported>''
     @ ''<AppTitle>Desktop</AppTitle><ID>1</ID></App></root>'')"

definition require_paired :: "string option \<Rightarrow> http_response option" where
  "require_paired fingerprint = None"

definition parse_mode :: "string option \<Rightarrow> u32 \<times> u32 \<times> u32" where
  "parse_mode mode =
     (case mode of
        None \<Rightarrow> (0, 0, 60)
      | Some m \<Rightarrow>
          (let parts = split_char (CHR ''x'') m;
               num = (\<lambda>d s. case parse_u32 s of Some n \<Rightarrow> of_nat n | None \<Rightarrow> d)
           in if length parts = 3 then (num 0 (parts ! 0), num 0 (parts ! 1), num 60 (parts ! 2)) else (0, 0, 60)))"

definition launch :: "web_libs \<Rightarrow> params \<Rightarrow> string option \<Rightarrow> webserver \<Rightarrow> http_response \<times> webserver" where
  "launch L params local_ip w =
     (let (width, height, refresh) = parse_mode (params ''mode'');
          remote_input_key = (case Option.bind (params ''rikey'') (lib_hex_decode L) of Some k \<Rightarrow> k | None \<Rightarrow> []);
          remote_input_key_id = (case Option.bind (params ''rikeyid'') (parse_int (- (2 ^ 63)) (2 ^ 63 - 1)) of
                                   Some n \<Rightarrow> n | None \<Rightarrow> 0);
          host_ip = (case local_ip of Some ip \<Rightarrow> ip | None \<Rightarrow> ''127.0.0.1'')
      in (xml_ok (''<root status_code=\"200\"><gamesession>1</gamesession><sessionUrl0>rtsp://'' @ host_ip @ '':''
            @ show_u16 (sv_rtsp_port (wb_config w)) @ ''</sessionUrl0></root>''),
          w\<lparr>wb_session := session_set
              \<lparr>ls_remote_input_key = remote_input_key, ls_remote_input_key_id = remote_input_key_id,
               ls_width = width, ls_height = height, ls_refresh_rate = refresh\<rparr> (wb_session w)\<rparr>))"

definition get_server_cert_args :: "web_libs \<Rightarrow> params \<Rightarrow> string + pending_client" where
  "get_server_cert_args L params =
     bindE (ok_or ''missing clientcert'' (params ''clientcert'')) (\<lambda>client_cert_hex.
     bindE (ok_or ''clientcert not hex'' (lib_hex_decode L client_cert_hex)) (\<lambda>client_cert_bytes.
     bindE (ok_or ''clientcert not utf8 pem'' (from_utf8 client_cert_bytes)) (\<lambda>client_pem.
     bindE (ok_or ''missing uniqueid'' (params ''uniqueid'')) (\<lambda>unique_id.
     bindE (ok_or ''missing salt'' (params ''salt'')) (\<lambda>salt_hex.
     bindE (ok_or ''salt not hex'' (lib_hex_decode L salt_hex)) (\<lambda>salt.
       if length salt \<noteq> 16 then Inl ''salt not 16 bytes''
       else Inr \<lparr>pc_id = unique_id, pc_pem = client_pem, pc_salt = salt, pc_key = None, pc_server_secret = None,
                 pc_server_challenge = None, pc_client_hash = None\<rparr>))))))"

definition pair_get_server_cert :: "web_libs \<Rightarrow> params \<Rightarrow> webserver \<Rightarrow> reply \<times> webserver" where
  "pair_get_server_cert L params w =
     (case get_server_cert_args L params of
        Inl msg \<Rightarrow> (Now (bad_request msg), w)
      | Inr p \<Rightarrow>
          (AfterPin (paired_xml (xml_elem ''plaincert'' (lib_hex_encode L (as_bytes (cm_server_cert_pem (wb_clients w)))))),
           w\<lparr>wb_clients := start_pairing p (wb_clients w)\<rparr>))"

text \<open>
  The three later handlers share their frame: the client's identifier, a hex argument, an operation of the client
  manager.
\<close>

definition pair_step ::
  "web_libs \<Rightarrow> string \<Rightarrow> (string \<Rightarrow> bytes \<Rightarrow> client_manager \<Rightarrow> (web_error + 'a) \<times> client_manager) \<Rightarrow> ('a \<Rightarrow> string)
   \<Rightarrow> params \<Rightarrow> webserver \<Rightarrow> http_response \<times> webserver" where
  "pair_step L name operation inner params w =
     (case (params ''uniqueid'', params name) of
        (Some i, Some arg_hex) \<Rightarrow>
          (case lib_hex_decode L arg_hex of
             None \<Rightarrow> (bad_request (name @ '' not hex''), w)
           | Some arg \<Rightarrow>
               (case operation i arg (wb_clients w) of
                  (Inl e, c) \<Rightarrow> (bad_request (name @ '' failed''), w\<lparr>wb_clients := c\<rparr>)
                | (Inr r, c) \<Rightarrow> (paired_xml (inner r), w\<lparr>wb_clients := c\<rparr>)))
      | _ \<Rightarrow> (bad_request (''missing uniqueid/'' @ name), w))"

definition pair_client_challenge :: "web_libs \<Rightarrow> web_env \<Rightarrow> params \<Rightarrow> webserver \<Rightarrow> http_response \<times> webserver" where
  "pair_client_challenge L env =
     pair_step L ''clientchallenge'' (client_challenge L env) (\<lambda>r. xml_elem ''challengeresponse'' (lib_hex_encode L r))"

definition pair_server_challenge_response :: "web_libs \<Rightarrow> params \<Rightarrow> webserver \<Rightarrow> http_response \<times> webserver" where
  "pair_server_challenge_response L =
     pair_step L ''serverchallengeresp'' (server_challenge_response L) (\<lambda>r. xml_elem ''pairingsecret'' (lib_hex_encode L r))"

definition pair_client_secret :: "web_libs \<Rightarrow> web_env \<Rightarrow> params \<Rightarrow> webserver \<Rightarrow> http_response \<times> webserver" where
  "pair_client_secret L env =
     pair_step L ''clientpairingsecret'' (check_client_pairing_secret L env) (\<lambda>_. [])"

definition handle_pair :: "web_libs \<Rightarrow> web_env \<Rightarrow> params \<Rightarrow> webserver \<Rightarrow> reply \<times> webserver" where
  "handle_pair L env params w =
     (case params ''phrase'' of
        Some phrase \<Rightarrow>
          if phrase = ''getservercert'' then pair_get_server_cert L params w
          else if phrase = ''pairchallenge'' then (Now (paired_xml []), w)
          else (Now (bad_request (''unknown pair phrase: '' @ phrase)), w)
      | None \<Rightarrow>
          if params ''clientchallenge'' \<noteq> None then apfst Now (pair_client_challenge L env params w)
          else if params ''serverchallengeresp'' \<noteq> None then apfst Now (pair_server_challenge_response L params w)
          else if params ''clientpairingsecret'' \<noteq> None then apfst Now (pair_client_secret L env params w)
          else (Now (bad_request ''unknown pair command''), w))"

text \<open>The Korean labels of the two HTML pages as UTF-8.\<close>

definition utf8_text :: "nat list \<Rightarrow> string" where
  "utf8_text = map char_of"

definition pin_page :: "params \<Rightarrow> http_response" where
  "pin_page params =
     (let i = (case params ''uniqueid'' of Some i \<Rightarrow> i | None \<Rightarrow> [])
      in html_ok (''<!doctype html><html><body><h3>'' @ utf8_text [0x4B, 0x4D, 0x43, 0x20, 0xED, 0x8E, 0x98, 0xEC, 0x96, 0xB4, 0xEB, 0xA7, 0x81, 0x20, 0x50, 0x49, 0x4E, 0x20, 0xEC, 0x9E, 0x85, 0xEB, 0xA0, 0xA5]
           @ ''</h3><form method=POST action=/submit-pin><input type=hidden name=uniqueid value=\"'' @ i
           @ ''\">PIN: <input name=pin autofocus> <button>'' @ utf8_text [0xED, 0x99, 0x95, 0xEC, 0x9D, 0xB8]
           @ ''</button></form></body></html>''))"

definition pin_accepted :: http_response where
  "pin_accepted = html_ok (''<html><body>'' @ utf8_text [0xED, 0x8E, 0x98, 0xEC, 0x96, 0xB4, 0xEB, 0xA7, 0x81, 0x20, 0xEC, 0xA7, 0x84, 0xED, 0x96, 0x89, 0x20, 0xEC, 0xA4, 0x91, 0xE2, 0x80, 0xA6, 0x20, 0xEC, 0xB0, 0xBD, 0xEC, 0x9D, 0x84, 0x20, 0xEB, 0x8B, 0xAB, 0xEC, 0x95, 0x84, 0xEB, 0x8F, 0x84, 0x20, 0xEB, 0x90, 0xA9, 0xEB, 0x8B, 0x88, 0xEB, 0x8B, 0xA4, 0x2E] @ ''</body></html>'')"

definition form_map :: "(string \<times> string) list \<Rightarrow> params" where
  "form_map ps = map_of (rev ps)"

definition submit_pin :: "web_libs \<Rightarrow> string option \<Rightarrow> webserver \<Rightarrow> http_response \<times> webserver" where
  "submit_pin L body w =
     (case body of
        None \<Rightarrow> (bad_request ''read body'', w)
      | Some b \<Rightarrow>
          (let form = form_map (lib_form L b)
           in case (form ''uniqueid'', form ''pin'') of
                (Some i, Some pin) \<Rightarrow>
                  (case register_pin L i pin (wb_clients w) of
                     (Inl e, c) \<Rightarrow> (bad_request ''register pin'', w\<lparr>wb_clients := c\<rparr>)
                   | (Inr _, c) \<Rightarrow> (pin_accepted, w\<lparr>wb_clients := c\<rparr>))
              | _ \<Rightarrow> (bad_request ''missing uniqueid/pin'', w)))"

definition request_params :: "web_libs \<Rightarrow> http_request \<Rightarrow> params" where
  "request_params L rq = (case hq_query rq of None \<Rightarrow> Map.empty | Some q \<Rightarrow> form_map (lib_form L q))"

definition route :: "web_libs \<Rightarrow> web_env \<Rightarrow> http_request \<Rightarrow> webserver \<Rightarrow> reply \<times> webserver" where
  "route L env rq w =
     (let params = request_params L rq; https = hq_https rq; path = hq_path rq;
          guarded = (\<lambda>r. case require_paired (hq_peer_fingerprint rq) of Some deny \<Rightarrow> (Now deny, w) | None \<Rightarrow> r)
      in case hq_method rq of
           GET \<Rightarrow>
             if path = ''/serverinfo'' then (Now (server_info (hq_local rq) w), w)
             else if path = ''/pair'' then handle_pair L env params w
             else if \<not> https \<and> path = ''/pin'' then (Now (pin_page params), w)
             else if https \<and> path = ''/applist'' then guarded (Now app_list, w)
             else if https \<and> path = ''/launch'' then guarded (apfst Now (launch L params (hq_local rq) w))
             else if https \<and> path = ''/resume'' then guarded (apfst Now (launch L params (hq_local rq) w))
             else (Now not_found, w)
         | POST \<Rightarrow>
             if \<not> https \<and> path = ''/submit-pin'' then apfst Now (submit_pin L (hq_body rq) w)
             else (Now not_found, w)
         | OtherVerb v \<Rightarrow> (Now not_found, w))"

section \<open>What requests leave alone\<close>

text \<open>
  The client a request is about, and the frame of an operation: it changes the pairing of that client only,
  keeps the certificate and key, and never forgets a paired client or fingerprint.
\<close>

definition route_target :: "web_libs \<Rightarrow> http_request \<Rightarrow> string option" where
  "route_target L rq =
     (if hq_method rq = POST then Option.bind (hq_body rq) (\<lambda>b. form_map (lib_form L b) ''uniqueid'')
      else request_params L rq ''uniqueid'')"

abbreviation cm_clients :: "client_manager \<Rightarrow> string \<rightharpoonup> string" where
  "cm_clients c \<equiv> sd_clients (ps_data (cm_state c))"

abbreviation cm_fingerprints :: "client_manager \<Rightarrow> string list" where
  "cm_fingerprints c \<equiv> sd_paired_fingerprints (ps_data (cm_state c))"

definition cm_frame :: "string option \<Rightarrow> client_manager \<Rightarrow> client_manager \<Rightarrow> bool" where
  "cm_frame t c c' \<longleftrightarrow>
     (\<forall>j. t \<noteq> Some j \<longrightarrow> cm_pending c' j = cm_pending c j \<and> cm_clients c' j = cm_clients c j)
     \<and> cm_server_cert_pem c' = cm_server_cert_pem c \<and> cm_server_key_pem c' = cm_server_key_pem c
     \<and> dom (cm_clients c) \<subseteq> dom (cm_clients c') \<and> set (cm_fingerprints c) \<subseteq> set (cm_fingerprints c')"

lemma cm_frame_refl [simp]: "cm_frame t c c"
  by (simp add: cm_frame_def)

lemma cm_frame_put [simp]: "cm_frame (Some i) c (put_pending i p c)"
  by (simp add: cm_frame_def put_pending_def)

lemma add_paired_data:
  "ps_data (snd (add_paired L env i fp pem s)) =
     \<lparr>sd_clients = (sd_clients (ps_data s))(i \<mapsto> pem),
      sd_paired_fingerprints = (if fp \<in> set (sd_paired_fingerprints (ps_data s)) then sd_paired_fingerprints (ps_data s)
                                else sd_paired_fingerprints (ps_data s) @ [fp])\<rparr>"
  by (auto simp: add_paired_def persist_def has_paired_cert_def Let_def)

lemma register_pin_frame: "cm_frame (Some i) c (snd (register_pin L i pin c))"
  by (simp add: register_pin_def split: option.split)

lemma client_challenge_frame: "cm_frame (Some i) c (snd (client_challenge L env i b c))"
  by (simp add: client_challenge_def Let_def split: option.split sum.split)

lemma server_challenge_response_frame: "cm_frame (Some i) c (snd (server_challenge_response L i b c))"
  by (simp add: server_challenge_response_def split: option.split sum.split)

lemma check_client_pairing_secret_frame: "cm_frame (Some i) c (snd (check_client_pairing_secret L env i b c))"
proof -
  have "cm_frame (Some i) c (c\<lparr>cm_state := snd (add_paired L env i fp pem (cm_state c))\<rparr>)" for fp pem
    by (auto simp: cm_frame_def add_paired_data)
  then show ?thesis
    by (simp add: check_client_pairing_secret_def split: option.split sum.split prod.split) (metis snd_conv)
qed

lemma pair_step_frame:
  assumes "\<And>i b c. cm_frame (Some i) c (snd (operation i b c))"
  shows "cm_frame (params ''uniqueid'') (wb_clients w) (wb_clients (snd (pair_step L name operation inner params w)))
    \<and> wb_config (snd (pair_step L name operation inner params w)) = wb_config w
    \<and> wb_session (snd (pair_step L name operation inner params w)) = wb_session w"
proof -
  have "cm_frame (Some i) (wb_clients w) c'" if "operation i b (wb_clients w) = (r, c')" for i b r c'
    using assms[of i "wb_clients w" b] that by simp
  then show ?thesis
    by (auto simp: pair_step_def split: option.split prod.split sum.split)
qed

lemma get_server_cert_id: "get_server_cert_args L params = Inr p \<Longrightarrow> params ''uniqueid'' = Some (pc_id p)"
  by (auto simp: get_server_cert_args_def bindE_Inr split: if_splits)

lemma handle_pair_frame:
  "cm_frame (params ''uniqueid'') (wb_clients w) (wb_clients (snd (handle_pair L env params w)))
   \<and> wb_config (snd (handle_pair L env params w)) = wb_config w
   \<and> wb_session (snd (handle_pair L env params w)) = wb_session w"
proof -
  have frames:
    "cm_frame (params ''uniqueid'') (wb_clients w) (wb_clients (snd (h params w)))
     \<and> wb_config (snd (h params w)) = wb_config w \<and> wb_session (snd (h params w)) = wb_session w"
    if "h \<in> {pair_client_challenge L env, pair_server_challenge_response L, pair_client_secret L env}" for h
    using that pair_step_frame[of "client_challenge L env", OF client_challenge_frame]
      pair_step_frame[of "server_challenge_response L", OF server_challenge_response_frame]
      pair_step_frame[of "check_client_pairing_secret L env", OF check_client_pairing_secret_frame]
    by (auto simp: pair_client_challenge_def pair_server_challenge_response_def pair_client_secret_def)
  have first: "cm_frame (params ''uniqueid'') (wb_clients w) (wb_clients (snd (pair_get_server_cert L params w)))
     \<and> wb_config (snd (pair_get_server_cert L params w)) = wb_config w
     \<and> wb_session (snd (pair_get_server_cert L params w)) = wb_session w"
    using get_server_cert_id[of L params]
    by (auto simp: pair_get_server_cert_def start_pairing_def split: sum.split)
  show ?thesis using first frames by (simp add: handle_pair_def split: option.split)
qed

lemma submit_pin_frame:
  assumes "snd (submit_pin L body w) = w'"
  shows "cm_frame (Option.bind body (\<lambda>b. form_map (lib_form L b) ''uniqueid'')) (wb_clients w) (wb_clients w')
    \<and> wb_config w' = wb_config w \<and> wb_session w' = wb_session w"
proof -
  have "cm_frame (Some i) (wb_clients w) c'" if "register_pin L i pin (wb_clients w) = (r, c')" for i pin r c'
    using register_pin_frame[of i "wb_clients w" L pin] that by simp
  then show ?thesis using assms
    by (auto simp: submit_pin_def Let_def split: option.split sum.split prod.split)
qed

lemma launch_frame: "wb_clients (snd (launch L params ip w)) = wb_clients w \<and> wb_config (snd (launch L params ip w)) = wb_config w"
  by (simp add: launch_def Let_def split: prod.split)

lemma route_frame:
  "cm_frame (route_target L rq) (wb_clients w) (wb_clients (snd (route L env rq w)))
   \<and> wb_config (snd (route L env rq w)) = wb_config w"
  using handle_pair_frame[where params = "request_params L rq" and w = w and L = L and env = env] launch_frame submit_pin_frame[where L = L and body = "hq_body rq" and w = w, OF refl]
  by (auto simp: route_def route_target_def require_paired_def Let_def split: http_method.split)

lemma route_session:
  "hq_path rq \<notin> {''/launch'', ''/resume''} \<Longrightarrow> wb_session (snd (route L env rq w)) = wb_session w"
  using handle_pair_frame[where params = "request_params L rq" and w = w and L = L and env = env] submit_pin_frame[where L = L and body = "hq_body rq" and w = w, OF refl]
  by (auto simp: route_def require_paired_def Let_def split: http_method.split)

section \<open>The invariant\<close>

text \<open>
  A pending entry sits under its own identifier with a salt of 16 bytes, and has reached a stage only after those before
  it; every recorded certificate has its fingerprint recorded, once.
\<close>

definition pending_ok :: "string \<Rightarrow> pending_client \<Rightarrow> bool" where
  "pending_ok i p \<longleftrightarrow>
     pc_id p = i \<and> length (pc_salt p) = 16
     \<and> (pc_server_secret p \<noteq> None \<or> pc_client_hash p \<noteq> None \<longrightarrow> pc_key p \<noteq> None)
     \<and> (pc_server_challenge p \<noteq> None \<longrightarrow> pc_server_secret p \<noteq> None)"

definition cm_inv :: "web_libs \<Rightarrow> client_manager \<Rightarrow> bool" where
  "cm_inv L c \<longleftrightarrow>
     (\<forall>i p. cm_pending c i = Some p \<longrightarrow> pending_ok i p)
     \<and> (\<forall>i pem. cm_clients c i = Some pem \<longrightarrow> (\<exists>fp\<in>set (cm_fingerprints c). cert_fingerprint L pem = Inr fp))
     \<and> distinct (cm_fingerprints c)"

lemma cm_inv_pending: "cm_inv L c \<Longrightarrow> cm_pending c i = Some p \<Longrightarrow> pending_ok i p"
  by (simp add: cm_inv_def)

lemma cm_inv_put: "cm_inv L c \<Longrightarrow> pending_ok i p \<Longrightarrow> cm_inv L (put_pending i p c)"
  by (auto simp: cm_inv_def put_pending_def)

lemma register_pin_inv: "cm_inv L c \<Longrightarrow> cm_inv L (snd (register_pin L i pin c))"
  by (auto simp: register_pin_def pending_ok_def dest: cm_inv_pending intro!: cm_inv_put split: option.split)

lemma client_challenge_inv: "cm_inv L c \<Longrightarrow> cm_inv L (snd (client_challenge L env i b c))"
  by (auto simp: client_challenge_def Let_def pending_ok_def dest: cm_inv_pending intro!: cm_inv_put split: option.split sum.split)

lemma server_challenge_response_inv: "cm_inv L c \<Longrightarrow> cm_inv L (snd (server_challenge_response L i b c))"
  by (auto simp: server_challenge_response_def pending_ok_def dest: cm_inv_pending intro!: cm_inv_put split: option.split sum.split)

lemma check_client_pairing_secret_inv:
  assumes "cm_inv L c"
  shows "cm_inv L (snd (check_client_pairing_secret L env i b c))"
proof -
  have "cm_inv L (c\<lparr>cm_state := st\<rparr>)"
    if "add_paired L env i fp pem (cm_state c) = (r, st)" "cert_fingerprint L pem = Inr fp" for r st fp pem
    using that assms add_paired_data[of L env i fp pem "cm_state c"] by (auto simp: cm_inv_def)
  then show ?thesis using assms
    by (auto simp: check_client_pairing_secret_def bindE_Inr split: option.split sum.split prod.split)
qed

lemma pair_step_inv:
  assumes "\<And>i b c. cm_inv L c \<Longrightarrow> cm_inv L (snd (operation i b c))" "cm_inv L (wb_clients w)"
  shows "cm_inv L (wb_clients (snd (pair_step L name operation inner params w)))"
proof -
  have "cm_inv L c'" if "operation i b (wb_clients w) = (r, c')" for i b r c'
    using assms(1)[of "wb_clients w" i b] assms(2) that by simp
  then show ?thesis using assms(2)
    by (auto simp: pair_step_def split: option.split prod.split sum.split)
qed

lemma get_server_cert_ok: "get_server_cert_args L params = Inr p \<Longrightarrow> pending_ok (pc_id p) p"
  by (auto simp: get_server_cert_args_def pending_ok_def bindE_Inr split: if_splits)

lemma handle_pair_inv: "cm_inv L (wb_clients w) \<Longrightarrow> cm_inv L (wb_clients (snd (handle_pair L env params w)))"
  using pair_step_inv[of L "client_challenge L env", OF client_challenge_inv]
    pair_step_inv[of L "server_challenge_response L", OF server_challenge_response_inv]
    pair_step_inv[of L "check_client_pairing_secret L env", OF check_client_pairing_secret_inv]
  by (auto simp: handle_pair_def pair_get_server_cert_def start_pairing_def pair_client_challenge_def
      pair_server_challenge_response_def pair_client_secret_def cm_inv_put get_server_cert_ok split: option.split sum.split)

lemma submit_pin_inv:
  assumes "cm_inv L (wb_clients w)"
  shows "cm_inv L (wb_clients (snd (submit_pin L body w)))"
proof -
  have "cm_inv L c'" if "register_pin L i pin (wb_clients w) = (r, c')" for i pin r c'
    using register_pin_inv[OF assms, of i pin] that by simp
  then show ?thesis using assms
    by (auto simp: submit_pin_def Let_def split: option.split sum.split prod.split)
qed

lemma route_inv: "cm_inv L (wb_clients w) \<Longrightarrow> cm_inv L (wb_clients (snd (route L env rq w)))"
  using handle_pair_inv launch_frame submit_pin_inv
  by (auto simp: route_def require_paired_def Let_def split: http_method.split)

text \<open>
  The web server as a machine over requests. What it has once recorded it keeps, and its certificate, key and
  configuration stay.
\<close>

definition web_step :: "web_libs \<Rightarrow> web_env \<times> http_request \<Rightarrow> webserver \<Rightarrow> webserver" where
  "web_step L e w = snd (route L (fst e) (snd e) w)"

definition web_run :: "web_libs \<Rightarrow> (web_env \<times> http_request) list \<Rightarrow> webserver \<Rightarrow> webserver" where
  "web_run L es w = fold (web_step L) es w"

definition web_le :: "webserver \<Rightarrow> webserver \<Rightarrow> bool" where
  "web_le w w' \<longleftrightarrow>
     cm_server_cert_pem (wb_clients w') = cm_server_cert_pem (wb_clients w)
     \<and> cm_server_key_pem (wb_clients w') = cm_server_key_pem (wb_clients w) \<and> wb_config w' = wb_config w
     \<and> dom (cm_clients (wb_clients w)) \<subseteq> dom (cm_clients (wb_clients w'))
     \<and> set (cm_fingerprints (wb_clients w)) \<subseteq> set (cm_fingerprints (wb_clients w'))"

lemma web_step_le: "web_le w (web_step L e w)"
  using route_frame[of L "snd e" w "fst e"] by (auto simp: web_step_def web_le_def cm_frame_def)

lemma web_le_refl: "web_le w w" and web_le_trans: "web_le s t \<Longrightarrow> web_le t u \<Longrightarrow> web_le s u"
  unfolding web_le_def by (blast, metis subset_trans)

interpretation web: step_invariant "\<lambda>e w. Some (web_step L e w)" "\<lambda>w. cm_inv L (wb_clients w)" for L
  by unfold_locales (simp add: web_step_def route_inv)

interpretation web_keeps: step_preorder "\<lambda>e w. Some (web_step L e w)" "\<lambda>_. True" web_le for L
  by unfold_locales (auto simp: web_step_le web_le_refl intro: web_le_trans)

lemma web_run_Nil [simp]: "web_run L [] w = w"
  and web_run_Cons [simp]: "web_run L (e # es) w = web_run L es (web_step L e w)"
  and web_run_append [simp]: "web_run L (es @ es') w = web_run L es' (web_run L es w)"
  by (simp_all add: web_run_def)

lemma web_run_inv: "cm_inv L (wb_clients w) \<Longrightarrow> cm_inv L (wb_clients (web_run L es w))"
  using web.run_inv[of L w es] by (simp add: run_steps_total web_run_def)

lemma web_run_keeps: "web_le w (web_run L es w)"
  using web_keeps.run_le[of L es w] by (simp add: run_steps_total web_run_def)

text \<open>Requests about other clients do not touch the pairing of \<open>j\<close>.\<close>

definition foreign :: "web_libs \<Rightarrow> string \<Rightarrow> (web_env \<times> http_request) list \<Rightarrow> bool" where
  "foreign L j es \<longleftrightarrow> (\<forall>e\<in>set es. route_target L (snd e) \<noteq> Some j)"

lemma web_run_foreign:
  assumes "foreign L j es"
  shows "cm_pending (wb_clients (web_run L es w)) j = cm_pending (wb_clients w) j
    \<and> cm_clients (wb_clients (web_run L es w)) j = cm_clients (wb_clients w) j"
  using assms
proof (induction es arbitrary: w)
  case (Cons e es)
  have "cm_pending (wb_clients (web_step L e w)) j = cm_pending (wb_clients w) j
    \<and> cm_clients (wb_clients (web_step L e w)) j = cm_clients (wb_clients w) j"
    using Cons.prems route_frame[of L "snd e" w "fst e"] by (auto simp: foreign_def web_step_def cm_frame_def)
  then show ?case using Cons by (simp add: foreign_def)
qed simp

section \<open>Only verified clients are recorded\<close>

definition verified_request :: "web_libs \<Rightarrow> string \<Rightarrow> http_request \<Rightarrow> webserver \<Rightarrow> bool" where
  "verified_request L j rq w \<longleftrightarrow>
     hq_method rq = GET \<and> hq_path rq = ''/pair''
     \<and> (\<exists>p secret. cm_pending (wb_clients w) j = Some p
          \<and> Option.bind (request_params L rq ''clientpairingsecret'') (lib_hex_decode L) = Some secret
          \<and> verify_pairing_secret L p secret = Inr ())"

lemma clients_unchanged:
  "cm_clients (snd (register_pin L i pin c)) = cm_clients c"
  "cm_clients (snd (client_challenge L env i b c)) = cm_clients c"
  "cm_clients (snd (server_challenge_response L i b c)) = cm_clients c"
  "cm_clients (start_pairing p c) = cm_clients c"
  by (simp_all add: register_pin_def client_challenge_def server_challenge_response_def start_pairing_def put_pending_def
      Let_def split: option.split sum.split)

lemma new_client_checked:
  assumes "cm_clients c j = None" "cm_clients (snd (check_client_pairing_secret L env i b c)) j \<noteq> None"
  shows "i = j \<and> (\<exists>p. cm_pending c j = Some p \<and> verify_pairing_secret L p b = Inr ())"
  using assms
  by (auto simp: check_client_pairing_secret_def bindE_Inr add_paired_def persist_def Let_def
      split: option.splits sum.splits prod.splits if_splits)

lemma pair_step_clients:
  "cm_clients (wb_clients (snd (pair_step L name f inner ps w))) j \<noteq> cm_clients (wb_clients w) j \<Longrightarrow>
   \<exists>i arg. Option.bind (ps name) (lib_hex_decode L) = Some arg
     \<and> cm_clients (snd (f i arg (wb_clients w))) j \<noteq> cm_clients (wb_clients w) j"
  by (auto simp: pair_step_def split: option.splits prod.splits sum.splits) (metis snd_conv)+

lemma submit_pin_clients: "cm_clients (wb_clients (snd (submit_pin L body w))) = cm_clients (wb_clients w)"
proof -
  have "cm_clients c' = cm_clients (wb_clients w)" if "register_pin L i pin (wb_clients w) = (r, c')" for i pin r c'
    using clients_unchanged(1)[of L i pin "wb_clients w"] that by simp
  then show ?thesis by (auto simp: submit_pin_def Let_def split: option.splits prod.splits sum.splits)
qed

lemma handle_pair_clients:
  assumes "cm_clients (wb_clients w) j = None" "cm_clients (wb_clients (snd (handle_pair L env ps w))) j \<noteq> None"
  shows "\<exists>p secret. cm_pending (wb_clients w) j = Some p
      \<and> Option.bind (ps ''clientpairingsecret'') (lib_hex_decode L) = Some secret
      \<and> verify_pairing_secret L p secret = Inr ()"
proof -
  have same: "cm_clients (wb_clients (snd (pair_step L name f inner ps w))) j = None"
    if "\<And>i b c. cm_clients (snd (f i b c)) = cm_clients c" for name inner
      and f :: "string \<Rightarrow> bytes \<Rightarrow> client_manager \<Rightarrow> (web_error + bytes) \<times> client_manager"
    using pair_step_clients[of L name f inner ps w j] that assms(1) by (metis (no_types))
  have "cm_clients (wb_clients (snd (pair_get_server_cert L ps w))) j = None"
    using assms(1) by (simp add: pair_get_server_cert_def clients_unchanged split: sum.split)
  moreover have "cm_clients (wb_clients (snd (pair_client_challenge L env ps w))) j = None"
    unfolding pair_client_challenge_def by (rule same) (rule clients_unchanged)
  moreover have "cm_clients (wb_clients (snd (pair_server_challenge_response L ps w))) j = None"
    unfolding pair_server_challenge_response_def by (rule same) (rule clients_unchanged)
  ultimately have "cm_clients (wb_clients (snd (pair_client_secret L env ps w))) j \<noteq> None"
    using assms by (auto simp: handle_pair_def split: option.splits if_splits)
  then obtain i arg where arg: "Option.bind (ps ''clientpairingsecret'') (lib_hex_decode L) = Some arg"
      "cm_clients (snd (check_client_pairing_secret L env i arg (wb_clients w))) j \<noteq> None"
    using pair_step_clients[where f = "check_client_pairing_secret L env" and w = w and j = j] assms(1)
    unfolding pair_client_secret_def by metis
  show ?thesis using new_client_checked[OF assms(1) arg(2)] arg(1) by blast
qed

lemma new_client_verified:
  assumes "\<not> is_paired j (wb_clients w)" "is_paired j (wb_clients (web_step L (env, rq) w))"
  shows "verified_request L j rq w"
proof -
  have none: "cm_clients (wb_clients w) j = None" using assms(1) by (simp add: is_paired_def has_client_def)
  have some: "cm_clients (wb_clients (snd (route L env rq w))) j \<noteq> None"
    using assms(2) by (simp add: is_paired_def has_client_def web_step_def)
  have "hq_method rq = GET \<and> hq_path rq = ''/pair'' \<and> route L env rq w = handle_pair L env (request_params L rq) w"
    using some none launch_frame submit_pin_clients
    by (auto simp: route_def require_paired_def Let_def split: http_method.splits if_splits)
  then show ?thesis using handle_pair_clients[OF none] some by (simp add: verified_request_def)
qed

lemma first_new_client:
  assumes "\<not> is_paired j (wb_clients w)" "is_paired j (wb_clients (web_run L es w))"
  shows "\<exists>pre env rq post. es = pre @ (env, rq) # post \<and> verified_request L j rq (web_run L pre w)"
  using assms
proof (induction es arbitrary: w)
  case (Cons e es)
  show ?case
  proof (cases "is_paired j (wb_clients (web_step L e w))")
    case True
    then have "verified_request L j (snd e) w"
      using Cons.prems(1) new_client_verified[of j w L "fst e" "snd e"] by simp
    then show ?thesis by (metis append_Nil prod.collapse web_run_Nil)
  next
    case False
    then obtain pre env rq post where "es = pre @ (env, rq) # post" "verified_request L j rq (web_run L pre (web_step L e w))"
      using Cons.IH[OF False] Cons.prems(2) by auto
    then have "e # es = (e # pre) @ (env, rq) # post \<and> verified_request L j rq (web_run L (e # pre) w)" by simp
    then show ?thesis by blast
  qed
qed simp

end
