(* ===== verification/Kmc_Pair.thy ===== *)
theory Kmc_Pair
  imports Complex_Main Kmc_Web Kmc_Gsproto
begin

text \<open>
  The client's HTTP side (\<^verbatim>\<open>kmc-moonclient/src/pair.rs\<close>, with the primitives of its \<^verbatim>\<open>crypto.rs\<close>, which repeats
  the host's): server query, pairing and launch, over a transport \<open>get\<close> that returns the body of the
  response to a URL or fails. Random bytes are arguments.
\<close>

section \<open>Addresses and documents\<close>

record identity =
  id_cert_pem :: string
  id_key_pem :: string
  id_unique_id :: string

record paired_host =
  ph_address :: string
  ph_http_port :: u16
  ph_https_port :: u16
  ph_rtsp_port :: u16
  ph_server_cert_pem :: string

record server_info_data =
  si_app_version :: string
  si_gfe_version :: string
  si_pair_status :: bool
  si_current_game :: int
  si_https_port :: u16
  si_codec_mode_support :: int

record launch_result =
  lr_rtsp_session_url :: string
  lr_rikey :: bytes
  lr_rikey_iv :: bytes

definition DEFAULT_RTSP_PORT :: u16 where "DEFAULT_RTSP_PORT = 48010"

definition rsplit_once :: "char \<Rightarrow> string \<Rightarrow> (string \<times> string) option" where
  "rsplit_once c s =
     (case dropWhile (\<lambda>x. x \<noteq> c) (rev s) of
        [] \<Rightarrow> None
      | _ # r \<Rightarrow> Some (rev r, rev (takeWhile (\<lambda>x. x \<noteq> c) (rev s))))"

definition split_host_base :: "string \<Rightarrow> string \<times> u16" where
  "split_host_base address =
     (case rsplit_once (CHR '':'') address of
        Some (host, port) \<Rightarrow>
          if CHR '':'' \<notin> set host then
            (case parse_u16 port of
               Some p \<Rightarrow> if p \<noteq> 0 then (host, of_nat p) else (address, DEFAULT_BASE_PORT)
             | None \<Rightarrow> (address, DEFAULT_BASE_PORT))
          else (address, DEFAULT_BASE_PORT)
      | None \<Rightarrow> (address, DEFAULT_BASE_PORT))"

datatype pair_error =
  HttpFailed | XmlFailed | NotPaired nat | NoElement string | NotHex | NotUtf8 | TooShortReply nat | CryptoFailed web_error
| ServerInfoFailed

type_synonym 'w http_get = "string \<Rightarrow> 'w \<Rightarrow> string option \<times> 'w"
type_synonym ('a, 'w) pair_m = "(pair_error, 'a, 'w) state_result"

definition xml_text :: "xml_doc \<Rightarrow> string \<Rightarrow> string option" where
  "xml_text doc tag = map_option trim (doc tag)"

definition url_text :: "bool \<Rightarrow> string \<Rightarrow> u16 \<Rightarrow> string \<Rightarrow> string \<Rightarrow> string" where
  "url_text https address port path query =
     (if https then ''https://'' else ''http://'') @ address @ '':'' @ show_u16 port @ path @ ''?'' @ query"

text \<open>\<^verbatim>\<open>client.get(url).send()?.text()?\<close> and \<^verbatim>\<open>Document::parse\<close>.\<close>

definition get_text :: "'w http_get \<Rightarrow> string \<Rightarrow> (string, 'w) pair_m" where
  "get_text get url w = (case get url w of (b, w1) \<Rightarrow> (ok_or HttpFailed b, w1))"

definition get_doc :: "web_libs \<Rightarrow> 'w http_get \<Rightarrow> string \<Rightarrow> (xml_doc, 'w) pair_m" where
  "get_doc L get url = se_bind (get_text get url) (\<lambda>body. se_lift (ok_or XmlFailed (lib_xml L body)))"

definition crypt :: "web_error + 'a \<Rightarrow> ('a, 'w) pair_m" where
  "crypt r = se_lift (case r of Inl e \<Rightarrow> Inl (CryptoFailed e) | Inr x \<Rightarrow> Inr x)"

definition hex_arg :: "web_libs \<Rightarrow> string \<Rightarrow> (bytes, 'w) pair_m" where
  "hex_arg L s = se_lift (ok_or NotHex (lib_hex_decode L s))"

definition parse_server_info :: "u16 \<Rightarrow> xml_doc \<Rightarrow> server_info_data" where
  "parse_server_info https_port doc =
     \<lparr>si_app_version = or_default [] (xml_text doc ''appversion''),
      si_gfe_version = or_default [] (xml_text doc ''GfeVersion''),
      si_pair_status = (xml_text doc ''PairStatus'' = Some ''1''),
      si_current_game = or_default 0 (Option.bind (xml_text doc ''currentgame'') (parse_int (- (2 ^ 63)) (2 ^ 63 - 1))),
      si_https_port = or_default https_port (map_option of_nat (Option.bind (xml_text doc ''HttpsPort'') parse_u16)),
      si_codec_mode_support = or_default 0 (Option.bind (xml_text doc ''ServerCodecModeSupport'') parse_i32)\<rparr>"

fun try_urls :: "web_libs \<Rightarrow> 'w http_get \<Rightarrow> u16 \<Rightarrow> string list \<Rightarrow> (server_info_data, 'w) pair_m" where
  "try_urls L get https_port [] w = (Inl ServerInfoFailed, w)"
| "try_urls L get https_port (url # urls) w =
     (case get url w of
        (Some body, w1) \<Rightarrow>
          (case lib_xml L body of
             None \<Rightarrow> (Inl XmlFailed, w1)
           | Some doc \<Rightarrow> (Inr (parse_server_info https_port doc), w1))
      | (None, w1) \<Rightarrow> try_urls L get https_port urls w1)"

definition query_server_info ::
  "web_libs \<Rightarrow> 'w http_get \<Rightarrow> bytes \<times> bytes \<Rightarrow> identity \<Rightarrow> string \<Rightarrow> u16 \<Rightarrow> u16 \<Rightarrow> (server_info_data, 'w) pair_m" where
  "query_server_info L get uuids idn address http_port https_port =
     (let query = (\<lambda>uuid. ''uniqueid='' @ id_unique_id idn @ ''&uuid='' @ lib_hex_encode L uuid)
      in try_urls L get https_port
           [url_text True address https_port ''/serverinfo'' (query (fst uuids)),
            url_text False address http_port ''/serverinfo'' (query (snd uuids))])"

section \<open>Pairing\<close>

record pair_rnd =
  rd_salt :: bytes
  rd_client_challenge :: bytes
  rd_client_secret :: bytes
  rd_uuid :: "nat \<Rightarrow> bytes"

definition pair_query :: "web_libs \<Rightarrow> pair_rnd \<Rightarrow> identity \<Rightarrow> nat \<Rightarrow> string \<Rightarrow> string" where
  "pair_query L rnd idn stage args =
     ''uniqueid='' @ id_unique_id idn @ ''&uuid='' @ lib_hex_encode L (rd_uuid rnd stage) @ ''&devicename=roth&updateState=1&'' @ args"

definition stage1 :: "web_libs \<Rightarrow> 'w http_get \<Rightarrow> pair_rnd \<Rightarrow> identity \<Rightarrow> string \<Rightarrow> u16 \<Rightarrow> (string, 'w) pair_m" where
  "stage1 L get rnd idn address http_port =
     se_bind (get_doc L get (url_text False address http_port ''/pair'' (pair_query L rnd idn 1
       (''phrase=getservercert&salt='' @ lib_hex_encode L (rd_salt rnd) @ ''&clientcert='' @ lib_hex_encode L (as_bytes (id_cert_pem idn)))))) (\<lambda>doc.
     if xml_text doc ''paired'' \<noteq> Some ''1'' then se_lift (Inl (NotPaired 1))
     else
       se_bind (se_lift (ok_or (NoElement ''plaincert'') (xml_text doc ''plaincert''))) (\<lambda>plaincert_hex.
       se_bind (hex_arg L plaincert_hex) (\<lambda>bs.
       se_lift (ok_or NotUtf8 (from_utf8 bs)))))"

definition stage2 :: "web_libs \<Rightarrow> 'w http_get \<Rightarrow> pair_rnd \<Rightarrow> identity \<Rightarrow> string \<Rightarrow> u16 \<Rightarrow> bytes \<Rightarrow> (bytes, 'w) pair_m" where
  "stage2 L get rnd idn address http_port k =
     se_bind (crypt (aes_ecb_encrypt L (rd_client_challenge rnd) k)) (\<lambda>enc_challenge.
     se_bind (get_doc L get (url_text False address http_port ''/pair'' (pair_query L rnd idn 2
       (''clientchallenge='' @ lib_hex_encode L enc_challenge)))) (\<lambda>doc.
     se_bind (se_lift (ok_or (NoElement ''challengeresponse'') (xml_text doc ''challengeresponse''))) (\<lambda>chresp_hex.
     se_bind (hex_arg L chresp_hex) (\<lambda>bs.
     se_bind (crypt (aes_ecb_decrypt L bs k)) (\<lambda>chresp.
     if length chresp < 48 then se_lift (Inl (TooShortReply (length chresp)))
     else se_return (take 16 (drop 32 chresp)))))))"

definition stage3 ::
  "web_libs \<Rightarrow> 'w http_get \<Rightarrow> pair_rnd \<Rightarrow> identity \<Rightarrow> string \<Rightarrow> u16 \<Rightarrow> bytes \<Rightarrow> string \<Rightarrow> bytes \<Rightarrow> (unit, 'w) pair_m" where
  "stage3 L get rnd idn address http_port k server_cert_pem server_challenge =
     se_bind (crypt (cert_signature L (id_cert_pem idn))) (\<lambda>client_cert_sig.
     se_bind (crypt (aes_ecb_encrypt L (lib_sha256 L (server_challenge @ client_cert_sig @ rd_client_secret rnd)) k)) (\<lambda>enc_hash.
     se_bind (get_doc L get (url_text False address http_port ''/pair'' (pair_query L rnd idn 3
       (''serverchallengeresp='' @ lib_hex_encode L enc_hash)))) (\<lambda>doc.
     se_bind (se_lift (ok_or (NoElement ''pairingsecret'') (xml_text doc ''pairingsecret''))) (\<lambda>secret_hex.
     se_bind (hex_arg L secret_hex) (\<lambda>pairing_secret.
     if length pairing_secret < 16 then se_lift (Inl (TooShortReply (length pairing_secret)))
     else crypt (rsa_verify_cert_sha256 L server_cert_pem (take 16 pairing_secret) (drop 16 pairing_secret)))))))"

definition stage4 :: "web_libs \<Rightarrow> 'w http_get \<Rightarrow> pair_rnd \<Rightarrow> identity \<Rightarrow> string \<Rightarrow> u16 \<Rightarrow> (unit, 'w) pair_m" where
  "stage4 L get rnd idn address http_port =
     se_bind (crypt (rsa_sign_sha256 L (rd_client_secret rnd) (id_key_pem idn))) (\<lambda>signed.
     se_bind (get_text get (url_text False address http_port ''/pair'' (pair_query L rnd idn 4
       (''clientpairingsecret='' @ lib_hex_encode L (rd_client_secret rnd @ signed))))) (\<lambda>_.
     se_return ()))"

definition stage5 :: "web_libs \<Rightarrow> 'w http_get \<Rightarrow> pair_rnd \<Rightarrow> identity \<Rightarrow> string \<Rightarrow> u16 \<Rightarrow> (unit, 'w) pair_m" where
  "stage5 L get rnd idn address https_port =
     se_bind (get_doc L get (url_text True address https_port ''/pair'' (pair_query L rnd idn 5 ''phrase=pairchallenge''))) (\<lambda>doc.
     if xml_text doc ''paired'' \<noteq> Some ''1'' then se_lift (Inl (NotPaired 5)) else se_return ())"

definition client_pair ::
  "web_libs \<Rightarrow> 'w http_get \<Rightarrow> pair_rnd \<Rightarrow> identity \<Rightarrow> string \<Rightarrow> u16 \<Rightarrow> u16 \<Rightarrow> string \<Rightarrow> (paired_host, 'w) pair_m" where
  "client_pair L get rnd idn address http_port https_port pin =
     (let k = derive_key L (rd_salt rnd) pin
      in se_bind (stage1 L get rnd idn address http_port) (\<lambda>server_cert_pem.
         se_bind (stage2 L get rnd idn address http_port k) (\<lambda>server_challenge.
         se_bind (stage3 L get rnd idn address http_port k server_cert_pem server_challenge) (\<lambda>_.
         se_bind (stage4 L get rnd idn address http_port) (\<lambda>_.
         se_bind (stage5 L get rnd idn address https_port) (\<lambda>_.
         se_return \<lparr>ph_address = address, ph_http_port = http_port, ph_https_port = https_port,
                    ph_rtsp_port = DEFAULT_RTSP_PORT, ph_server_cert_pem = server_cert_pem\<rparr>))))))"

section \<open>Launch\<close>

text \<open>\<open>iv4\<close> are the four random bytes at the start of the initial vector.\<close>

definition client_launch ::
  "web_libs \<Rightarrow> 'w http_get \<Rightarrow> bytes \<Rightarrow> bytes \<Rightarrow> bytes \<Rightarrow> identity \<Rightarrow> paired_host \<Rightarrow> u32 \<Rightarrow> u32 \<Rightarrow> u32 \<Rightarrow> bool \<Rightarrow> (launch_result, 'w) pair_m" where
  "client_launch L get rikey iv4 uuid idn host width height fps resume =
     (let rikey_iv = iv4 @ replicate 12 0;
          rikeyid = sint (u32_from_be_bytes (rikey_iv ! 0) (rikey_iv ! 1) (rikey_iv ! 2) (rikey_iv ! 3));
          num = (\<lambda>w :: u32. show_nat (unat w));
          url = url_text True (ph_address host) (ph_https_port host) (if resume then ''/resume'' else ''/launch'')
            (''uniqueid='' @ id_unique_id idn @ ''&uuid='' @ lib_hex_encode L uuid @ ''&appid=1&mode='' @ num width @ ''x'' @ num height
             @ ''x'' @ num fps @ ''&additionalStates=1&sops=0&rikey='' @ lib_hex_encode L rikey @ ''&rikeyid='' @ show_int rikeyid
             @ ''&localAudioPlayMode=0&surroundAudioInfo=196610&remoteControllersBitmap=0&gcmap=0&gcpersist=0&corever=1'')
      in se_bind (get_doc L get url) (\<lambda>doc.
         se_bind (se_lift (ok_or (NoElement ''sessionUrl0'') (xml_text doc ''sessionUrl0''))) (\<lambda>rtsp.
         se_return \<lparr>lr_rtsp_session_url = rtsp, lr_rikey = rikey, lr_rikey_iv = rikey_iv\<rparr>)))"

section \<open>What the crates promise\<close>

definition plain_char :: "char \<Rightarrow> bool" where
  "plain_char c \<longleftrightarrow> c \<in> set ''0123456789ABCDEFGHIJKLMNOPQRSTUVWXYZabcdefghijklmnopqrstuvwxyz-._''"

definition plain :: "string \<Rightarrow> bool" where
  "plain s \<longleftrightarrow> list_all plain_char s"

fun query_string :: "(string \<times> string) list \<Rightarrow> string" where
  "query_string [] = []"
| "query_string [(k, v)] = k @ ''='' @ v"
| "query_string ((k, v) # ps) = k @ ''='' @ v @ ''&'' @ query_string ps"

definition form_ok :: "(string \<Rightarrow> (string \<times> string) list) \<Rightarrow> bool" where
  "form_ok f \<longleftrightarrow> (\<forall>ps. ps \<noteq> [] \<and> (\<forall>(k, v)\<in>set ps. plain k \<and> plain v) \<longrightarrow> f (query_string ps) = ps)"

definition url_lib_ok :: "web_libs \<Rightarrow> bool" where
  "url_lib_ok L \<longleftrightarrow>
     (\<forall>https host port name ps. lib_host L host \<and> name \<noteq> [] \<and> list_all (\<lambda>c. c \<in> set ''abcdefghijklmnopqrstuvwxyz'') name
        \<and> (\<forall>(k, v)\<in>set ps. plain k \<and> plain v) \<longrightarrow>
        lib_url L (url_text https host port (''/'' @ name) (query_string ps)) =
          Some \<lparr>up_https = https, up_port = unat port, up_path = ''/'' @ name, up_query = query_string ps\<rparr>)"

definition xml_char :: "char \<Rightarrow> bool" where
  "xml_char c \<longleftrightarrow> 32 \<le> (of_char c :: nat) \<and> (of_char c :: nat) < 127 \<and> c \<noteq> CHR ''<'' \<and> c \<noteq> CHR ''>'' \<and> c \<noteq> CHR ''&''"

definition xml_name :: "string \<Rightarrow> bool" where
  "xml_name t \<longleftrightarrow> t \<noteq> [] \<and> t \<noteq> ''root'' \<and> \<not> is_digit (hd t)
     \<and> list_all (\<lambda>c. c \<in> set ''0123456789ABCDEFGHIJKLMNOPQRSTUVWXYZabcdefghijklmnopqrstuvwxyz'') t"

definition flat_doc :: "string \<Rightarrow> (string \<times> string) list \<Rightarrow> string" where
  "flat_doc status ps = ''<root status_code=\"'' @ status @ ''\">'' @ concat (map (\<lambda>(t, s). xml_elem t s) ps) @ ''</root>''"

definition xml_lib_ok :: "(string \<Rightarrow> xml_doc option) \<Rightarrow> bool" where
  "xml_lib_ok f \<longleftrightarrow>
     (\<forall>status ps. list_all is_digit status \<and> (\<forall>(t, s)\<in>set ps. xml_name t \<and> list_all xml_char s) \<longrightarrow>
        (\<exists>doc. f (flat_doc status ps) = Some doc
           \<and> (\<forall>t. t \<noteq> ''root'' \<longrightarrow> doc t = Option.bind (map_of ps t) (\<lambda>s. if s = [] then None else Some s))))"

definition hex_ok :: "web_libs \<Rightarrow> bool" where
  "hex_ok L \<longleftrightarrow> (\<forall>b. lib_hex_decode L (lib_hex_encode L b) = Some b \<and> list_all (\<lambda>c. c \<in> set ''0123456789abcdef'') (lib_hex_encode L b)
     \<and> length (lib_hex_encode L b) = 2 * length b)"

definition cipher_ok :: "web_libs \<Rightarrow> bool" where
  "cipher_ok L \<longleftrightarrow>
     (\<forall>b. length (lib_sha256 L b) = 32)
     \<and> (\<forall>k b. length k = 16 \<and> length b = 16 \<longrightarrow>
          length (lib_encrypt_block L k b) = 16 \<and> length (lib_decrypt_block L k b) = 16
          \<and> lib_decrypt_block L k (lib_encrypt_block L k b) = b)"

definition libs_ok :: "web_libs \<Rightarrow> bool" where
  "libs_ok L \<longleftrightarrow> form_ok (lib_form L) \<and> url_lib_ok L \<and> xml_lib_ok (lib_xml L) \<and> hex_ok L \<and> cipher_ok L"

text \<open>A certificate and the private key that belongs to it.\<close>

definition key_pair_ok :: "web_libs \<Rightarrow> string \<Rightarrow> string \<Rightarrow> bool" where
  "key_pair_ok L cert_pem key_pem \<longleftrightarrow>
     is_ascii cert_pem \<and> cert_pem \<noteq> []
     \<and> (\<exists>der x pub priv. lib_pem L cert_pem = Some der \<and> lib_x509 L der = Some x \<and> lib_public_key L (x_subject_pki x) = Some pub
          \<and> lib_private_key L key_pem = Some priv
          \<and> (\<forall>d. lib_signature L (lib_sign L priv d) \<and> lib_verify L pub d (lib_sign L priv d)))"

section \<open>The cipher and the documents\<close>

lemma derive_key_length [simp]: "cipher_ok L \<Longrightarrow> length (derive_key L salt pin) = 16"
  by (simp add: derive_key_def cipher_ok_def)

lemma ecb_roundtrip:
  assumes "cipher_ok L" "length k = 16" "length d mod 16 = 0"
  obtains e where "aes_ecb_encrypt L d k = Inr e" "length e = length d" "aes_ecb_decrypt L e k = Inr d"
proof
  show "aes_ecb_encrypt L d k = Inr (map_blocks (lib_encrypt_block L k) d)" using assms(3) by (simp add: aes_ecb_encrypt_def)
  show len: "length (map_blocks (lib_encrypt_block L k) d) = length d"
    using assms by (intro map_blocks_length) (simp_all add: cipher_ok_def)
  have "map_blocks (lib_decrypt_block L k) (map_blocks (lib_encrypt_block L k) d) = d"
    using assms by (intro map_blocks_inverse) (simp_all add: cipher_ok_def)
  then show "aes_ecb_decrypt L (map_blocks (lib_encrypt_block L k) d) k = Inr d"
    using len assms(3) by (simp add: aes_ecb_decrypt_def)
qed

lemma ecb_decrypt_total:
  assumes "cipher_ok L" "length k = 16" "length d mod 16 = 0"
  obtains e where "aes_ecb_decrypt L d k = Inr e" "length e = length d"
proof
  show "aes_ecb_decrypt L d k = Inr (map_blocks (lib_decrypt_block L k) d)" using assms(3) by (simp add: aes_ecb_decrypt_def)
  show "length (map_blocks (lib_decrypt_block L k) d) = length d"
    using assms by (intro map_blocks_length) (simp_all add: cipher_ok_def)
qed

lemma key_pair_sign:
  assumes "key_pair_ok L cert_pem key_pem"
  obtains s where "rsa_sign_sha256 L d key_pem = Inr s" "rsa_verify_cert_sha256 L cert_pem d s = Inr ()"
proof -
  obtain der x pub priv where "lib_pem L cert_pem = Some der" "lib_x509 L der = Some x"
      "lib_public_key L (x_subject_pki x) = Some pub" "lib_private_key L key_pem = Some priv"
      "\<forall>d. lib_signature L (lib_sign L priv d) \<and> lib_verify L pub d (lib_sign L priv d)"
    using assms unfolding key_pair_ok_def by blast
  then show ?thesis
    using that[of "lib_sign L priv d"] by (simp add: rsa_sign_sha256_def rsa_verify_cert_sha256_def parse_cert_def)
qed

lemma key_pair_cert:
  assumes "key_pair_ok L cert_pem key_pem"
  obtains sig fp where "cert_signature L cert_pem = Inr sig" "cert_fingerprint L cert_pem = Inr fp"
  using assms unfolding key_pair_ok_def cert_signature_def cert_fingerprint_def parse_cert_def by auto

lemma libs_okD:
  assumes "libs_ok L"
  shows "form_ok (lib_form L)" "url_lib_ok L" "xml_lib_ok (lib_xml L)" "hex_ok L" "cipher_ok L"
  using assms by (simp_all add: libs_ok_def)

lemma hex_decode_encode: "hex_ok L \<Longrightarrow> lib_hex_decode L (lib_hex_encode L b) = Some b"
  and hex_empty: "hex_ok L \<Longrightarrow> lib_hex_encode L b = [] \<longleftrightarrow> b = []"
  unfolding hex_ok_def by (blast, metis length_0_conv mult_is_0 zero_neq_numeral)

lemma hex_plain: "hex_ok L \<Longrightarrow> plain (lib_hex_encode L b)"
  and hex_xml: "hex_ok L \<Longrightarrow> list_all xml_char (lib_hex_encode L b)"
  and hex_trim: "hex_ok L \<Longrightarrow> trim (lib_hex_encode L b) = lib_hex_encode L b"
proof -
  assume "hex_ok L"
  then have d: "c \<in> set ''0123456789abcdef''" if "c \<in> set (lib_hex_encode L b)" for c
    using that by (auto simp: hex_ok_def list_all_iff)
  then show "plain (lib_hex_encode L b)" by (fastforce simp: plain_def plain_char_def list_all_iff)
  show "list_all xml_char (lib_hex_encode L b)" using d by (fastforce simp: xml_char_def list_all_iff)
  have "\<not> is_space c" if "c \<in> set (lib_hex_encode L b)" for c using d[OF that] by (auto simp: is_space_def)
  then show "trim (lib_hex_encode L b) = lib_hex_encode L b" by (intro trim_no_space) blast
qed

section \<open>The host as the client's transport\<close>

text \<open>
  The client's requests reach the web server one by one. A visit fixes what the host draws and sees for one of them, and the
  requests of others that it serves before the client has its response.
\<close>

record visit =
  vi_env :: web_env
  vi_local :: "string option"
  vi_fingerprint :: "string option"
  vi_others :: "(web_env \<times> http_request) list"

record web_world =
  ww_web :: webserver
  ww_visits :: "visit list"

definition visit_request :: "visit \<Rightarrow> url_parts \<Rightarrow> http_request" where
  "visit_request v u =
     \<lparr>hq_https = up_https u, hq_method = GET, hq_path = up_path u, hq_query = Some (up_query u), hq_body = None,
      hq_local = vi_local v, hq_peer_fingerprint = vi_fingerprint v\<rparr>"

definition host_get :: "web_libs \<Rightarrow> web_world http_get" where
  "host_get L url w =
     (case ww_visits w of
        [] \<Rightarrow> (None, w)
      | v # visits \<Rightarrow>
          (case lib_url L url of
             None \<Rightarrow> (None, w)
           | Some u \<Rightarrow>
               let cfg = wb_config (ww_web w)
               in if up_port u \<noteq> unat (if up_https u then sv_https_port cfg else sv_http_port cfg) then (None, w)
                  else case route L (vi_env v) (visit_request v u) (ww_web w) of
                    (reply, web) \<Rightarrow>
                      (Some (hr_body (reply_response reply)),
                       \<lparr>ww_web = web_run L (vi_others v) web, ww_visits = visits\<rparr>)))"

definition plain_query :: "(string \<times> string) list \<Rightarrow> bool" where
  "plain_query ps \<longleftrightarrow> ps \<noteq> [] \<and> (\<forall>(k, v)\<in>set ps. plain k \<and> plain v)"

text \<open>A request of the client arrives with its parameters.\<close>

lemma host_get_route:
  assumes "libs_ok L" "lib_host L address" "plain_query ps"
    and "name \<noteq> []" "list_all (\<lambda>c. c \<in> set ''abcdefghijklmnopqrstuvwxyz'') name"
    and "port = (if https then sv_https_port (wb_config web) else sv_http_port (wb_config web))"
    and "rq = visit_request v \<lparr>up_https = https, up_port = unat port, up_path = ''/'' @ name, up_query = query_string ps\<rparr>"
    and "route L (vi_env v) rq web = (reply, web1)"
  shows "host_get L (url_text https address port (''/'' @ name) (query_string ps)) \<lparr>ww_web = web, ww_visits = v # visits\<rparr> =
      (Some (hr_body (reply_response reply)), \<lparr>ww_web = web_run L (vi_others v) web1, ww_visits = visits\<rparr>)"
    and "request_params L rq = map_of (rev ps)"
proof -
  have "lib_url L (url_text https address port (''/'' @ name) (query_string ps)) =
      Some \<lparr>up_https = https, up_port = unat port, up_path = ''/'' @ name, up_query = query_string ps\<rparr>"
    using libs_okD(2)[OF assms(1)] assms(2-5) unfolding url_lib_ok_def plain_query_def by blast
  then show "host_get L (url_text https address port (''/'' @ name) (query_string ps)) \<lparr>ww_web = web, ww_visits = v # visits\<rparr> =
      (Some (hr_body (reply_response reply)), \<lparr>ww_web = web_run L (vi_others v) web1, ww_visits = visits\<rparr>)"
    using assms(6-8) by (simp add: host_get_def)
  show "request_params L rq = map_of (rev ps)"
    using libs_okD(1)[OF assms(1)] assms(3,7) by (simp add: request_params_def visit_request_def form_map_def form_ok_def plain_query_def)
qed

lemma host_get_pair:
  assumes "libs_ok L" "lib_host L address" "plain_query ps"
    and "port = (if https then sv_https_port (wb_config web) else sv_http_port (wb_config web))"
    and "handle_pair L (vi_env v) (map_of (rev ps)) web = (reply, web1)"
  shows "get_text (host_get L) (url_text https address port ''/pair'' (query_string ps)) \<lparr>ww_web = web, ww_visits = v # visits\<rparr> =
      (Inr (hr_body (reply_response reply)), \<lparr>ww_web = web_run L (vi_others v) web1, ww_visits = visits\<rparr>)"
proof -
  let ?rq = "visit_request v \<lparr>up_https = https, up_port = unat port, up_path = ''/'' @ ''pair'', up_query = query_string ps\<rparr>"
  have n: "''pair'' \<noteq> []" "list_all (\<lambda>c. c \<in> set ''abcdefghijklmnopqrstuvwxyz'') ''pair''" by simp_all
  have p: "request_params L ?rq = map_of (rev ps)"
    using host_get_route(2)[OF assms(1-3) n assms(4) refl prod.collapse[symmetric]] .
  have "route L (vi_env v) ?rq web = (reply, web1)"
    using assms(5) unfolding route_def p by (simp add: visit_request_def Let_def)
  then show ?thesis
    using host_get_route(1)[OF assms(1-3) n assms(4) refl] by (simp add: get_text_def)
qed

lemma xml_lookup:
  assumes "libs_ok L" "list_all is_digit status" "\<forall>(t, s)\<in>set ps. xml_name t \<and> list_all xml_char s"
  obtains doc where "lib_xml L (flat_doc status ps) = Some doc"
    "\<And>t s. t \<noteq> ''root'' \<Longrightarrow> map_of ps t = Some s \<Longrightarrow> s \<noteq> [] \<Longrightarrow> xml_text doc t = Some (trim s)"
proof -
  obtain doc where d: "lib_xml L (flat_doc status ps) = Some doc"
      "\<forall>t. t \<noteq> ''root'' \<longrightarrow> doc t = Option.bind (map_of ps t) (\<lambda>s. if s = [] then None else Some s)"
    using libs_okD(3)[OF assms(1)] assms(2,3) unfolding xml_lib_ok_def by blast
  show ?thesis using that[OF d(1)] d(2) by (simp add: xml_text_def)
qed

lemma paired_xml_doc:
  "hr_body (paired_xml (xml_elem t s)) = flat_doc ''200'' [(''paired'', ''1''), (t, s)]"
  "hr_body (paired_xml []) = flat_doc ''200'' [(''paired'', ''1'')]"
  by (simp_all add: paired_xml_def xml_ok_def flat_doc_def xml_elem_def)

text \<open>The client reads what the host puts into a pairing response.\<close>

lemma read_paired:
  assumes "libs_ok L" "xml_name t" "t \<noteq> ''paired''" "b \<noteq> []"
  obtains doc where "lib_xml L (hr_body (paired_xml (xml_elem t (lib_hex_encode L b)))) = Some doc"
    "xml_text doc ''paired'' = Some ''1''" "xml_text doc t = Some (lib_hex_encode L b)"
proof -
  let ?ps = "[(''paired'', ''1''), (t, lib_hex_encode L b)]"
  have h: "hex_ok L" using libs_okD[OF assms(1)] by simp
  have ok: "\<forall>(t, s)\<in>set ?ps. xml_name t \<and> list_all xml_char s"
    using assms(2) hex_xml[OF h] by (simp add: xml_name_def xml_char_def is_digit_def digit_val_def)
  obtain doc where d: "lib_xml L (flat_doc ''200'' ?ps) = Some doc"
      "\<And>t s. t \<noteq> ''root'' \<Longrightarrow> map_of ?ps t = Some s \<Longrightarrow> s \<noteq> [] \<Longrightarrow> xml_text doc t = Some (trim s)"
    using xml_lookup[OF assms(1) _ ok, of "''200''"] by (auto simp: is_digit_def digit_val_def)
  have "xml_text doc ''paired'' = Some (trim ''1'')" by (rule d(2)) simp_all
  moreover have "trim ''1'' = ''1''" by code_simp
  moreover have "xml_text doc t = Some (trim (lib_hex_encode L b))"
    using assms(2-4) hex_empty[OF h] by (intro d(2)) (auto simp: xml_name_def)
  ultimately show ?thesis using that d(1) hex_trim[OF h] by (simp add: paired_xml_doc)
qed

section \<open>The stages against the host\<close>

abbreviation pair_args :: "web_libs \<Rightarrow> pair_rnd \<Rightarrow> identity \<Rightarrow> nat \<Rightarrow> (string \<times> string) list \<Rightarrow> (string \<times> string) list" where
  "pair_args L rnd idn n ps \<equiv>
     [(''uniqueid'', id_unique_id idn), (''uuid'', lib_hex_encode L (rd_uuid rnd n)), (''devicename'', ''roth''), (''updateState'', ''1'')] @ ps"

lemma pair_query_string: "ps \<noteq> [] \<Longrightarrow> pair_query L rnd idn n (query_string ps) = query_string (pair_args L rnd idn n ps)"
  by (cases ps) (simp_all add: pair_query_def)

lemma plain_pair_args:
  assumes "libs_ok L" "plain (id_unique_id idn)" "\<forall>(k, v)\<in>set ps. plain k \<and> plain v"
  shows "plain_query (pair_args L rnd idn n ps)"
proof -
  have "plain ''uniqueid'' \<and> plain ''uuid'' \<and> plain ''devicename'' \<and> plain ''roth'' \<and> plain ''updateState'' \<and> plain ''1''"
    by (simp add: plain_def plain_char_def)
  then show ?thesis using assms hex_plain[OF libs_okD(4)[OF assms(1)]] by (auto simp: plain_query_def)
qed

lemma host_get_stage:
  assumes "libs_ok L" "lib_host L address" "plain (id_unique_id idn)"
    and "ps \<noteq> []" "\<forall>(k, v)\<in>set ps. plain k \<and> plain v"
    and "port = (if https then sv_https_port (wb_config web) else sv_http_port (wb_config web))"
    and "handle_pair L (vi_env v) (map_of (rev (pair_args L rnd idn n ps))) web = (reply, web1)"
  shows "get_text (host_get L) (url_text https address port ''/pair'' (pair_query L rnd idn n (query_string ps)))
        \<lparr>ww_web = web, ww_visits = v # visits\<rparr> =
      (Inr (hr_body (reply_response reply)), \<lparr>ww_web = web_run L (vi_others v) web1, ww_visits = visits\<rparr>)"
  unfolding pair_query_string[OF assms(4)]
  using host_get_pair[OF assms(1,2) plain_pair_args[OF assms(1,3,5)] assms(6,7)] .

lemma get_doc_text:
  "get_text get url w = (Inr body, w1) \<Longrightarrow> lib_xml L body = Some doc \<Longrightarrow> get_doc L get url w = (Inr doc, w1)"
  by (simp add: get_doc_def se_bind_def se_lift_def)

lemma stage_doc:
  assumes "libs_ok L" "lib_host L address" "plain (id_unique_id idn)"
    and "ps \<noteq> []" "\<forall>(k, v)\<in>set ps. plain k \<and> plain v"
    and "port = (if https then sv_https_port (wb_config web) else sv_http_port (wb_config web))"
    and "handle_pair L (vi_env v) (map_of (rev (pair_args L rnd idn n ps))) web = (reply, web1)"
    and "reply_response reply = paired_xml (xml_elem t (lib_hex_encode L b))" "xml_name t" "t \<noteq> ''paired''" "b \<noteq> []"
  obtains doc where
    "get_doc L (host_get L) (url_text https address port ''/pair'' (pair_query L rnd idn n (query_string ps)))
       \<lparr>ww_web = web, ww_visits = v # visits\<rparr> = (Inr doc, \<lparr>ww_web = web_run L (vi_others v) web1, ww_visits = visits\<rparr>)"
    "xml_text doc ''paired'' = Some ''1''" "xml_text doc t = Some (lib_hex_encode L b)"
proof -
  obtain doc where d: "lib_xml L (hr_body (reply_response reply)) = Some doc"
      "xml_text doc ''paired'' = Some ''1''" "xml_text doc t = Some (lib_hex_encode L b)"
    using read_paired[OF assms(1,9-11)] assms(8) by auto
  show ?thesis using that[OF get_doc_text[OF host_get_stage[OF assms(1-7)] d(1)] d(2,3)] .
qed

lemma xml_names [simp]: "xml_name ''plaincert''" "xml_name ''challengeresponse''" "xml_name ''pairingsecret''" "xml_name ''paired''"
  by (simp_all add: xml_name_def is_digit_def digit_val_def)

lemma port_http: "sv_http_port (wb_config web) = (if False then sv_https_port (wb_config web) else sv_http_port (wb_config web))"
  and port_https: "sv_https_port (wb_config web) = (if True then sv_https_port (wb_config web) else sv_http_port (wb_config web))"
  by simp_all

lemma not_paired_tag: "''plaincert'' \<noteq> ''paired''" "''challengeresponse'' \<noteq> ''paired''" "''pairingsecret'' \<noteq> ''paired''"
  by simp_all

lemma plain_names [simp]: "plain ''phrase''" "plain ''getservercert''" "plain ''pairchallenge''" "plain ''salt''" "plain ''clientcert''"
  "plain ''clientchallenge''" "plain ''serverchallengeresp''" "plain ''clientpairingsecret''"
  by (simp_all add: plain_def plain_char_def)

definition fresh_client :: "pair_rnd \<Rightarrow> identity \<Rightarrow> pending_client" where
  "fresh_client rnd idn =
     \<lparr>pc_id = id_unique_id idn, pc_pem = id_cert_pem idn, pc_salt = rd_salt rnd, pc_key = None, pc_server_secret = None,
      pc_server_challenge = None, pc_client_hash = None\<rparr>"

lemma stage1_host:
  assumes "libs_ok L" "lib_host L address" "plain (id_unique_id idn)" "is_ascii (id_cert_pem idn)" "length (rd_salt rnd) = 16"
    and cert: "is_ascii (cm_server_cert_pem (wb_clients web))" "cm_server_cert_pem (wb_clients web) \<noteq> []"
  shows "stage1 L (host_get L) rnd idn address (sv_http_port (wb_config web)) \<lparr>ww_web = web, ww_visits = v # visits\<rparr> =
    (Inr (cm_server_cert_pem (wb_clients web)),
     \<lparr>ww_web = web_run L (vi_others v) (web\<lparr>wb_clients := start_pairing (fresh_client rnd idn) (wb_clients web)\<rparr>),
      ww_visits = visits\<rparr>)"
proof -
  let ?c = "cm_server_cert_pem (wb_clients web)"
  let ?web1 = "web\<lparr>wb_clients := start_pairing (fresh_client rnd idn) (wb_clients web)\<rparr>"
  let ?ps = "[(''phrase'', ''getservercert''), (''salt'', lib_hex_encode L (rd_salt rnd)),
    (''clientcert'', lib_hex_encode L (as_bytes (id_cert_pem idn)))]"
  have h: "hex_ok L" using libs_okD[OF assms(1)] by simp
  have q: "''phrase=getservercert&salt='' @ lib_hex_encode L (rd_salt rnd) @ ''&clientcert='' @ lib_hex_encode L (as_bytes (id_cert_pem idn))
      = query_string ?ps" by simp
  have pl: "?ps \<noteq> []" "\<forall>(k, v)\<in>set ?ps. plain k \<and> plain v"
    using hex_plain[OF h] by simp_all
  have hp: "handle_pair L (vi_env v) (map_of (rev (pair_args L rnd idn 1 ?ps))) web
      = (AfterPin (paired_xml (xml_elem ''plaincert'' (lib_hex_encode L (as_bytes ?c)))), ?web1)"
    using assms(4,5)
    by (simp add: handle_pair_def pair_get_server_cert_def get_server_cert_args_def hex_decode_encode[OF h] from_utf8_ascii fresh_client_def)
  have ne: "as_bytes ?c \<noteq> []" using cert(2) by (simp add: as_bytes_def)
  obtain doc where
    g: "get_doc L (host_get L) (url_text False address (sv_http_port (wb_config web)) ''/pair'' (pair_query L rnd idn 1 (query_string ?ps)))
      \<lparr>ww_web = web, ww_visits = v # visits\<rparr> = (Inr doc, \<lparr>ww_web = web_run L (vi_others v) ?web1, ww_visits = visits\<rparr>)"
    and d: "xml_text doc ''paired'' = Some ''1''" "xml_text doc ''plaincert'' = Some (lib_hex_encode L (as_bytes ?c))"
    using stage_doc[OF assms(1-3) pl port_http hp reply_response.simps(2) xml_names(1) not_paired_tag(1) ne] by blast
  show ?thesis
    unfolding stage1_def q se_bind_def g
    by (simp add: d hex_arg_def hex_decode_encode[OF h] from_utf8_ascii[OF cert(1)] se_lift_def)
qed

lemma stage2_host:
  assumes "libs_ok L" "lib_host L address" "plain (id_unique_id idn)"
    and p: "cm_pending (wb_clients web) (id_unique_id idn) = Some p" "pc_key p = Some k'" "length k' = 16"
    and cert: "cert_signature L (cm_server_cert_pem (wb_clients web)) = Inr sig"
    and len: "length (we_server_challenge (vi_env v)) = 16" "length (rd_client_challenge rnd) = 16" "length k = 16"
  obtains sc where
    "stage2 L (host_get L) rnd idn address (sv_http_port (wb_config web)) k \<lparr>ww_web = web, ww_visits = v # visits\<rparr> =
       (Inr sc, \<lparr>ww_web = web_run L (vi_others v) (web\<lparr>wb_clients := put_pending (id_unique_id idn)
          (p\<lparr>pc_server_secret := Some (we_server_secret (vi_env v)), pc_server_challenge := Some (we_server_challenge (vi_env v))\<rparr>)
          (wb_clients web)\<rparr>), ww_visits = visits\<rparr>)"
    "length sc = 16" "k = k' \<longrightarrow> sc = we_server_challenge (vi_env v)"
proof -
  let ?uid = "id_unique_id idn" and ?env = "vi_env v"
  let ?web1 = "web\<lparr>wb_clients := put_pending ?uid (p\<lparr>pc_server_secret := Some (we_server_secret ?env),
     pc_server_challenge := Some (we_server_challenge ?env)\<rparr>) (wb_clients web)\<rparr>"
  have h: "hex_ok L" and c: "cipher_ok L" using libs_okD[OF assms(1)] by simp_all
  obtain e where e: "aes_ecb_encrypt L (rd_client_challenge rnd) k = Inr e" "length e = 16"
    using ecb_roundtrip[OF c len(3), of "rd_client_challenge rnd"] len(2) by auto
  obtain x where x: "aes_ecb_decrypt L e k' = Inr x" using ecb_decrypt_total[OF c p(3), of e] e(2) by auto
  define plain where "plain = lib_sha256 L (x @ sig @ we_server_secret ?env) @ we_server_challenge ?env"
  have lp: "length plain = 48" using c len(1) by (simp add: plain_def cipher_ok_def)
  obtain r where r: "aes_ecb_encrypt L plain k' = Inr r" "length r = 48" "aes_ecb_decrypt L r k' = Inr plain"
    using ecb_roundtrip[OF c p(3), of plain] lp by auto
  obtain y where y: "aes_ecb_decrypt L r k = Inr y" "length y = 48" using ecb_decrypt_total[OF c len(3), of r] r(2) by auto
  let ?ps = "[(''clientchallenge'', lib_hex_encode L e)]"
  have q: "''clientchallenge='' @ lib_hex_encode L e = query_string ?ps" by simp
  have pl: "?ps \<noteq> []" "\<forall>(k, v)\<in>set ?ps. Kmc_Pair.plain k \<and> Kmc_Pair.plain v" using hex_plain[OF h] by simp_all
  have hp: "handle_pair L ?env (map_of (rev (pair_args L rnd idn 2 ?ps))) web
      = (Now (paired_xml (xml_elem ''challengeresponse'' (lib_hex_encode L r))), ?web1)"
    using r(1) by (simp add: handle_pair_def pair_client_challenge_def pair_step_def hex_decode_encode[OF h] client_challenge_def p cert x
        plain_def Let_def)
  have ne: "r \<noteq> []" using r(2) by auto
  obtain doc where
    g: "get_doc L (host_get L) (url_text False address (sv_http_port (wb_config web)) ''/pair'' (pair_query L rnd idn 2 (query_string ?ps)))
      \<lparr>ww_web = web, ww_visits = v # visits\<rparr> = (Inr doc, \<lparr>ww_web = web_run L (vi_others v) ?web1, ww_visits = visits\<rparr>)"
    and d: "xml_text doc ''challengeresponse'' = Some (lib_hex_encode L r)"
    using stage_doc[OF assms(1-3) pl port_http hp reply_response.simps(1) xml_names(2) not_paired_tag(2) ne] by blast
  have "stage2 L (host_get L) rnd idn address (sv_http_port (wb_config web)) k \<lparr>ww_web = web, ww_visits = v # visits\<rparr> =
       (Inr (take 16 (drop 32 y)), \<lparr>ww_web = web_run L (vi_others v) ?web1, ww_visits = visits\<rparr>)"
    unfolding stage2_def e(1) crypt_def sum.case se_bind_lift q unfolding se_bind_def g
    by (simp add: d hex_arg_def hex_decode_encode[OF h] se_lift_def se_return_def y)
  moreover have "k = k' \<longrightarrow> take 16 (drop 32 y) = we_server_challenge ?env"
    using r(3) y(1) c len(1) by (auto simp: plain_def cipher_ok_def)
  ultimately show ?thesis using that y(2) by simp
qed

lemma stage3_host:
  assumes "libs_ok L" "lib_host L address" "plain (id_unique_id idn)"
    and p: "cm_pending (wb_clients web) (id_unique_id idn) = Some p" "pc_key p = Some k'" "length k' = 16"
      "pc_server_secret p = Some ss" "length ss = 16"
    and keys: "key_pair_ok L (cm_server_cert_pem (wb_clients web)) (cm_server_key_pem (wb_clients web))"
    and cert: "cert_signature L (id_cert_pem idn) = Inr sig" and len: "length k = 16"
  obtains h where
    "stage3 L (host_get L) rnd idn address (sv_http_port (wb_config web)) k (cm_server_cert_pem (wb_clients web)) sc
       \<lparr>ww_web = web, ww_visits = v # visits\<rparr> =
       (Inr (), \<lparr>ww_web = web_run L (vi_others v) (web\<lparr>wb_clients := put_pending (id_unique_id idn)
          (p\<lparr>pc_client_hash := Some h\<rparr>) (wb_clients web)\<rparr>), ww_visits = visits\<rparr>)"
    "k = k' \<longrightarrow> h = lib_sha256 L (sc @ sig @ rd_client_secret rnd)"
proof -
  let ?uid = "id_unique_id idn"
  have hx: "hex_ok L" and c: "cipher_ok L" using libs_okD[OF assms(1)] by simp_all
  define hash where "hash = lib_sha256 L (sc @ sig @ rd_client_secret rnd)"
  have lh: "length hash = 32" using c by (simp add: hash_def cipher_ok_def)
  obtain e where e: "aes_ecb_encrypt L hash k = Inr e" "length e = 32" "aes_ecb_decrypt L e k = Inr hash"
    using ecb_roundtrip[OF c len, of hash] lh by auto
  obtain x where x: "aes_ecb_decrypt L e k' = Inr x" using ecb_decrypt_total[OF c p(3), of e] e(2) by auto
  let ?web1 = "web\<lparr>wb_clients := put_pending ?uid (p\<lparr>pc_client_hash := Some x\<rparr>) (wb_clients web)\<rparr>"
  obtain s where s: "rsa_sign_sha256 L ss (cm_server_key_pem (wb_clients web)) = Inr s"
      "rsa_verify_cert_sha256 L (cm_server_cert_pem (wb_clients web)) ss s = Inr ()"
    using key_pair_sign[OF keys] by blast
  let ?ps = "[(''serverchallengeresp'', lib_hex_encode L e)]"
  have q: "''serverchallengeresp='' @ lib_hex_encode L e = query_string ?ps" by simp
  have pl: "?ps \<noteq> []" "\<forall>(k, v)\<in>set ?ps. plain k \<and> plain v" using hex_plain[OF hx] by simp_all
  have hp: "handle_pair L (vi_env v) (map_of (rev (pair_args L rnd idn 3 ?ps))) web
      = (Now (paired_xml (xml_elem ''pairingsecret'' (lib_hex_encode L (ss @ s)))), ?web1)"
    by (simp add: handle_pair_def pair_server_challenge_response_def pair_step_def hex_decode_encode[OF hx]
        server_challenge_response_def p x s)
  have ne: "ss @ s \<noteq> []" using p(5) by auto
  obtain doc where
    g: "get_doc L (host_get L) (url_text False address (sv_http_port (wb_config web)) ''/pair'' (pair_query L rnd idn 3 (query_string ?ps)))
      \<lparr>ww_web = web, ww_visits = v # visits\<rparr> = (Inr doc, \<lparr>ww_web = web_run L (vi_others v) ?web1, ww_visits = visits\<rparr>)"
    and d: "xml_text doc ''pairingsecret'' = Some (lib_hex_encode L (ss @ s))"
    using stage_doc[OF assms(1-3) pl port_http hp reply_response.simps(1) xml_names(3) not_paired_tag(3) ne] by blast
  have "stage3 L (host_get L) rnd idn address (sv_http_port (wb_config web)) k (cm_server_cert_pem (wb_clients web)) sc
      \<lparr>ww_web = web, ww_visits = v # visits\<rparr> = (Inr (), \<lparr>ww_web = web_run L (vi_others v) ?web1, ww_visits = visits\<rparr>)"
    unfolding stage3_def cert crypt_def sum.case se_bind_lift hash_def[symmetric] e(1) q unfolding se_bind_def g
    using p(5) by (simp add: d hex_arg_def hex_decode_encode[OF hx] se_lift_def s)
  moreover have "k = k' \<longrightarrow> x = lib_sha256 L (sc @ sig @ rd_client_secret rnd)" using x e(3) by (auto simp: hash_def)
  ultimately show ?thesis by (rule that)
qed

text \<open>
  Stage 4: the client goes on whatever the host answers. When the hash matches, the host records the client, even when the
  state file cannot be written.
\<close>

lemma stage4_host:
  assumes "libs_ok L" "lib_host L address" "plain (id_unique_id idn)"
    and sign: "rsa_sign_sha256 L (rd_client_secret rnd) (id_key_pem idn) = Inr s"
    and ps: "params = map_of (rev (pair_args L rnd idn 4 [(''clientpairingsecret'', lib_hex_encode L (rd_client_secret rnd @ s))]))"
  shows "stage4 L (host_get L) rnd idn address (sv_http_port (wb_config web)) \<lparr>ww_web = web, ww_visits = v # visits\<rparr> =
       (Inr (), \<lparr>ww_web = web_run L (vi_others v) (snd (pair_client_secret L (vi_env v) params web)), ww_visits = visits\<rparr>)"
proof -
  let ?ps = "[(''clientpairingsecret'', lib_hex_encode L (rd_client_secret rnd @ s))]"
  have q: "''clientpairingsecret='' @ lib_hex_encode L (rd_client_secret rnd @ s) = query_string ?ps" by simp
  have pl: "?ps \<noteq> []" "\<forall>(k, v)\<in>set ?ps. plain k \<and> plain v" using hex_plain[OF libs_okD(4)[OF assms(1)]] by simp_all
  have hp: "handle_pair L (vi_env v) (map_of (rev (pair_args L rnd idn 4 ?ps))) web
      = (Now (fst (pair_client_secret L (vi_env v) params web)), snd (pair_client_secret L (vi_env v) params web))"
    unfolding ps by (simp add: handle_pair_def apfst_def map_prod_def split: prod.split)
  show ?thesis
    unfolding stage4_def sign crypt_def sum.case se_bind_lift q unfolding se_bind_def
      host_get_stage[OF assms(1-3) pl port_http hp] by (simp add: se_return_def)
qed

lemma pair_client_secret_records:
  assumes "libs_ok L"
    and p: "cm_pending (wb_clients web) i = Some p" "pc_server_challenge p = Some sc" "pc_pem p = cert"
      "pc_client_hash p = Some (lib_sha256 L (sc @ sig @ secret))"
    and cert: "cert_signature L cert = Inr sig" "cert_fingerprint L cert = Inr fp"
    and s: "length secret = 16" "rsa_verify_cert_sha256 L cert secret s = Inr ()"
    and args: "params ''uniqueid'' = Some i" "params ''clientpairingsecret'' = Some (lib_hex_encode L (secret @ s))"
  shows "cm_clients (wb_clients (snd (pair_client_secret L env params web))) i = Some cert
    \<and> fp \<in> set (cm_fingerprints (wb_clients (snd (pair_client_secret L env params web))))"
proof -
  have "verify_pairing_secret L p (secret @ s) = Inr ()"
    using p cert s by (simp add: verify_pairing_secret_def)
  then have "check_client_pairing_secret L env i (secret @ s) (wb_clients web) =
      (fst (add_paired L env i fp cert (cm_state (wb_clients web))),
       (wb_clients web)\<lparr>cm_state := snd (add_paired L env i fp cert (cm_state (wb_clients web)))\<rparr>)"
    using p cert by (simp add: check_client_pairing_secret_def split: prod.split)
  then show ?thesis
    by (simp add: pair_client_secret_def pair_step_def args hex_decode_encode[OF libs_okD(4)[OF assms(1)]] add_paired_data
        split: sum.split)
qed

lemma stage5_host:
  assumes "libs_ok L" "lib_host L address" "plain (id_unique_id idn)"
  shows "stage5 L (host_get L) rnd idn address (sv_https_port (wb_config web)) \<lparr>ww_web = web, ww_visits = v # visits\<rparr> =
       (Inr (), \<lparr>ww_web = web_run L (vi_others v) web, ww_visits = visits\<rparr>)"
proof -
  let ?ps = "[(''phrase'', ''pairchallenge'')]"
  have q: "''phrase=pairchallenge'' = query_string ?ps" by simp
  have pl: "?ps \<noteq> []" "\<forall>(k, v)\<in>set ?ps. plain k \<and> plain v" by simp_all
  have hp: "handle_pair L (vi_env v) (map_of (rev (pair_args L rnd idn 5 ?ps))) web = (Now (paired_xml []), web)"
    by (simp add: handle_pair_def)
  have ok: "\<forall>(t, s)\<in>set [(''paired'', ''1'')]. xml_name t \<and> list_all xml_char s" by (simp add: xml_char_def)
  have dig: "list_all is_digit ''200''" by (simp add: is_digit_def digit_val_def)
  obtain doc where d: "lib_xml L (flat_doc ''200'' [(''paired'', ''1'')]) = Some doc"
      "\<And>t s. t \<noteq> ''root'' \<Longrightarrow> map_of [(''paired'', ''1'')] t = Some s \<Longrightarrow> s \<noteq> [] \<Longrightarrow> xml_text doc t = Some (trim s)"
    using xml_lookup[OF assms(1) dig ok] by blast
  have "xml_text doc ''paired'' = Some (trim ''1'')" by (rule d(2)) simp_all
  moreover have "trim ''1'' = ''1''" by code_simp
  ultimately have t: "xml_text doc ''paired'' = Some ''1''" by simp
  have x: "lib_xml L (hr_body (reply_response (Now (paired_xml [])))) = Some doc" using d(1) by (simp add: paired_xml_doc)
  show ?thesis
    unfolding stage5_def q se_bind_def get_doc_text[OF host_get_stage[OF assms pl port_https hp] x] by (simp add: t se_return_def)
qed

section \<open>Pairing end to end\<close>

lemma after_foreign:
  assumes "foreign L j es"
  shows "cm_pending (wb_clients (web_run L es w)) j = cm_pending (wb_clients w) j"
    "cm_clients (wb_clients (web_run L es w)) j = cm_clients (wb_clients w) j"
    "cm_server_cert_pem (wb_clients (web_run L es w)) = cm_server_cert_pem (wb_clients w)"
    "cm_server_key_pem (wb_clients (web_run L es w)) = cm_server_key_pem (wb_clients w)"
    "wb_config (web_run L es w) = wb_config w"
    "set (cm_fingerprints (wb_clients w)) \<subseteq> set (cm_fingerprints (wb_clients (web_run L es w)))"
  using web_run_foreign[OF assms, of w] web_run_keeps[of w L es] by (simp_all add: web_le_def)

text \<open>The user types a PIN for client \<open>i\<close> into the host's page.\<close>

definition pin_entry :: "web_libs \<Rightarrow> http_request \<Rightarrow> string \<Rightarrow> string \<Rightarrow> bool" where
  "pin_entry L rq i pin \<longleftrightarrow>
     \<not> hq_https rq \<and> hq_method rq = POST \<and> hq_path rq = ''/submit-pin''
     \<and> (\<exists>b. hq_body rq = Some b \<and> form_map (lib_form L b) ''uniqueid'' = Some i \<and> form_map (lib_form L b) ''pin'' = Some pin)"

lemma web_step_pin:
  assumes "pin_entry L rq i pin" "cm_pending (wb_clients w) i = Some p"
  shows "web_step L (env, rq) w =
    w\<lparr>wb_clients := put_pending i (p\<lparr>pc_key := Some (derive_key L (pc_salt p) pin)\<rparr>) (wb_clients w)\<rparr>"
  using assms by (auto simp: pin_entry_def web_step_def route_def submit_pin_def register_pin_def Let_def)

lemma put_pending_simps [simp]:
  "cm_pending (put_pending i p c) i = Some p" "cm_clients (put_pending i p c) = cm_clients c"
  "cm_server_cert_pem (put_pending i p c) = cm_server_cert_pem c" "cm_server_key_pem (put_pending i p c) = cm_server_key_pem c"
  by (simp_all add: put_pending_def)

text \<open>After stage 1 with a PIN entry among the requests in between, the host holds the key of that PIN.\<close>

lemma pending_after_pin:
  assumes "pin_entry L rq (id_unique_id idn) pin'" "foreign L (id_unique_id idn) xs" "foreign L (id_unique_id idn) ys"
    and "web1 = web_run L (xs @ (env, rq) # ys) (web\<lparr>wb_clients := start_pairing (fresh_client rnd idn) (wb_clients web)\<rparr>)"
  shows "cm_pending (wb_clients web1) (id_unique_id idn) =
      Some ((fresh_client rnd idn)\<lparr>pc_key := Some (derive_key L (rd_salt rnd) pin')\<rparr>)"
    "cm_server_cert_pem (wb_clients web1) = cm_server_cert_pem (wb_clients web)"
    "cm_server_key_pem (wb_clients web1) = cm_server_key_pem (wb_clients web)" "wb_config web1 = wb_config web"
proof -
  define w0 where "w0 = web_run L xs (web\<lparr>wb_clients := start_pairing (fresh_client rnd idn) (wb_clients web)\<rparr>)"
  have "cm_pending (wb_clients w0) (id_unique_id idn) = Some (fresh_client rnd idn)"
    using after_foreign(1)[OF assms(2)] by (simp add: w0_def start_pairing_def fresh_client_def)
  then have "web1 = web_run L ys (w0\<lparr>wb_clients := put_pending (id_unique_id idn)
      ((fresh_client rnd idn)\<lparr>pc_key := Some (derive_key L (rd_salt rnd) pin')\<rparr>) (wb_clients w0)\<rparr>)"
    using web_step_pin[OF assms(1)] assms(4) by (simp add: w0_def fresh_client_def)
  then show "cm_pending (wb_clients web1) (id_unique_id idn) =
      Some ((fresh_client rnd idn)\<lparr>pc_key := Some (derive_key L (rd_salt rnd) pin')\<rparr>)"
    "cm_server_cert_pem (wb_clients web1) = cm_server_cert_pem (wb_clients web)"
    "cm_server_key_pem (wb_clients web1) = cm_server_key_pem (wb_clients web)" "wb_config web1 = wb_config web"
    using after_foreign[OF assms(3)] after_foreign[OF assms(2)] by (simp_all add: w0_def start_pairing_def)
qed

lemma pairing_run:
  fixes idn :: identity and web :: webserver
  assumes libs: "libs_ok L" "lib_host L address" "plain (id_unique_id idn)"
    and keys: "key_pair_ok L (id_cert_pem idn) (id_key_pem idn)"
      "key_pair_ok L (cm_server_cert_pem (wb_clients web)) (cm_server_key_pem (wb_clients web))"
    and len: "length (rd_salt rnd) = 16" "length (rd_client_challenge rnd) = 16" "length (rd_client_secret rnd) = 16"
      "length (we_server_secret (vi_env v2)) = 16" "length (we_server_challenge (vi_env v2)) = 16"
    and pin: "pin_entry L rq (id_unique_id idn) pin'" "vi_others v1 = xs @ (env, rq) # ys"
    and frgn: "foreign L (id_unique_id idn) (xs @ ys @ concat (map vi_others [v2, v3, v4, v5]))"
  shows "\<exists>web'. client_pair L (host_get L) rnd idn address (sv_http_port (wb_config web)) (sv_https_port (wb_config web)) pin
        \<lparr>ww_web = web, ww_visits = [v1, v2, v3, v4, v5]\<rparr> =
      (Inr \<lparr>ph_address = address, ph_http_port = sv_http_port (wb_config web), ph_https_port = sv_https_port (wb_config web),
            ph_rtsp_port = DEFAULT_RTSP_PORT, ph_server_cert_pem = cm_server_cert_pem (wb_clients web)\<rparr>,
       \<lparr>ww_web = web', ww_visits = []\<rparr>)
    \<and> (pin' = pin \<longrightarrow> cm_clients (wb_clients web') (id_unique_id idn) = Some (id_cert_pem idn)
         \<and> (\<exists>fp\<in>set (cm_fingerprints (wb_clients web')). cert_fingerprint L (id_cert_pem idn) = Inr fp))"
proof -
  let ?uid = "id_unique_id idn" and ?port = "sv_http_port (wb_config web)"
  let ?k = "derive_key L (rd_salt rnd) pin" and ?k' = "derive_key L (rd_salt rnd) pin'"
  have c: "cipher_ok L" using libs_okD[OF libs(1)] by simp
  have kl: "length ?k = 16" "length ?k' = 16" using c by simp_all
  have f: "foreign L ?uid xs" "foreign L ?uid ys" "foreign L ?uid (vi_others v2)" "foreign L ?uid (vi_others v3)"
      "foreign L ?uid (vi_others v4)" "foreign L ?uid (vi_others v5)"
    using frgn by (auto simp: foreign_def)
  obtain ssig where ssig: "cert_signature L (cm_server_cert_pem (wb_clients web)) = Inr ssig" using key_pair_cert[OF keys(2)] .
  obtain csig fp where csig: "cert_signature L (id_cert_pem idn) = Inr csig" and fp: "cert_fingerprint L (id_cert_pem idn) = Inr fp"
    using key_pair_cert[OF keys(1)] .
  obtain s where s: "rsa_sign_sha256 L (rd_client_secret rnd) (id_key_pem idn) = Inr s"
      "rsa_verify_cert_sha256 L (id_cert_pem idn) (rd_client_secret rnd) s = Inr ()"
    using key_pair_sign[OF keys(1)] .
  have asc: "is_ascii (id_cert_pem idn)" "is_ascii (cm_server_cert_pem (wb_clients web))" "cm_server_cert_pem (wb_clients web) \<noteq> []"
    using keys by (simp_all add: key_pair_ok_def)
  define p1 where "p1 = (fresh_client rnd idn)\<lparr>pc_key := Some ?k'\<rparr>"
  define w1 where "w1 = web_run L (vi_others v1) (web\<lparr>wb_clients := start_pairing (fresh_client rnd idn) (wb_clients web)\<rparr>)"
  note w1 = pending_after_pin[OF pin(1) f(1,2) w1_def[unfolded pin(2)], folded p1_def]
  note st1 = stage1_host[OF libs asc(1) len(1) asc(2,3), of v1 "[v2, v3, v4, v5]", folded w1_def]
  have p1: "pc_key p1 = Some ?k'" by (simp add: p1_def)
  obtain sc where st2: "stage2 L (host_get L) rnd idn address (sv_http_port (wb_config w1)) ?k \<lparr>ww_web = w1, ww_visits = v2 # [v3, v4, v5]\<rparr> =
       (Inr sc, \<lparr>ww_web = web_run L (vi_others v2) (w1\<lparr>wb_clients := put_pending ?uid
          (p1\<lparr>pc_server_secret := Some (we_server_secret (vi_env v2)), pc_server_challenge := Some (we_server_challenge (vi_env v2))\<rparr>)
          (wb_clients w1)\<rparr>), ww_visits = [v3, v4, v5]\<rparr>)"
    and sc: "length sc = 16" "?k = ?k' \<longrightarrow> sc = we_server_challenge (vi_env v2)"
    using stage2_host[OF libs w1(1) p1 kl(2) ssig[folded w1(2)] len(5,2) kl(1)] by blast
  define p2 where "p2 = p1\<lparr>pc_server_secret := Some (we_server_secret (vi_env v2)), pc_server_challenge := Some (we_server_challenge (vi_env v2))\<rparr>"
  define w2 where "w2 = web_run L (vi_others v2) (w1\<lparr>wb_clients := put_pending ?uid p2 (wb_clients w1)\<rparr>)"
  have w2: "cm_pending (wb_clients w2) ?uid = Some p2" "cm_server_cert_pem (wb_clients w2) = cm_server_cert_pem (wb_clients web)"
      "cm_server_key_pem (wb_clients w2) = cm_server_key_pem (wb_clients web)" "wb_config w2 = wb_config web"
    using after_foreign[OF f(3)] w1 by (simp_all add: w2_def)
  have p2: "pc_key p2 = Some ?k'" "pc_server_secret p2 = Some (we_server_secret (vi_env v2))" by (simp_all add: p2_def p1_def)
  obtain h where st3: "stage3 L (host_get L) rnd idn address (sv_http_port (wb_config w2)) ?k (cm_server_cert_pem (wb_clients w2)) sc
       \<lparr>ww_web = w2, ww_visits = v3 # [v4, v5]\<rparr> =
       (Inr (), \<lparr>ww_web = web_run L (vi_others v3) (w2\<lparr>wb_clients := put_pending ?uid
          (p2\<lparr>pc_client_hash := Some h\<rparr>) (wb_clients w2)\<rparr>), ww_visits = [v4, v5]\<rparr>)"
    and h: "?k = ?k' \<longrightarrow> h = lib_sha256 L (sc @ csig @ rd_client_secret rnd)"
    using stage3_host[OF libs w2(1) p2(1) kl(2) p2(2) len(4) keys(2)[folded w2(2,3)] csig kl(1)] by blast
  define p3 where "p3 = p2\<lparr>pc_client_hash := Some h\<rparr>"
  define w3 where "w3 = web_run L (vi_others v3) (w2\<lparr>wb_clients := put_pending ?uid p3 (wb_clients w2)\<rparr>)"
  have w3: "cm_pending (wb_clients w3) ?uid = Some p3" "wb_config w3 = wb_config web"
    using after_foreign[OF f(4)] w2 by (simp_all add: w3_def)
  let ?ps = "map_of (rev (pair_args L rnd idn 4 [(''clientpairingsecret'', lib_hex_encode L (rd_client_secret rnd @ s))]))"
  define w4' where "w4' = snd (pair_client_secret L (vi_env v4) ?ps w3)"
  define w4 where "w4 = web_run L (vi_others v4) w4'"
  note st4 = stage4_host[OF libs s(1) refl, of w3 v4 "[v5]", folded w4'_def, folded w4_def]
  have w4': "wb_config w4' = wb_config web"
    unfolding w4'_def pair_client_secret_def
    using pair_step_frame[of "check_client_pairing_secret L (vi_env v4)", OF check_client_pairing_secret_frame] w3(2) by simp
  have w4: "wb_config w4 = wb_config web" using after_foreign(5)[OF f(5)] w4' by (simp add: w4_def)
  define w5 where "w5 = web_run L (vi_others v5) w4"
  note st5 = stage5_host[OF libs, of rnd w4 v5 "[]", folded w5_def]
  have "client_pair L (host_get L) rnd idn address ?port (sv_https_port (wb_config web)) pin
        \<lparr>ww_web = web, ww_visits = [v1, v2, v3, v4, v5]\<rparr> =
      (Inr \<lparr>ph_address = address, ph_http_port = ?port, ph_https_port = sv_https_port (wb_config web),
            ph_rtsp_port = DEFAULT_RTSP_PORT, ph_server_cert_pem = cm_server_cert_pem (wb_clients web)\<rparr>,
       \<lparr>ww_web = w5, ww_visits = []\<rparr>)"
    using st1 st2[folded p2_def, folded w2_def] st3[folded p3_def, folded w3_def] st4 st5
    by (simp add: client_pair_def Let_def se_bind_def se_return_def w1(4) w2(2,4) w3(2) w4)
  moreover have "cm_clients (wb_clients w5) ?uid = Some (id_cert_pem idn) \<and> fp \<in> set (cm_fingerprints (wb_clients w5))" if "pin' = pin"
  proof -
    have p3: "pc_server_challenge p3 = Some sc" "pc_pem p3 = id_cert_pem idn" "pc_client_hash p3 = Some (lib_sha256 L (sc @ csig @ rd_client_secret rnd))"
      using sc(2) h that by (simp_all add: p3_def p2_def p1_def fresh_client_def)
    have "cm_clients (wb_clients w4') ?uid = Some (id_cert_pem idn) \<and> fp \<in> set (cm_fingerprints (wb_clients w4'))"
      unfolding w4'_def by (rule pair_client_secret_records[OF libs(1) w3(1) p3 csig fp len(3) s(2)]) simp_all
    then show ?thesis using after_foreign[OF f(5), of w4'] after_foreign[OF f(6), of w4] by (auto simp: w4_def w5_def)
  qed
  ultimately show ?thesis using fp by blast
qed

section \<open>Launch end to end\<close>

lemma show_nat_digits: "c \<in> set (show_nat n) \<Longrightarrow> c \<in> set ''0123456789''"
  using show_nat_chars digit_cases by blast

lemma show_nat_plain [simp]: "plain (show_nat n)"
  using show_nat_digits by (fastforce simp: plain_def plain_char_def list_all_iff)

lemma show_int_plain [simp]: "plain (show_int i)"
  using show_nat_plain[unfolded plain_def] by (simp add: show_int_def plain_def plain_char_def)

lemma plain_append [simp]: "plain (s @ t) \<longleftrightarrow> plain s \<and> plain t"
  by (simp add: plain_def)

lemma parse_mode_show:
  fixes w h f :: u32
  shows "parse_mode (Some (show_nat (unat w) @ ''x'' @ show_nat (unat h) @ ''x'' @ show_nat (unat f))) = (w, h, f)"
proof -
  have nx: "CHR ''x'' \<notin> set (show_nat n)" for n using show_nat_digits[of "CHR ''x''" n] by auto
  have "split_char (CHR ''x'') (show_nat (unat w) @ ''x'' @ show_nat (unat h) @ ''x'' @ show_nat (unat f))
      = [show_nat (unat w), show_nat (unat h), show_nat (unat f)]"
    using split_char_append[OF nx] split_char_none[OF nx] by simp
  moreover have "int (unat v) \<le> 4294967295" for v :: u32 using uint_bounded[of v] unfolding uint_nat by simp
  ultimately show ?thesis by (simp add: parse_mode_def)
qed

definition client_session :: "bytes \<Rightarrow> bytes \<Rightarrow> u32 \<Rightarrow> u32 \<Rightarrow> u32 \<Rightarrow> launch_session" where
  "client_session rikey iv4 width height fps =
     \<lparr>ls_remote_input_key = rikey, ls_remote_input_key_id = sint (u32_from_be_bytes (iv4 ! 0) (iv4 ! 1) (iv4 ! 2) (iv4 ! 3)),
      ls_width = width, ls_height = height, ls_refresh_rate = fps\<rparr>"

definition session_url :: "string option \<Rightarrow> webserver \<Rightarrow> string" where
  "session_url ip web = ''rtsp://'' @ or_default ''127.0.0.1'' ip @ '':'' @ show_u16 (sv_rtsp_port (wb_config web))"

lemma sint_u32_range: "- (2 ^ 63) \<le> sint (w :: u32)" "sint (w :: u32) \<le> 2 ^ 63 - 1"
  using sint_greater_eq[of w] sint_less[of w] by simp_all

lemma launch_host:
  assumes "hex_ok L" "params ''mode'' = Some (show_nat (unat width) @ ''x'' @ show_nat (unat height) @ ''x'' @ show_nat (unat fps))"
    and "params ''rikey'' = Some (lib_hex_encode L rikey)"
    and "params ''rikeyid'' = Some (show_int (sint (u32_from_be_bytes (iv4 ! 0) (iv4 ! 1) (iv4 ! 2) (iv4 ! 3))))"
  shows "launch L params ip web =
    (xml_ok (flat_doc ''200'' [(''gamesession'', ''1''), (''sessionUrl0'', session_url ip web)]),
     web\<lparr>wb_session := Some (client_session rikey iv4 width height fps)\<rparr>)"
proof -
  let ?id = "sint (u32_from_be_bytes (iv4 ! 0) (iv4 ! 1) (iv4 ! 2) (iv4 ! 3))"
  have m: "parse_mode (params ''mode'') = (width, height, fps)" by (simp only: assms(2) parse_mode_show)
  have k: "Option.bind (params ''rikey'') (lib_hex_decode L) = Some rikey" by (simp add: assms(3) hex_decode_encode[OF assms(1)])
  have i: "Option.bind (params ''rikeyid'') (parse_int (- (2 ^ 63)) (2 ^ 63 - 1)) = Some ?id"
    unfolding assms(4) using sint_u32_range by simp
  show ?thesis
    unfolding launch_def m k i Let_def prod.case option.case
    by (cases ip) (simp_all add: client_session_def session_set_def flat_doc_def xml_elem_def session_url_def)
qed

lemma session_url_chars:
  assumes "list_all (\<lambda>c. xml_char c \<and> \<not> is_space c) (or_default [] ip)"
  shows "\<forall>c\<in>set (session_url ip web). xml_char c \<and> \<not> is_space c"
proof -
  have "xml_char c \<and> \<not> is_space c" if "c \<in> set (show_nat n)" for c n
    using show_nat_digits[OF that] by (auto simp: xml_char_def is_space_def)
  moreover have "\<forall>c\<in>set (or_default ''127.0.0.1'' ip). xml_char c \<and> \<not> is_space c"
    using assms by (cases ip) (simp_all add: list_all_iff xml_char_def is_space_def)
  ultimately show ?thesis by (auto simp: session_url_def show_u16_def xml_char_def is_space_def)
qed

lemma launch_run:
  assumes libs: "libs_ok L" "lib_host L (ph_address host)" "plain (id_unique_id idn)"
    and port: "ph_https_port host = sv_https_port (wb_config web)"
    and ip: "list_all (\<lambda>c. xml_char c \<and> \<not> is_space c) (or_default [] (vi_local v))"
    and len: "length iv4 = 4"
  shows "client_launch L (host_get L) rikey iv4 uuid idn host width height fps resume \<lparr>ww_web = web, ww_visits = v # visits\<rparr> =
      (Inr \<lparr>lr_rtsp_session_url = session_url (vi_local v) web, lr_rikey = rikey, lr_rikey_iv = iv4 @ replicate 12 0\<rparr>,
       \<lparr>ww_web = web_run L (vi_others v) (web\<lparr>wb_session := Some (client_session rikey iv4 width height fps)\<rparr>), ww_visits = visits\<rparr>)"
proof -
  let ?num = "\<lambda>w :: u32. show_nat (unat w)"
  let ?id = "sint (u32_from_be_bytes (iv4 ! 0) (iv4 ! 1) (iv4 ! 2) (iv4 ! 3))"
  let ?mode = "?num width @ ''x'' @ ?num height @ ''x'' @ ?num fps"
  let ?name = "if resume then ''resume'' else ''launch''"
  let ?ps = "[(''uniqueid'', id_unique_id idn), (''uuid'', lib_hex_encode L uuid), (''appid'', ''1''), (''mode'', ?mode),
    (''additionalStates'', ''1''), (''sops'', ''0''), (''rikey'', lib_hex_encode L rikey), (''rikeyid'', show_int ?id),
    (''localAudioPlayMode'', ''0''), (''surroundAudioInfo'', ''196610''), (''remoteControllersBitmap'', ''0''), (''gcmap'', ''0''),
    (''gcpersist'', ''0''), (''corever'', ''1'')]"
  have hx: "hex_ok L" using libs_okD[OF libs(1)] by simp
  have idx: "(iv4 @ replicate 12 0) ! 0 = iv4 ! 0" "(iv4 @ replicate 12 0) ! 1 = iv4 ! 1"
      "(iv4 @ replicate 12 0) ! 2 = iv4 ! 2" "(iv4 @ replicate 12 0) ! 3 = iv4 ! 3"
    using len by (simp_all add: nth_append)
  have q: "''uniqueid='' @ id_unique_id idn @ ''&uuid='' @ lib_hex_encode L uuid @ ''&appid=1&mode='' @ ?num width @ ''x'' @ ?num height
      @ ''x'' @ ?num fps @ ''&additionalStates=1&sops=0&rikey='' @ lib_hex_encode L rikey @ ''&rikeyid='' @ show_int ?id
      @ ''&localAudioPlayMode=0&surroundAudioInfo=196610&remoteControllersBitmap=0&gcmap=0&gcpersist=0&corever=1'' = query_string ?ps"
    by simp
  have pq: "plain_query ?ps"
    using libs(3) hex_plain[OF hx] by (simp add: plain_query_def) (simp add: plain_def plain_char_def show_nat_plain[unfolded plain_def])
  have name: "?name \<noteq> []" "list_all (\<lambda>c. c \<in> set ''abcdefghijklmnopqrstuvwxyz'') ?name" by simp_all
  let ?rq = "visit_request v \<lparr>up_https = True, up_port = unat (ph_https_port host), up_path = ''/'' @ ?name, up_query = query_string ?ps\<rparr>"
  have pe: "ph_https_port host = (if True then sv_https_port (wb_config web) else sv_http_port (wb_config web))" using port by simp
  have params: "request_params L ?rq = map_of (rev ?ps)"
    using host_get_route(2)[OF libs(1,2) pq name pe refl prod.collapse[symmetric]] .
  let ?doc = "[(''gamesession'', ''1''), (''sessionUrl0'', session_url (vi_local v) web)]"
  have rt: "route L (vi_env v) ?rq web = (Now (xml_ok (flat_doc ''200'' ?doc)), web\<lparr>wb_session := Some (client_session rikey iv4 width height fps)\<rparr>)"
  proof -
    have "map_of (rev ?ps) ''mode'' = Some ?mode" "map_of (rev ?ps) ''rikey'' = Some (lib_hex_encode L rikey)"
        "map_of (rev ?ps) ''rikeyid'' = Some (show_int ?id)" by simp_all
    note l = launch_host[OF hx this, of "vi_local v" web]
    define rq where "rq = ?rq"
    have rq: "hq_https rq" "hq_method rq = GET" "hq_path rq = ''/'' @ ?name" "hq_local rq = vi_local v" "request_params L rq = map_of (rev ?ps)"
      using params by (simp_all add: rq_def visit_request_def)
    have "route L (vi_env v) rq web = apfst Now (launch L (request_params L rq) (hq_local rq) web)"
      using rq(1-3) by (simp add: route_def require_paired_def Let_def)
    then show ?thesis unfolding rq(4,5) l by (simp add: rq_def)
  qed
  have chars: "\<forall>c\<in>set (session_url (vi_local v) web). xml_char c \<and> \<not> is_space c" by (rule session_url_chars[OF ip])
  have ok: "\<forall>(t, s)\<in>set ?doc. xml_name t \<and> list_all xml_char s"
    using chars by (simp add: list_all_iff xml_char_def xml_name_def is_digit_def digit_val_def)
  have dig: "list_all is_digit ''200''" by (simp add: is_digit_def digit_val_def)
  obtain doc where d: "lib_xml L (flat_doc ''200'' ?doc) = Some doc"
      "\<And>t s. t \<noteq> ''root'' \<Longrightarrow> map_of ?doc t = Some s \<Longrightarrow> s \<noteq> [] \<Longrightarrow> xml_text doc t = Some (trim s)"
    using xml_lookup[OF libs(1) dig ok] by blast
  have "xml_text doc ''sessionUrl0'' = Some (trim (session_url (vi_local v) web))"
    by (rule d(2)) (simp_all add: session_url_def)
  then have t: "xml_text doc ''sessionUrl0'' = Some (session_url (vi_local v) web)"
    using chars by (simp add: trim_no_space)
  have path: "(if resume then ''/resume'' else ''/launch'') = ''/'' @ ?name" by simp
  have "get_text (host_get L) (url_text True (ph_address host) (ph_https_port host) (''/'' @ ?name) (query_string ?ps))
      \<lparr>ww_web = web, ww_visits = v # visits\<rparr> = (Inr (flat_doc ''200'' ?doc),
       \<lparr>ww_web = web_run L (vi_others v) (web\<lparr>wb_session := Some (client_session rikey iv4 width height fps)\<rparr>), ww_visits = visits\<rparr>)"
    using host_get_route(1)[OF libs(1,2) pq name pe refl rt] by (simp add: get_text_def xml_ok_def)
  note g = get_doc_text[OF this d(1)]
  show ?thesis
    unfolding client_launch_def Let_def idx path q unfolding se_bind_def g
    by (simp add: t se_lift_def se_return_def)
qed

text \<open>The session stays until the next launch.\<close>

lemma session_kept:
  assumes "\<forall>e\<in>set es. hq_path (snd e) \<notin> {''/launch'', ''/resume''}"
  shows "wb_session (web_run L es w) = wb_session w"
  using assms
proof (induction es arbitrary: w)
  case (Cons e es)
  then have "wb_session (web_step L e w) = wb_session w" using route_session[of "snd e"] by (simp add: web_step_def)
  then show ?case using Cons by simp
qed simp

section \<open>Server query\<close>

text \<open>The client finds every host it asks paired, whatever the host knows of it.\<close>

lemma escape_xml_plain:
  assumes "list_all (\<lambda>c. xml_char c \<and> c \<noteq> CHR 0x22) s"
  shows "escape_xml s = s"
proof -
  have "replace_char c r t = t" if "c \<notin> set t" for c r t
    using that by (induction t) (auto simp: replace_char_def)
  moreover have "CHR ''&'' \<notin> set s" "CHR ''<'' \<notin> set s" "CHR ''>'' \<notin> set s" "CHR 0x22 \<notin> set s"
    using assms by (auto simp: list_all_iff xml_char_def)
  ultimately show ?thesis by (simp add: escape_xml_def)
qed

definition config_plain :: "server_config \<Rightarrow> string option \<Rightarrow> bool" where
  "config_plain cfg ip \<longleftrightarrow>
     list_all (\<lambda>c. xml_char c \<and> c \<noteq> CHR 0x22) (sv_name cfg @ sv_unique_id cfg @ or_default [] ip)"

lemma show_u16_xml: "list_all xml_char (show_u16 p)" and show_u16_trim: "trim (show_u16 p) = show_u16 p"
proof -
  have "xml_char c" if "c \<in> set (show_u16 p)" for c
    using show_nat_digits that by (fastforce simp: xml_char_def show_u16_def)
  then show "list_all xml_char (show_u16 p)" by (simp add: list_all_iff)
  show "trim (show_u16 p) = show_u16 p" using trim_no_space[OF show_nat_no_space] by (simp add: show_u16_def)
qed

lemma list_all_pairs: "list_all P (map fst ps) \<Longrightarrow> list_all Q (map snd ps) \<Longrightarrow> \<forall>(t, s)\<in>set ps. P t \<and> Q s"
  by (induction ps) auto

lemma server_info_read:
  assumes "libs_ok L" "config_plain (wb_config w) ip"
  obtains doc where "lib_xml L (hr_body (server_info ip w)) = Some doc"
    "parse_server_info dflt doc = \<lparr>si_app_version = ''7.1.431.-1'', si_gfe_version = ''3.23.0.74'', si_pair_status = True,
       si_current_game = 0, si_https_port = sv_https_port (wb_config w), si_codec_mode_support = 1\<rparr>"
proof -
  let ?cfg = "wb_config w"
  let ?ps = "[(''hostname'', sv_name ?cfg), (''appversion'', ''7.1.431.-1''), (''GfeVersion'', ''3.23.0.74''), (''uniqueid'', sv_unique_id ?cfg),
    (''HttpsPort'', show_u16 (sv_https_port ?cfg)), (''ExternalPort'', show_u16 (sv_http_port ?cfg)), (''mac'', ''00:00:00:00:00:00''),
    (''MaxLumaPixelsHEVC'', ''0''), (''LocalIP'', or_default [] ip), (''ServerCodecModeSupport'', ''1''), (''SupportedDisplayMode'', []),
    (''PairStatus'', ''1''), (''currentgame'', ''0''), (''state'', ''KMC_SERVER_FREE'')]"
  let ?P = "\<lambda>c. xml_char c \<and> c \<noteq> CHR 0x22"
  have P: "list_all ?P (sv_name ?cfg)" "list_all ?P (sv_unique_id ?cfg)" "list_all ?P (or_default [] ip)"
    using assms(2) unfolding config_plain_def list_all_append by simp_all
  have plain: "list_all xml_char (sv_name ?cfg)" "list_all xml_char (sv_unique_id ?cfg)" "list_all xml_char (or_default [] ip)"
      "escape_xml (sv_name ?cfg) = sv_name ?cfg" "escape_xml (or_default [] ip) = or_default [] ip"
    using P escape_xml_plain[OF P(1)] escape_xml_plain[OF P(3)] by (simp_all add: list_all_iff)
  have body: "hr_body (server_info ip w) = flat_doc ''200'' ?ps"
    using plain(4,5)
    by (cases ip) (simp_all add: server_info_def flat_doc_def xml_ok_def SERVERINFO_APP_VERSION_def SERVERINFO_GFE_VERSION_def Let_def)
  have ok: "\<forall>(t, s)\<in>set ?ps. xml_name t \<and> list_all xml_char s"
  proof -
    have "list_all xml_name (map fst ?ps)" unfolding list.map fst_conv by code_simp
    moreover have "list_all (list_all xml_char) (map snd ?ps)"
      using plain(1-3) show_u16_xml unfolding list.map snd_conv by (simp add: xml_char_def)
    ultimately show ?thesis by (rule list_all_pairs)
  qed
  have dig: "list_all is_digit ''200''" by (simp add: is_digit_def digit_val_def)
  obtain doc where d: "lib_xml L (flat_doc ''200'' ?ps) = Some doc"
      "\<And>t s. t \<noteq> ''root'' \<Longrightarrow> map_of ?ps t = Some s \<Longrightarrow> s \<noteq> [] \<Longrightarrow> xml_text doc t = Some (trim s)"
    using xml_lookup[OF assms(1) dig ok] by blast
  have "xml_text doc ''appversion'' = Some (trim ''7.1.431.-1'')" "xml_text doc ''GfeVersion'' = Some (trim ''3.23.0.74'')"
      "xml_text doc ''PairStatus'' = Some (trim ''1'')" "xml_text doc ''currentgame'' = Some (trim ''0'')"
      "xml_text doc ''HttpsPort'' = Some (trim (show_u16 (sv_https_port ?cfg)))"
      "xml_text doc ''ServerCodecModeSupport'' = Some (trim ''1'')"
    by (rule d(2); simp add: show_u16_def)+
  moreover have "trim ''7.1.431.-1'' = ''7.1.431.-1''" "trim ''3.23.0.74'' = ''3.23.0.74''" "trim ''1'' = ''1''" "trim ''0'' = ''0''"
    by code_simp+
  moreover have "int (unat (sv_https_port ?cfg)) \<le> 65535" using uint_bounded[of "sv_https_port ?cfg"] unfolding uint_nat by simp
  moreover have "parse_i32 ''1'' = Some 1" "parse_int (- (2 ^ 63)) (2 ^ 63 - 1) ''0'' = Some 0" by code_simp+
  ultimately have "parse_server_info dflt doc = \<lparr>si_app_version = ''7.1.431.-1'', si_gfe_version = ''3.23.0.74'', si_pair_status = True,
       si_current_game = 0, si_https_port = sv_https_port ?cfg, si_codec_mode_support = 1\<rparr>"
    using show_u16_trim[of "sv_https_port ?cfg"] by (simp add: parse_server_info_def) (simp add: show_u16_def)
  then show ?thesis using that d(1) body by simp
qed

end
