(* ===== verification/Kmc_WebLibs.thy ===== *)
theory Kmc_WebLibs
  imports Kmc_Pair
begin

text \<open>
  Concrete functions in place of the crates of \<open>web_libs\<close>, which meet \<^term>\<open>libs_ok\<close>: hexadecimal and the parsers are written
  out for the plain inputs the laws speak of; hash, cipher and signature are toys of the right shape.
\<close>

section \<open>Hexadecimal\<close>

definition hex_digit :: "nat \<Rightarrow> char" where
  "hex_digit n = ''0123456789abcdef'' ! n"

definition hex_val :: "char \<Rightarrow> nat option" where
  "hex_val c = (let n = (of_char c :: nat) in
     if 48 \<le> n \<and> n \<le> 57 then Some (n - 48) else if 97 \<le> n \<and> n \<le> 102 then Some (n - 87) else None)"

definition demo_hex_encode :: "bytes \<Rightarrow> string" where
  "demo_hex_encode bs = concat (map (\<lambda>b. [hex_digit (unat b div 16), hex_digit (unat b mod 16)]) bs)"

fun demo_hex_decode :: "string \<Rightarrow> bytes option" where
  "demo_hex_decode [] = Some []"
| "demo_hex_decode [c] = None"
| "demo_hex_decode (c # d # s) =
     (case (hex_val c, hex_val d, demo_hex_decode s) of
        (Some x, Some y, Some bs) \<Rightarrow> Some (of_nat (x * 16 + y) # bs)
      | _ \<Rightarrow> None)"

lemma hex_digit_cases: "(n :: nat) < 16 \<Longrightarrow> n \<in> {0, 1, 2, 3, 4, 5, 6, 7, 8, 9, 10, 11, 12, 13, 14, 15}"
  by simp arith

lemma hex_val_digit: "n < 16 \<Longrightarrow> hex_val (hex_digit n) = Some n"
  and hex_digit_char: "n < 16 \<Longrightarrow> hex_digit n \<in> set ''0123456789abcdef''"
proof -
  show "hex_val (hex_digit n) = Some n" if "n < 16"
    using hex_digit_cases[OF that] by (elim insertE emptyE; simp only:; code_simp)
  show "hex_digit n \<in> set ''0123456789abcdef''" if "n < 16"
    unfolding hex_digit_def using that by (intro nth_mem) simp
qed

lemma unat_nibbles: "unat (b :: u8) div 16 < 16" "unat b mod 16 < 16" "of_nat (unat b div 16 * 16 + unat b mod 16) = b"
proof -
  have "unat b < 256" using unsigned_less[of b, where ?'a = nat] by simp
  then show "unat b div 16 < 16" by simp
  show "of_nat (unat b div 16 * 16 + unat b mod 16) = b" by (simp only: div_mult_mod_eq) simp
qed simp

lemma demo_hex_roundtrip: "demo_hex_decode (demo_hex_encode bs) = Some bs"
  and demo_hex_length: "length (demo_hex_encode bs) = 2 * length bs"
  and demo_hex_chars: "list_all (\<lambda>c. c \<in> set ''0123456789abcdef'') (demo_hex_encode bs)"
proof -
  show "demo_hex_decode (demo_hex_encode bs) = Some bs"
    by (induction bs) (simp_all add: demo_hex_encode_def hex_val_digit unat_nibbles del: of_nat_add of_nat_mult)
  show "length (demo_hex_encode bs) = 2 * length bs" by (induction bs) (simp_all add: demo_hex_encode_def)
  show "list_all (\<lambda>c. c \<in> set ''0123456789abcdef'') (demo_hex_encode bs)"
    using hex_digit_char unat_nibbles(1,2)
    by (induction bs) (simp_all add: demo_hex_encode_def del: list.set)
qed

section \<open>Forms, URLs and documents\<close>

definition demo_form :: "string \<Rightarrow> (string \<times> string) list" where
  "demo_form s = List.map_filter (split_first (CHR ''='')) (split_char (CHR ''&'') s)"

lemma plain_no: "plain s \<Longrightarrow> \<not> plain_char c \<Longrightarrow> c \<notin> set s"
  by (auto simp: plain_def list_all_iff)

lemma not_plain: "\<not> plain_char (CHR ''='')" "\<not> plain_char (CHR ''&'')"
  by (simp_all add: plain_char_def)

lemma demo_form_ok: "form_ok demo_form"
proof -
  have "List.map_filter (split_first (CHR ''='')) (split_char (CHR ''&'') (query_string ps)) = ps"
    if "ps \<noteq> []" "\<forall>(k, v)\<in>set ps. plain k \<and> plain v" for ps
    using that
  proof (induction ps rule: query_string.induct)
    case (2 k v)
    then have "CHR ''='' \<notin> set k" "CHR ''&'' \<notin> set (k @ CHR ''='' # v)" using plain_no not_plain by auto
    then show ?case by (simp add: split_char_none split_first_append List.map_filter_simps)
  next
    case (3 k v p ps)
    then have "CHR ''='' \<notin> set k" "CHR ''&'' \<notin> set (k @ CHR ''='' # v)" using plain_no not_plain by auto
    then show ?case using 3 split_char_append[of "CHR ''&''" "k @ CHR ''='' # v"]
      by (simp add: split_first_append List.map_filter_simps)
  qed simp
  then show ?thesis by (simp add: form_ok_def demo_form_def)
qed

definition demo_host :: "string \<Rightarrow> bool" where
  "demo_host h \<longleftrightarrow> h \<noteq> [] \<and> CHR '':'' \<notin> set h"

definition demo_url :: "string \<Rightarrow> url_parts option" where
  "demo_url s =
     (let (https, r) = (case strip_prefix ''https://'' s of Some r \<Rightarrow> (True, r) | None \<Rightarrow> (False, drop 7 s))
      in Option.bind (split_first (CHR '':'') r) (\<lambda>(host, r1).
         Option.bind (parse_nat (leading_digits r1)) (\<lambda>port.
         Option.bind (split_first (CHR ''?'') (drop (length (leading_digits r1)) r1)) (\<lambda>(path, query).
           Some \<lparr>up_https = https, up_port = port, up_path = path, up_query = query\<rparr>))))"

lemma demo_url_text:
  assumes "demo_host host" "CHR ''?'' \<notin> set name"
  shows "demo_url (url_text https host port (''/'' @ name) query) =
    Some \<lparr>up_https = https, up_port = unat port, up_path = ''/'' @ name, up_query = query\<rparr>"
proof -
  have ld: "leading_digits (show_u16 port @ ''/'' @ t) = show_u16 port" for t
    unfolding show_u16_def by (rule leading_digits_show) (simp add: is_digit_def digit_val_def)
  have h: "split_first (CHR '':'') (host @ CHR '':'' # t) = Some (host, t)" for t
    using assms(1) by (simp add: demo_host_def split_first_append)
  have p: "split_first (CHR ''?'') ((CHR ''/'' # name) @ CHR ''?'' # query) = Some (CHR ''/'' # name, query)"
    using assms(2) by (intro split_first_append) simp
  let ?r = "host @ CHR '':'' # show_u16 port @ (CHR ''/'' # name) @ CHR ''?'' # query"
  have u: "url_text https host port (''/'' @ name) query = (if https then ''https://'' else ''http://'') @ ?r"
    by (simp add: url_text_def)
  have "(case strip_prefix ''https://'' (url_text https host port (''/'' @ name) query) of
      Some r \<Rightarrow> (True, r) | None \<Rightarrow> (False, drop 7 (url_text https host port (''/'' @ name) query))) = (https, ?r)"
  proof (cases https)
    case True
    then show ?thesis unfolding u by (simp only: if_True strip_prefix_append option.case)
  next
    case False
    then show ?thesis unfolding u by (simp add: strip_prefix_def)
  qed
  then show ?thesis
    unfolding demo_url_def Let_def using ld[of "name @ CHR ''?'' # query"] h p by (simp add: show_u16_def)
qed

definition xml_piece :: "string \<Rightarrow> (string \<times> string) option" where
  "xml_piece p = (if p = [] \<or> hd p = CHR ''/'' then None else split_first (CHR ''>'') p)"

definition demo_xml :: "string \<Rightarrow> xml_doc option" where
  "demo_xml s = Some (\<lambda>tag. Option.bind (map_of (List.map_filter xml_piece (split_char (CHR ''<'') s)) tag)
     (\<lambda>t. if t = [] then None else Some t))"

fun xml_rest :: "(string \<times> string) list \<Rightarrow> string" where
  "xml_rest [] = ''/root>''"
| "xml_rest ((t, s) # ps) = t @ CHR ''>'' # s @ CHR ''<'' # ''/'' @ t @ ''>'' @ CHR ''<'' # xml_rest ps"

lemma flat_doc_rest: "flat_doc status ps = CHR ''<'' # (''root status_code=\"'' @ status @ ''\">'') @ CHR ''<'' # xml_rest ps"
proof -
  have "concat (map (\<lambda>(t, s). xml_elem t s) ps) @ ''</root>'' = CHR ''<'' # xml_rest ps"
    by (induction ps) (auto simp: xml_elem_def)
  then show ?thesis by (simp add: flat_doc_def)
qed

lemma xml_name_chars: "xml_name t \<Longrightarrow> t \<noteq> [] \<and> hd t \<noteq> CHR ''/'' \<and> CHR ''<'' \<notin> set t \<and> CHR ''>'' \<notin> set t"
proof -
  assume n: "xml_name t"
  define A where "A = set ''0123456789ABCDEFGHIJKLMNOPQRSTUVWXYZabcdefghijklmnopqrstuvwxyz''"
  have "CHR ''/'' \<notin> A" "CHR ''<'' \<notin> A" "CHR ''>'' \<notin> A" unfolding A_def by code_simp+
  moreover have "t \<noteq> []" "set t \<subseteq> A" using n unfolding xml_name_def list_all_iff A_def by blast+
  ultimately show ?thesis by (metis hd_in_set subsetD)
qed

lemma xml_name_no_space: "xml_name t \<Longrightarrow> CHR '' '' \<notin> set t"
proof -
  assume n: "xml_name t"
  have "CHR '' '' \<notin> set ''0123456789ABCDEFGHIJKLMNOPQRSTUVWXYZabcdefghijklmnopqrstuvwxyz''" by code_simp
  then show ?thesis using n unfolding xml_name_def list_all_iff by blast
qed

lemma xml_rest_pieces:
  "\<forall>(t, s)\<in>set ps. xml_name t \<and> list_all xml_char s \<Longrightarrow>
   List.map_filter xml_piece (split_char (CHR ''<'') (xml_rest ps)) = ps"
proof (induction ps)
  case Nil
  have "split_char (CHR ''<'') ''/root>'' = [''/root>'']" by (rule split_char_none) simp
  then show ?case by (simp add: List.map_filter_simps xml_piece_def)
next
  case (Cons p ps)
  obtain t s where p: "p = (t, s)" by (cases p)
  have t: "t \<noteq> []" "hd t \<noteq> CHR ''/''" "CHR ''<'' \<notin> set t" "CHR ''>'' \<notin> set t" using Cons.prems p xml_name_chars[of t] by auto
  have s: "CHR ''<'' \<notin> set s" using Cons.prems p by (auto simp: list_all_iff xml_char_def)
  have "split_char (CHR ''<'') (xml_rest (p # ps)) =
      (t @ CHR ''>'' # s) # (''/'' @ t @ ''>'') # split_char (CHR ''<'') (xml_rest ps)"
    using split_char_append[of "CHR ''<''" "t @ CHR ''>'' # s"] split_char_append[of "CHR ''<''" "''/'' @ t @ ''>''"] t s p by simp
  then show ?case
    using Cons t p split_first_append[of "CHR ''>''" t s] by (simp add: List.map_filter_simps xml_piece_def)
qed

lemma demo_xml_ok: "xml_lib_ok demo_xml"
proof -
  have "\<exists>doc. demo_xml (flat_doc status ps) = Some doc
      \<and> (\<forall>t. t \<noteq> ''root'' \<longrightarrow> doc t = Option.bind (map_of ps t) (\<lambda>s. if s = [] then None else Some s))"
    if st: "list_all is_digit status" and ps: "\<forall>(t, s)\<in>set ps. xml_name t \<and> list_all xml_char s" for status ps
  proof -
    let ?a = "''root status_code=\"'' @ status @ [CHR 0x22]"
    have d: "CHR ''<'' \<notin> set status" "CHR ''>'' \<notin> set status"
      using st by (auto simp: list_all_iff is_digit_def digit_val_def)
    have "List.map_filter xml_piece (split_char (CHR ''<'') (flat_doc status ps)) = (?a, []) # ps"
      unfolding flat_doc_rest
      using split_char_append[of "CHR ''<''" "?a @ ''>''" "xml_rest ps"] split_first_append[of "CHR ''>''" ?a "[]"]
        xml_rest_pieces[OF ps] d by (simp add: List.map_filter_simps xml_piece_def)
    moreover have "map_of ps ?a = None"
      using ps xml_name_no_space by (fastforce simp: map_of_eq_None_iff)
    ultimately show ?thesis by (auto simp: demo_xml_def)
  qed
  then show ?thesis by (auto simp: xml_lib_ok_def)
qed

section \<open>The stand-in\<close>

definition demo_libs :: web_libs where
  "demo_libs =
     \<lparr>lib_hex_encode = demo_hex_encode, lib_hex_decode = demo_hex_decode,
      lib_sha256 = (\<lambda>b. take 32 (rev b @ replicate 32 0)),
      lib_encrypt_block = (\<lambda>k b. map2 (+) b k), lib_decrypt_block = (\<lambda>k b. map2 (-) b k),
      lib_private_key = (\<lambda>s. Some (length s)), lib_public_key = (\<lambda>b. Some (length b)),
      lib_pem = (\<lambda>s. Some (as_bytes s)), lib_x509 = (\<lambda>b. Some \<lparr>x_subject_pki = b, x_signature_value = rev b\<rparr>),
      lib_sign = (\<lambda>k d. of_nat k # d), lib_signature = (\<lambda>s. s \<noteq> []), lib_verify = (\<lambda>k d s. s = of_nat k # d),
      lib_json_write = (\<lambda>d. []), lib_json_read = (\<lambda>b. None),
      lib_form = demo_form, lib_host = demo_host, lib_url = demo_url, lib_xml = demo_xml\<rparr>"

lemma map2_sub_add: "length k = length b \<Longrightarrow> map2 (-) (map2 (+) b k) k = (b :: bytes)"
  by (induction b k rule: list_induct2') auto

lemma demo_libs_ok: "libs_ok demo_libs"
proof -
  have "hex_ok demo_libs"
    using demo_hex_roundtrip demo_hex_length demo_hex_chars by (simp only: hex_ok_def demo_libs_def web_libs.simps) blast
  moreover have "cipher_ok demo_libs" by (simp add: cipher_ok_def demo_libs_def map2_sub_add min_def)
  moreover have "url_lib_ok demo_libs"
  proof -
    have "CHR ''?'' \<notin> set ''abcdefghijklmnopqrstuvwxyz''" by code_simp
    then have "CHR ''?'' \<notin> set name" if "list_all (\<lambda>c. c \<in> set ''abcdefghijklmnopqrstuvwxyz'') name" for name
      using that unfolding list_all_iff by blast
    then show ?thesis unfolding url_lib_ok_def demo_libs_def web_libs.simps using demo_url_text by blast
  qed
  ultimately show ?thesis using demo_form_ok demo_xml_ok by (simp add: libs_ok_def) (simp add: demo_libs_def)
qed

text \<open>In the stand-in a key belongs to a certificate of the same length.\<close>

lemma demo_key_pair: "is_ascii cert \<Longrightarrow> cert \<noteq> [] \<Longrightarrow> length k = length cert \<Longrightarrow> key_pair_ok demo_libs cert k"
  by (simp add: key_pair_ok_def demo_libs_def as_bytes_def)

definition demo_manager :: client_manager where
  "demo_manager =
     \<lparr>cm_pending = Map.empty, cm_state = \<lparr>ps_data = state_data_default, ps_file = None\<rparr>,
      cm_server_cert_pem = ''host'', cm_server_key_pem = ''skey''\<rparr>"

definition demo_web :: webserver where
  "demo_web =
     \<lparr>wb_config = \<lparr>sv_name = ''kmc'', sv_unique_id = ''A1'', sv_http_port = 47989, sv_https_port = 47984, sv_rtsp_port = 48010\<rparr>,
      wb_clients = demo_manager, wb_session = None\<rparr>"

definition demo_identity :: identity where
  "demo_identity = \<lparr>id_cert_pem = ''cert'', id_key_pem = ''ckey'', id_unique_id = ''C1''\<rparr>"

definition demo_env :: web_env where
  "demo_env = \<lparr>we_server_secret = replicate 16 7, we_server_challenge = replicate 16 9, we_disk_ok = True\<rparr>"

definition demo_rnd :: pair_rnd where
  "demo_rnd = \<lparr>rd_salt = replicate 16 1, rd_client_challenge = replicate 16 2, rd_client_secret = replicate 16 3, rd_uuid = (\<lambda>n. [of_nat n])\<rparr>"

text \<open>A request with the PIN 1234 for the client, and one that has nothing to do with it.\<close>

definition demo_pin :: http_request where
  "demo_pin = \<lparr>hq_https = False, hq_method = POST, hq_path = ''/submit-pin'', hq_query = None,
     hq_body = Some ''uniqueid=C1&pin=1234'', hq_local = None, hq_peer_fingerprint = None\<rparr>"

definition demo_info :: http_request where
  "demo_info = \<lparr>hq_https = False, hq_method = GET, hq_path = ''/serverinfo'', hq_query = None,
     hq_body = None, hq_local = None, hq_peer_fingerprint = None\<rparr>"

definition demo_visit :: "(web_env \<times> http_request) list \<Rightarrow> visit" where
  "demo_visit others = \<lparr>vi_env = demo_env, vi_local = Some ''10.0.0.2'', vi_fingerprint = None, vi_others = others\<rparr>"

lemma demo_pin_entry: "pin_entry demo_libs demo_pin ''C1'' ''1234''"
proof -
  have "demo_form ''uniqueid=C1&pin=1234'' = [(''uniqueid'', ''C1''), (''pin'', ''1234'')]" by code_simp
  then show ?thesis by (simp add: pin_entry_def demo_pin_def demo_libs_def form_map_def)
qed

lemma demo_foreign: "foreign demo_libs ''C1'' [(demo_env, demo_info)]"
  by (simp add: foreign_def route_target_def demo_info_def request_params_def)

end
