(* ===== verification/Kmc_Launch.thy ===== *)
theory Kmc_Launch
  imports Kmc_WebLibs Kmc_Control Kmc_Rtsp
begin

text \<open>
  Pairing and launch between client and host: what \<open>Kmc_Pair\<close> shows of the two together, stated over the functions of the
  code, and how the launched session serves the RTSP handshake and the control channel.
\<close>



text \<open>
  C28: the host records a client only through a request to \<open>/pair\<close> whose secret is verified: there is a pending
  pairing of that client that went through the PIN and both challenges, the hash sent in stage 3 covers the server's
  challenge, the client's certificate and the secret, and the secret's signature is valid for the certificate.
\<close>

theorem paired_only_verified:
  assumes "cm_inv L (wb_clients web)" "\<not> is_paired j (wb_clients web)" "is_paired j (wb_clients (web_run L es web))"
  shows "\<exists>pre env rq post p secret sc hash sig. es = pre @ (env, rq) # post \<and> hq_path rq = ''/pair''
    \<and> cm_pending (wb_clients (web_run L pre web)) j = Some p \<and> pc_id p = j \<and> pc_key p \<noteq> None
    \<and> Option.bind (request_params L rq ''clientpairingsecret'') (lib_hex_decode L) = Some secret
    \<and> pc_server_challenge p = Some sc \<and> pc_client_hash p = Some hash \<and> cert_signature L (pc_pem p) = Inr sig
    \<and> hash = lib_sha256 L (sc @ sig @ take 16 secret)
    \<and> rsa_verify_cert_sha256 L (pc_pem p) (take 16 secret) (drop 16 secret) = Inr ()"
proof -
  obtain pre env rq post where es: "es = pre @ (env, rq) # post" and v: "verified_request L j rq (web_run L pre web)"
    using first_new_client[OF assms(2,3)] by blast
  obtain p secret where p: "hq_path rq = ''/pair''" "cm_pending (wb_clients (web_run L pre web)) j = Some p"
      "Option.bind (request_params L rq ''clientpairingsecret'') (lib_hex_decode L) = Some secret"
      "verify_pairing_secret L p secret = Inr ()"
    using v unfolding verified_request_def by blast
  have "pending_ok j p" using cm_inv_pending[OF web_run_inv[OF assms(1)] p(2)] .
  moreover have "\<exists>sc hash sig. pc_server_challenge p = Some sc \<and> pc_client_hash p = Some hash \<and> cert_signature L (pc_pem p) = Inr sig
      \<and> hash = lib_sha256 L (sc @ sig @ take 16 secret)
      \<and> rsa_verify_cert_sha256 L (pc_pem p) (take 16 secret) (drop 16 secret) = Inr ()"
    using p(4) by (auto simp: verify_pairing_secret_def bindE_Inr Let_def split: if_splits)
  ultimately have "pc_id p = j \<and> pc_key p \<noteq> None \<and> (\<exists>sc hash sig. pc_server_challenge p = Some sc \<and> pc_client_hash p = Some hash
      \<and> cert_signature L (pc_pem p) = Inr sig \<and> hash = lib_sha256 L (sc @ sig @ take 16 secret)
      \<and> rsa_verify_cert_sha256 L (pc_pem p) (take 16 secret) (drop 16 secret) = Inr ())"
    by (auto simp: pending_ok_def)
  then show ?thesis using es p(1-3) by blast
qed

text \<open>A host on which client \<open>C1\<close> has come as far as its secret.\<close>

definition demo_secret :: bytes where
  "demo_secret = replicate 16 3"

definition demo_pending :: pending_client where
  "demo_pending =
     \<lparr>pc_id = ''C1'', pc_pem = ''cert'', pc_salt = replicate 16 1, pc_key = Some (replicate 16 4), pc_server_secret = Some (replicate 16 7),
      pc_server_challenge = Some (replicate 16 9),
      pc_client_hash = Some (lib_sha256 demo_libs (replicate 16 9 @ rev (as_bytes ''cert'') @ demo_secret))\<rparr>"

definition demo_late_web :: webserver where
  "demo_late_web = demo_web\<lparr>wb_clients := put_pending ''C1'' demo_pending demo_manager\<rparr>"

definition demo_last_request :: http_request where
  "demo_last_request =
     \<lparr>hq_https = False, hq_method = GET, hq_path = ''/pair'',
      hq_query = Some (query_string [(''uniqueid'', ''C1''), (''clientpairingsecret'', lib_hex_encode demo_libs (demo_secret @ 4 # demo_secret))]),
      hq_body = None, hq_local = None, hq_peer_fingerprint = None\<rparr>"

lemma demo_last_params:
  "request_params demo_libs demo_last_request =
     map_of [(''clientpairingsecret'', lib_hex_encode demo_libs (demo_secret @ 4 # demo_secret)), (''uniqueid'', ''C1'')]"
proof -
  let ?ps = "[(''uniqueid'', ''C1''), (''clientpairingsecret'', lib_hex_encode demo_libs (demo_secret @ 4 # demo_secret))]"
  have "\<forall>(k, v)\<in>set ?ps. plain k \<and> plain v"
    using hex_plain[OF libs_okD(4)[OF demo_libs_ok]] by (simp add: plain_def plain_char_def)
  then have "lib_form demo_libs (query_string ?ps) = ?ps" using libs_okD(1)[OF demo_libs_ok] unfolding form_ok_def by blast
  then show ?thesis by (simp add: request_params_def demo_last_request_def form_map_def del: query_string.simps)
qed

lemma demo_paired: "is_paired ''C1'' (wb_clients (web_run demo_libs [(demo_env, demo_last_request)] demo_late_web))"
proof -
  let ?ps = "request_params demo_libs demo_last_request"
  have p: "cm_pending (wb_clients demo_late_web) ''C1'' = Some demo_pending" by (simp add: demo_late_web_def)
  have "cert_signature demo_libs ''cert'' = Inr (rev (as_bytes ''cert''))"
      "rsa_verify_cert_sha256 demo_libs ''cert'' demo_secret (4 # demo_secret) = Inr ()"
    by (simp_all add: cert_signature_def rsa_verify_cert_sha256_def parse_cert_def demo_libs_def as_bytes_def)
  moreover obtain fp where "cert_fingerprint demo_libs ''cert'' = Inr fp" by (simp add: cert_fingerprint_def demo_libs_def)
  ultimately have "cm_clients (wb_clients (snd (pair_client_secret demo_libs demo_env ?ps demo_late_web))) ''C1'' = Some ''cert''"
    using pair_client_secret_records[OF demo_libs_ok p, of "replicate 16 9" "''cert''" "rev (as_bytes ''cert'')" demo_secret fp "4 # demo_secret" ?ps]
    by (simp add: demo_pending_def demo_secret_def demo_last_params)
  moreover have "route demo_libs demo_env demo_last_request demo_late_web = apfst Now (pair_client_secret demo_libs demo_env ?ps demo_late_web)"
    by (simp add: route_def demo_last_params Let_def) (simp add: demo_last_request_def handle_pair_def)
  ultimately show ?thesis by (simp add: web_step_def is_paired_def has_client_def)
qed

theorem paired_only_verified_witness:
  "\<exists>pre env rq post p secret. [(demo_env, demo_last_request)] = pre @ (env, rq) # post
    \<and> cm_pending (wb_clients (web_run demo_libs pre demo_late_web)) ''C1'' = Some p \<and> pc_key p \<noteq> None
    \<and> Option.bind (request_params demo_libs rq ''clientpairingsecret'') (lib_hex_decode demo_libs) = Some secret
    \<and> rsa_verify_cert_sha256 demo_libs (pc_pem p) (take 16 secret) (drop 16 secret) = Inr ()"
proof -
  have "cm_inv demo_libs (wb_clients demo_late_web)"
    by (simp add: cm_inv_def demo_late_web_def put_pending_def demo_manager_def state_data_default_def demo_pending_def pending_ok_def)
  moreover have "\<not> is_paired ''C1'' (wb_clients demo_late_web)"
    by (simp add: is_paired_def has_client_def demo_late_web_def demo_manager_def state_data_default_def put_pending_def)
  ultimately show ?thesis using paired_only_verified[OF _ _ demo_paired] by blast
qed

text \<open>
  C6: launching against the host opens a session whose key is the client's random key, with the requested
  resolution and rate, and returns an RTSP URL of the host that the handshake accepts; a message that the client
  then seals with its key is opened by the host with the session's, whatever requests but another launch come in between.
\<close>

theorem launch_opens_session:
  assumes "libs_ok L" "lib_host L (ph_address host)" "plain (id_unique_id idn)" "ph_https_port host = sv_https_port (wb_config web)"
    and "list_all (\<lambda>c. xml_char c \<and> \<not> is_space c) (or_default [] (vi_local v))"
    and "length iv4 = 4" "length rikey = 16" "\<forall>e\<in>set (vi_others v). hq_path (snd e) \<notin> {''/launch'', ''/resume''}"
    and "gcm_ok g" "length payload + 24 < 2 ^ 16"
  shows "\<exists>res web' s. client_launch L (host_get L) rikey iv4 uuid idn host width height fps resume \<lparr>ww_web = web, ww_visits = v # visits\<rparr> =
        (Inr res, \<lparr>ww_web = web', ww_visits = visits\<rparr>)
    \<and> lr_rikey res = rikey \<and> take 4 (lr_rikey_iv res) = iv4
    \<and> wb_session web' = Some s \<and> ls_remote_input_key s = lr_rikey res
    \<and> (ls_width s, ls_height s, ls_refresh_rate s) = (width, height, fps)
    \<and> resolve_target_url (ph_address host) port (lr_rtsp_session_url res) = Inr (session_url (vi_local v) web)
    \<and> (\<exists>m. encode_encrypted g (lr_rikey res) seq t payload = Some m
         \<and> Option.bind (decrypt_message g (wb_session web') m) parse_header = Some (t, payload))"
proof -
  let ?url = "session_url (vi_local v) web"
  define s where "s = client_session rikey iv4 width height fps"
  define web' where "web' = web_run L (vi_others v) (web\<lparr>wb_session := Some s\<rparr>)"
  have ses: "wb_session web' = Some s" using session_kept[OF assms(8)] by (simp add: web'_def)
  have "trim ?url = ?url" using session_url_chars[OF assms(5), of web] by (intro trim_no_space) blast
  then have url: "resolve_target_url (ph_address host) port ?url = Inr ?url"
    by (simp add: resolve_target_url_def Let_def) (simp add: session_url_def starts_with_def)
  obtain m where "encode_encrypted g rikey seq t payload = Some m" "host_unseal g rikey m = Some (t, payload)"
    using c2h.link[OF assms(9,7,10)] by blast
  then have "encode_encrypted g rikey seq t payload = Some m
      \<and> Option.bind (decrypt_message g (wb_session web') m) parse_header = Some (t, payload)"
    using decrypt_message_key[of g s m] by (simp add: ses host_unseal_def s_def client_session_def)
  then show ?thesis
    using launch_run[OF assms(1-6), of rikey uuid width height fps resume visits] ses url assms(6)
    by (simp add: web'_def s_def client_session_def)
qed

theorem launch_opens_session_witness:
  "\<exists>res web' s. client_launch demo_libs (host_get demo_libs) (replicate 16 5) [255, 0, 0, 1] [1] demo_identity
        \<lparr>ph_address = ''h'', ph_http_port = 47989, ph_https_port = 47984, ph_rtsp_port = 48010, ph_server_cert_pem = ''host''\<rparr>
        1920 1080 60 False \<lparr>ww_web = demo_web, ww_visits = [demo_visit [(demo_env, demo_info)]]\<rparr> = (Inr res, \<lparr>ww_web = web', ww_visits = []\<rparr>)
    \<and> wb_session web' = Some s \<and> ls_remote_input_key s = replicate 16 5 \<and> ls_width s = 1920
    \<and> resolve_target_url ''h'' 48010 (lr_rtsp_session_url res) = Inr (session_url (Some ''10.0.0.2'') demo_web)"
proof -
  let ?host = "\<lparr>ph_address = ''h'', ph_http_port = 47989, ph_https_port = 47984, ph_rtsp_port = 48010, ph_server_cert_pem = ''host''\<rparr>"
  let ?v = "demo_visit [(demo_env, demo_info)]"
  have "lib_host demo_libs (ph_address ?host)" "plain (id_unique_id demo_identity)" "ph_https_port ?host = sv_https_port (wb_config demo_web)"
      "list_all (\<lambda>c. xml_char c \<and> \<not> is_space c) (or_default [] (vi_local ?v))" "length [255, 0, 0, 1 :: u8] = 4"
      "length (replicate 16 (5 :: u8)) = 16" "\<forall>e\<in>set (vi_others ?v). hq_path (snd e) \<notin> {''/launch'', ''/resume''}"
    by (simp_all add: demo_libs_def demo_host_def demo_identity_def plain_def plain_char_def demo_web_def demo_visit_def demo_info_def
        xml_char_def is_space_def)
  from launch_opens_session[OF demo_libs_ok this mask_gcm_ok, of "[1]" "[1]" 1920 1080 60 False "[]" 48010 0 0]
  show ?thesis by (auto simp: demo_visit_def)
qed

end
