(* ===== verification/Kmc_AgentTools.thy ===== *)
theory Kmc_AgentTools
  imports Kmc_Hub Kmc_Strings Kmc_Float "HOL-Library.Multiset"
begin

text \<open>
  What the agent does on its laptop: commands (\<^verbatim>\<open>kmc-agent/src/exec.rs\<close>), the automation daemon (\<^verbatim>\<open>cua.rs\<close>), the tailnet
  (\<^verbatim>\<open>tailscale.rs\<close>), the dedicated browser (\<^verbatim>\<open>browser.rs\<close>) and the status report (\<^verbatim>\<open>sysstat.rs\<close>). The answers of processes,
  sockets and of the system are arguments, one for each time the code asks; text is decoded.
\<close>

section \<open>Commands\<close>

text \<open>A finished process, or the reason why it could not be started.\<close>

type_synonym process_output = "string + (int option \<times> string \<times> string)"

definition contains :: "string \<Rightarrow> string \<Rightarrow> bool" where
  "contains needle s \<longleftrightarrow> after needle s \<noteq> None"

definition to_result :: "uuid \<Rightarrow> string \<Rightarrow> process_output \<Rightarrow> command_result" where
  "to_result command_id what output =
     (case output of
        Inr (code, out, err) \<Rightarrow>
          \<lparr>cres_command_id = command_id, cres_exit_code = code, cres_stdout = out, cres_stderr = err, cres_error = None\<rparr>
      | Inl e \<Rightarrow>
          \<lparr>cres_command_id = command_id, cres_exit_code = None, cres_stdout = [], cres_stderr = [], cres_error = Some (what @ e)\<rparr>)"

definition daemon_down :: "process_output \<Rightarrow> bool" where
  "daemon_down output =
     (case output of Inl e \<Rightarrow> False | Inr (code, out, err) \<Rightarrow> contains ''daemon is not running'' (out @ err))"

definition cua_driver_path :: "(string \<rightharpoonup> string) \<Rightarrow> string" where
  "cua_driver_path env =
     (case env ''KMC_CUA_DRIVER'' of
        Some p \<Rightarrow> p
      | None \<Rightarrow> (case env ''LOCALAPPDATA'' of
          Some local \<Rightarrow> local @ [CHR 0x5C] @ ''Programs'' @ [CHR 0x5C] @ ''Cua'' @ [CHR 0x5C] @ ''cua-driver'' @ [CHR 0x5C] @ ''bin''
            @ [CHR 0x5C] @ ''cua-driver.exe''
        | None \<Rightarrow> ''cua-driver.exe''))"

text \<open>
  The environment of a command: the answer of PowerShell to a script, the answer of \<^verbatim>\<open>cua-driver call\<close> at its first and
  second run, and the answer of the browser manager.
\<close>

record exec_env =
  ee_vars :: "string \<rightharpoonup> string"
  ee_powershell :: "string \<Rightarrow> process_output"
  ee_cua :: "nat \<Rightarrow> string \<Rightarrow> string \<Rightarrow> process_output"
  ee_browser :: string

definition run_powershell :: "exec_env \<Rightarrow> uuid \<Rightarrow> string \<Rightarrow> command_result" where
  "run_powershell v command_id script = to_result command_id ''spawn powershell: '' (ee_powershell v script)"

definition run_gui :: "exec_env \<Rightarrow> uuid \<Rightarrow> string \<Rightarrow> string \<Rightarrow> command_result" where
  "run_gui v command_id tool args =
     (if tool = ''kmc_ensure_browser''
      then \<lparr>cres_command_id = command_id, cres_exit_code = Some 0, cres_stdout = ee_browser v, cres_stderr = [], cres_error = None\<rparr>
      else
        let exe = cua_driver_path (ee_vars v);
            output = ee_cua v 0 tool args;
            output' = (if daemon_down output then ee_cua v 1 tool args else output)
        in to_result command_id (''spawn cua-driver ('' @ exe @ ''): '') output')"

definition exec_run :: "exec_env \<Rightarrow> command_request \<Rightarrow> command_result" where
  "exec_run v req =
     (case cr_kind req of
        PowerShell script \<Rightarrow> run_powershell v (cr_command_id req) script
      | Gui tool args \<Rightarrow> run_gui v (cr_command_id req) tool args)"

section \<open>The automation daemon\<close>

definition is_running :: "process_output \<Rightarrow> bool" where
  "is_running output =
     (case output of Inl e \<Rightarrow> False | Inr (code, out, err) \<Rightarrow> contains ''daemon is running'' (out @ err))"

text \<open>The k-th status query is answered by \<open>status k\<close>; the result comes with the number of queries made.\<close>

fun poll_until :: "(nat \<Rightarrow> bool) \<Rightarrow> nat \<Rightarrow> nat \<Rightarrow> bool \<times> nat" where
  "poll_until up k 0 = (False, k)"
| "poll_until up k (Suc n) = (if up k then (True, Suc k) else poll_until up (Suc k) n)"

definition ensure_daemon :: "bool \<Rightarrow> (nat \<Rightarrow> process_output) \<Rightarrow> bool \<times> nat" where
  "ensure_daemon spawned status =
     (if is_running (status 0) then (True, 1)
      else if \<not> spawned then (False, 1)
      else poll_until (\<lambda>k. is_running (status k)) 1 20)"

section \<open>The tailnet\<close>

text \<open>The polls carry the answer of \<^verbatim>\<open>is_up\<close> and the clock after it; the result is open while they do not decide.\<close>

fun wait_up :: "instant \<Rightarrow> (bool \<times> instant) list \<Rightarrow> bool option" where
  "wait_up deadline [] = None"
| "wait_up deadline ((up, now) # ps) = (if up then Some True else if deadline \<le> now then Some False else wait_up deadline ps)"

definition wait_ready :: "bool \<Rightarrow> instant \<Rightarrow> instant \<Rightarrow> (bool \<times> instant) list \<Rightarrow> bool option" where
  "wait_ready installed start timeout ps = (if \<not> installed then Some False else wait_up (start + timeout) ps)"

definition self_ip :: "bool \<Rightarrow> string option \<Rightarrow> string option" where
  "self_ip installed out =
     (if \<not> installed then None
      else case out of
        None \<Rightarrow> None
      | Some s \<Rightarrow>
          let t = trim s
          in if t = [] then None
             else let ip = trim (takeWhile (\<lambda>c. c \<noteq> CHR 0x0A) t)
                  in if strip_prefix ''100.'' ip \<noteq> None then Some ip else None)"

section \<open>The dedicated browser\<close>

record window =
  wn_pid :: "nat option"
  wn_window_id :: "nat option"
  wn_width :: "nat option"

fun pick_window :: "nat \<Rightarrow> nat option \<Rightarrow> window list \<Rightarrow> nat option" where
  "pick_window pid fallback [] = fallback"
| "pick_window pid fallback (w # ws) =
     (if wn_pid w = Some pid
      then (if 0 < (case wn_width w of Some x \<Rightarrow> x | None \<Rightarrow> 0) then wn_window_id w
            else pick_window pid (case fallback of Some f \<Rightarrow> Some f | None \<Rightarrow> wn_window_id w) ws)
      else pick_window pid fallback ws)"

definition window_id_for :: "window list option \<Rightarrow> nat \<Rightarrow> nat option" where
  "window_id_for wins pid = Option.bind wins (pick_window pid None)"

datatype browser_answer = BrowserReady nat nat bool | BrowserNoWindow nat | BrowserError string

text \<open>The environment of one call: CDP port, window list at each query, owner of the port at each query, whether Chrome is there and starts.\<close>

record browser_env =
  be_alive :: bool
  be_windows :: "nat \<Rightarrow> window list option"
  be_listener :: "nat \<Rightarrow> nat option"
  be_chrome :: "string option"
  be_spawn :: "string option"

definition browser_reuse :: "browser_env \<Rightarrow> nat option \<Rightarrow> browser_answer option \<times> nat option" where
  "browser_reuse v cached =
     (if \<not> be_alive v then (None, cached)
      else case Option.bind cached (\<lambda>pid. map_option (Pair pid) (window_id_for (be_windows v 0) pid)) of
        Some (pid, wid) \<Rightarrow> (Some (BrowserReady pid wid True), cached)
      | None \<Rightarrow>
          (case be_listener v 0 of
             None \<Rightarrow> (None, cached)
           | Some pid \<Rightarrow>
               (map_option (\<lambda>wid. BrowserReady pid wid True) (window_id_for (be_windows v 1) pid), Some pid)))"

fun first_window :: "(nat \<Rightarrow> window list option) \<Rightarrow> nat \<Rightarrow> nat \<Rightarrow> nat \<Rightarrow> nat option" where
  "first_window wins pid k 0 = None"
| "first_window wins pid k (Suc n) =
     (case window_id_for (wins k) pid of Some w \<Rightarrow> Some w | None \<Rightarrow> first_window wins pid (Suc k) n)"

definition browser_spawn :: "browser_env \<Rightarrow> nat option \<Rightarrow> browser_answer \<times> nat option" where
  "browser_spawn v cached =
     (case be_chrome v of
        None \<Rightarrow> (BrowserError ''chrome.exe not found (set KMC_CHROME)'', cached)
      | Some chrome \<Rightarrow>
          (case be_spawn v of
             Some e \<Rightarrow> (BrowserError (''spawn chrome: '' @ e), cached)
           | None \<Rightarrow>
               (case be_listener v 1 of
                  None \<Rightarrow> (BrowserError ''chrome launched but CDP port not listening'', cached)
                | Some pid \<Rightarrow>
                    (case first_window (be_windows v) pid 2 15 of
                       Some w \<Rightarrow> BrowserReady pid w False
                     | None \<Rightarrow> BrowserNoWindow pid, Some pid))))"

definition ensure_browser :: "browser_env \<Rightarrow> nat option \<Rightarrow> browser_answer \<times> nat option" where
  "ensure_browser v cached =
     (case browser_reuse v cached of
        (Some a, cached') \<Rightarrow> (a, cached')
      | (None, cached') \<Rightarrow> browser_spawn v cached')"

section \<open>The status report\<close>

record disk =
  dk_mount :: string
  dk_total :: u64
  dk_free :: u64

definition pick_system_disk :: "disk list \<Rightarrow> u64 \<times> u64" where
  "pick_system_disk ds =
     (case (case find (\<lambda>d. strip_prefix ''C:'' (dk_mount d) \<noteq> None \<or> dk_mount d = ''/'') ds of
              Some d \<Rightarrow> Some d
            | None \<Rightarrow> (case ds of [] \<Rightarrow> None | d # _ \<Rightarrow> Some d)) of
        Some d \<Rightarrow> (dk_total d, dk_free d)
      | None \<Rightarrow> (0, 0))"

text \<open>A battery is its state of charge, a fraction, and whether it charges or is full.\<close>

definition read_battery :: "rat option \<Rightarrow> (rat \<times> bool) option \<Rightarrow> rat option \<times> bool option" where
  "read_battery fake battery =
     (case fake of
        Some f \<Rightarrow> (Some f, Some False)
      | None \<Rightarrow> (case battery of Some (soc, charging) \<Rightarrow> (Some (f32 (soc * 100)), Some charging) | None \<Rightarrow> (None, None)))"

definition collect :: "process_info list \<Rightarrow> disk list \<Rightarrow> rat option \<Rightarrow> (rat \<times> bool) option \<Rightarrow> string \<Rightarrow> bool \<Rightarrow> status_report" where
  "collect ps ds fake battery now encoder_ok =
     (let (total, free) = pick_system_disk ds; (percent, charging) = read_battery fake battery
      in \<lparr>sr_battery_percent = percent, sr_battery_charging = charging, sr_disk_free_bytes = free, sr_disk_total_bytes = total,
          sr_processes = take 15 (sort_key (\<lambda>p. - uint (pi_mem_bytes p)) ps), sr_reported_at = now,
          sr_encoder_ok = Some encoder_ok\<rparr>)"

section \<open>Properties\<close>

lemma to_result_id [simp]: "cres_command_id (to_result i w output) = i"
  by (simp add: to_result_def split: sum.split)

lemma exec_run_id [simp]: "cres_command_id (exec_run v req) = cr_command_id req"
  by (simp add: exec_run_def run_powershell_def run_gui_def Let_def split: command_kind.split)

lemma poll_until_spec: "fst (poll_until up k n) = (\<exists>j\<in>{k..<k + n}. up j)" "snd (poll_until up k n) \<le> k + n"
proof (induction up k n rule: poll_until.induct)
  case (2 up k n)
  have "{k..<k + Suc n} = insert k {Suc k..<Suc k + n}" by auto
  then show "fst (poll_until up k (Suc n)) = (\<exists>j\<in>{k..<k + Suc n}. up j)" using 2 by simp
  show "snd (poll_until up k (Suc n)) \<le> k + Suc n" using 2 by simp
qed simp_all

text \<open>
  The daemon is reported as running exactly if it is, at once or within twenty queries after it was started, and it is asked
  at most twenty-one times.
\<close>

theorem daemon_ensured:
  "fst (ensure_daemon spawned status) \<longleftrightarrow>
     is_running (status 0) \<or> spawned \<and> (\<exists>k\<in>{1..20}. is_running (status k))"
  and "snd (ensure_daemon spawned status) \<le> 21"
  using poll_until_spec[of "\<lambda>k. is_running (status k)" 1 20]
  by (auto simp: ensure_daemon_def atLeastLessThanSuc_atLeastAtMost numeral_eq_Suc)

text \<open>The wait for the tailnet ends: polls half a second apart decide it once they cover the time-out.\<close>

lemma wait_up_decides:
  assumes "\<forall>k < length ps. start + int k * 500000000 \<le> snd (ps ! k)" "deadline \<le> start + (int (length ps) - 1) * 500000000" "ps \<noteq> []"
  shows "\<exists>b. wait_up deadline ps = Some b \<and> (b \<longrightarrow> True \<in> fst ` set ps) \<and> (\<not> b \<longrightarrow> (\<exists>p\<in>set ps. deadline \<le> snd p \<and> \<not> fst p))"
  using assms
proof (induction ps arbitrary: start)
  case (Cons p ps)
  obtain up now where p: "p = (up, now)" by (cases p)
  show ?case
  proof (cases "up \<or> deadline \<le> now")
    case True
    then show ?thesis by (auto simp: p)
  next
    case False
    have first: "start \<le> now" using Cons.prems(1)[rule_format, of 0] by (simp add: p)
    then have ne: "ps \<noteq> []" using Cons.prems(2) False by (cases ps) simp_all
    have "\<forall>k < length ps. start + 500000000 + int k * 500000000 \<le> snd (ps ! k)"
    proof (intro allI impI)
      fix k assume "k < length ps"
      then show "start + 500000000 + int k * 500000000 \<le> snd (ps ! k)"
        using Cons.prems(1)[rule_format, of "Suc k"] by (simp add: algebra_simps)
    qed
    moreover have "deadline \<le> start + 500000000 + (int (length ps) - 1) * 500000000" using Cons.prems(2) by (simp add: algebra_simps)
    ultimately show ?thesis using Cons.IH[of "start + 500000000"] ne False by (auto simp: p)
  qed
qed simp

text \<open>
  The wait for the tailnet ends. If successive polls are at least half a second apart, as the code sleeps between
  them, then as many polls as cover the time-out decide the wait: it reports a connection only when a poll saw one, and no
  connection only when Tailscale is missing or a poll at or after the deadline saw none.
\<close>

theorem tailnet_wait_ends:
  assumes "\<forall>k < length ps. start + int k * 500000000 \<le> snd (ps ! k)" "timeout \<le> (int (length ps) - 1) * 500000000" "ps \<noteq> []"
  shows "\<exists>b. wait_ready installed start timeout ps = Some b
    \<and> (if b then True \<in> fst ` set ps else \<not> installed \<or> (\<exists>p\<in>set ps. start + timeout \<le> snd p \<and> \<not> fst p))"
proof (cases installed)
  case True
  have "start + timeout \<le> start + (int (length ps) - 1) * 500000000" using assms(2) by simp
  from wait_up_decides[OF assms(1) this assms(3)] obtain b where "wait_up (start + timeout) ps = Some b"
      "b \<longrightarrow> True \<in> fst ` set ps" "\<not> b \<longrightarrow> (\<exists>p\<in>set ps. start + timeout \<le> snd p \<and> \<not> fst p)" by blast
  then have "wait_ready installed start timeout ps = Some b \<and> (if b then True \<in> fst ` set ps
      else \<not> installed \<or> (\<exists>p\<in>set ps. start + timeout \<le> snd p \<and> \<not> fst p))" using True by (simp add: wait_ready_def)
  then show ?thesis by blast
qed (auto simp: wait_ready_def intro: exI[where x = False])

theorem tailnet_wait_ends_witness:
  "wait_ready True 0 1000000000 [(False, 1), (False, 500000002), (False, 1000000003)] = Some False"
proof -
  have "\<exists>b. wait_ready True 0 1000000000 [(False, 1), (False, 500000002), (False, 1000000003)] = Some b
    \<and> (if b then True \<in> fst ` set [(False, 1), (False, 500000002), (False, 1000000003 :: instant)]
       else \<not> True \<or> (\<exists>p\<in>set [(False, 1), (False, 500000002), (False, 1000000003 :: instant)]. 0 + 1000000000 \<le> snd p \<and> \<not> fst p))"
    by (rule tailnet_wait_ends) (simp_all add: All_less_Suc)
  then show ?thesis by (auto split: if_splits)
qed

lemma pick_window_spec:
  "pick_window pid fb ws =
     (case find (\<lambda>w. wn_pid w = Some pid \<and> 0 < (case wn_width w of Some x \<Rightarrow> x | None \<Rightarrow> 0)) ws of
        Some w \<Rightarrow> wn_window_id w
      | None \<Rightarrow> (case fb of Some f \<Rightarrow> Some f
          | None \<Rightarrow> Option.bind (find (\<lambda>w. wn_pid w = Some pid \<and> wn_window_id w \<noteq> None) ws) wn_window_id))"
  by (induction pid fb ws rule: pick_window.induct) (auto split: option.splits)

lemma pick_window_sound:
  "pick_window pid fb ws = Some i \<Longrightarrow> fb = Some i \<or> (\<exists>w\<in>set ws. wn_pid w = Some pid \<and> wn_window_id w = Some i)"
  by (induction pid fb ws rule: pick_window.induct) (auto split: if_splits option.splits)

lemma window_id_for_sound:
  "window_id_for wins pid = Some i \<Longrightarrow> \<exists>ws. wins = Some ws \<and> (\<exists>w\<in>set ws. wn_pid w = Some pid \<and> wn_window_id w = Some i)"
  using pick_window_sound[of pid None] by (cases wins) (auto simp: window_id_for_def)

lemma first_window_sound: "first_window wins pid k n = Some i \<Longrightarrow> \<exists>j. window_id_for (wins j) pid = Some i"
  by (induction wins pid k n rule: first_window.induct) (auto split: option.splits)

text \<open>
  The browser that the agent names is there: when it answers with a process and a window, some window list of this call shows
  that window as one of that process, and the process is remembered for the next call.
\<close>

theorem browser_answer_sound:
  assumes "ensure_browser v cached = (BrowserReady pid wid reused, cached')"
  shows "cached' = Some pid \<and> (\<exists>k ws w. be_windows v k = Some ws \<and> w \<in> set ws \<and> wn_pid w = Some pid \<and> wn_window_id w = Some wid)"
proof -
  have "cached' = Some pid \<and> (\<exists>k. window_id_for (be_windows v k) pid = Some wid)"
    using assms first_window_sound[of "be_windows v" pid 2 15 wid]
    by (auto simp: ensure_browser_def browser_reuse_def browser_spawn_def split: option.splits if_splits prod.splits
      Option.bind_splits)
  then show ?thesis using window_id_for_sound by blast
qed

theorem browser_answer_sound_witness:
  "let v = \<lparr>be_alive = True, be_windows = (\<lambda>k. Some [\<lparr>wn_pid = Some 9, wn_window_id = Some 77, wn_width = Some 800\<rparr>]),
           be_listener = (\<lambda>k. Some 9), be_chrome = None, be_spawn = None\<rparr>
   in snd (ensure_browser v None) = Some 9 \<and> (\<exists>k ws w. be_windows v k = Some ws \<and> w \<in> set ws \<and> wn_pid w = Some 9 \<and> wn_window_id w = Some 77)"
proof -
  let ?v = "\<lparr>be_alive = True, be_windows = (\<lambda>k. Some [\<lparr>wn_pid = Some 9, wn_window_id = Some 77, wn_width = Some 800\<rparr>]),
           be_listener = (\<lambda>k. Some 9), be_chrome = None, be_spawn = None\<rparr>"
  have e: "ensure_browser ?v None = (BrowserReady 9 77 True, Some 9)"
    by (simp add: ensure_browser_def browser_reuse_def window_id_for_def)
  show ?thesis unfolding Let_def e snd_conv by (rule browser_answer_sound[OF e])
qed

text \<open>
  The report shows the processes that use most memory: at most fifteen, in descending order, each of them running, and
  no process left out uses more memory than one that is listed.
\<close>

theorem report_shows_largest:
  "let shown = sr_processes (collect ps ds fake battery now ok)
   in \<exists>rest. mset ps = mset shown + mset rest \<and> length shown = min 15 (length ps)
     \<and> sorted_wrt (\<lambda>p q. pi_mem_bytes q \<le> pi_mem_bytes p) shown
     \<and> (\<forall>p\<in>set shown. \<forall>q\<in>set rest. pi_mem_bytes q \<le> pi_mem_bytes p)"
proof -
  define xs where "xs = sort_key (\<lambda>p. - uint (pi_mem_bytes p)) ps"
  have sorted: "sorted_wrt (\<lambda>p q. pi_mem_bytes q \<le> pi_mem_bytes p) (take 15 xs @ drop 15 xs)"
    using sorted_sort_key[of "\<lambda>p. - uint (pi_mem_bytes p)" ps] by (simp add: xs_def sorted_map word_le_def)
  moreover have "mset ps = mset (take 15 xs) + mset (drop 15 xs)" unfolding mset_append[symmetric] by (simp add: xs_def)
  moreover have "length (take 15 xs) = min 15 (length ps)" by (simp add: xs_def min.commute)
  moreover have "sr_processes (collect ps ds fake battery now ok) = take 15 xs"
    by (simp add: collect_def xs_def Let_def split: prod.split)
  ultimately show ?thesis unfolding Let_def sorted_wrt_append by metis
qed

end
