(* ===== verification/Kmc_Agent.thy ===== *)
theory Kmc_Agent
  imports Kmc_AgentTools
begin

text \<open>
  The agent's life with the hub: its configuration (\<^verbatim>\<open>kmc-agent/src/config.rs\<close>), provisioning (\<^verbatim>\<open>provision.rs\<close>), the connection
  and the reconnect loop (\<^verbatim>\<open>run.rs\<close>) and the start (\<^verbatim>\<open>main.rs\<close>), and its life against the hub of \<open>Kmc_Hub\<close>. Requests that
  fail on the way, the state file and random values are arguments.
\<close>

section \<open>Configuration\<close>

record agent_state =
  as_agent_id :: uuid
  as_name :: string
  as_provision_token :: token

definition agent_hub_url :: "(string \<rightharpoonup> string) \<Rightarrow> string" where
  "agent_hub_url env = (case env ''KMC_HUB_URL'' of Some u \<Rightarrow> u | None \<Rightarrow> ''http://127.0.0.1:8080'')"

definition status_interval_secs :: "(string \<rightharpoonup> string) \<Rightarrow> nat" where
  "status_interval_secs env =
     (case Option.bind (env ''KMC_STATUS_INTERVAL_SECS'') (parse_uint (2 ^ 64 - 1)) of Some n \<Rightarrow> n | None \<Rightarrow> 5)"

fun replace_first :: "string \<Rightarrow> string \<Rightarrow> string \<Rightarrow> string" where
  "replace_first p r s =
     (if take (length p) s = p then r @ drop (length p) s
      else case s of [] \<Rightarrow> [] | c # cs \<Rightarrow> c # replace_first p r cs)"

declare replace_first.simps [simp del]

definition ws_url :: "string \<Rightarrow> string" where
  "ws_url hub_url =
     (let base = replace_first ''http://'' ''ws://'' (replace_first ''https://'' ''wss://'' hub_url)
      in rev (dropWhile (\<lambda>c. c = CHR ''/'') (rev base)) @ ''/agent/ws'')"

section \<open>Provisioning\<close>

text \<open>
  \<open>Garbled\<close> is a file that does not parse. The hub's answers: \<open>reply mac k\<close> is what the k-th request for \<open>mac\<close> brings, \<^term>\<open>None\<close> for
  any failure. The result comes with the state file afterwards and the seconds slept. A file that cannot be
  written counts as one that stays as it was.
\<close>

datatype state_file = NoFile | Garbled | Saved agent_state

definition hexd :: "nat \<Rightarrow> char" where "hexd n = ''0123456789abcdef'' ! (n mod 16)"

definition placeholder_mac :: "u8 \<Rightarrow> u8 \<Rightarrow> u8 \<Rightarrow> string" where
  "placeholder_mac a b c =
     ''00:00:00'' @ concat (map (\<lambda>x. [CHR '':'', hexd (unat x div 16), hexd (unat x)]) [a, b, c])"

definition fallback_name :: "u32 \<Rightarrow> string" where
  "fallback_name r =
     ''student-temp-'' @ map (\<lambda>k. hexd (unat (r AND 0xFFFFFF) div 16 ^ k)) [5, 4, 3, 2, 1, 0]"

definition try_provision :: "laptop response option \<Rightarrow> agent_state option" where
  "try_provision answer =
     (case answer of
        Some (Ok_200 l) \<Rightarrow>
          Some \<lparr>as_agent_id = lt_agent_id l, as_name = lt_name l, as_provision_token = lt_provision_token l\<rparr>
      | _ \<Rightarrow> None)"

definition delays :: "nat list" where "delays = [1, 2, 4, 8, 16, 30]"

fun provision_attempts :: "(nat \<Rightarrow> agent_state option) \<Rightarrow> nat \<Rightarrow> nat list \<Rightarrow> agent_state option \<times> nat" where
  "provision_attempts reply k [] = (None, 0)"
| "provision_attempts reply k (d # ds) =
     (case reply k of
        Some st \<Rightarrow> (Some st, 0)
      | None \<Rightarrow> (let (r, t) = provision_attempts reply (Suc k) ds in (r, (if ds \<noteq> [] then d else 0) + t)))"

record provision_env =
  pv_mac :: "string option"
  pv_random :: "u8 \<times> u8 \<times> u8"
  pv_reply :: "string \<Rightarrow> nat \<Rightarrow> agent_state option"
  pv_save_ok :: bool
  pv_fresh_id :: uuid
  pv_fresh_name :: u32

definition agent_mac :: "provision_env \<Rightarrow> string" where
  "agent_mac v = (case pv_mac v of Some m \<Rightarrow> m | None \<Rightarrow> (case pv_random v of (a, b, c) \<Rightarrow> placeholder_mac a b c))"

definition agent_provision :: "provision_env \<Rightarrow> state_file \<Rightarrow> agent_state option \<times> state_file \<times> nat" where
  "agent_provision v file =
     (case file of
        Saved st \<Rightarrow> (Some st, file, 0)
      | _ \<Rightarrow>
        case provision_attempts (pv_reply v (agent_mac v)) 0 delays of
          (Some st, t) \<Rightarrow> if pv_save_ok v then (Some st, Saved st, t) else (None, file, t)
        | (None, t) \<Rightarrow>
            (Some \<lparr>as_agent_id = pv_fresh_id v, as_name = fallback_name (pv_fresh_name v), as_provision_token = []\<rparr>, file, t))"

section \<open>One connection\<close>

datatype hub_frame = HubText "hub_to_agent option" | HubClose | HubEnd | HubOther | HubError string

definition hello_of :: "agent_state \<Rightarrow> string option \<Rightarrow> agent_to_hub" where
  "hello_of st addr = Hello (as_agent_id st) (as_name st) (as_provision_token st) addr"

text \<open>\<^term>\<open>None\<close>: still waiting; otherwise the error, or the frames left over.\<close>

fun await_hello_ok :: "hub_frame list \<Rightarrow> (string + hub_frame list) option" where
  "await_hello_ok [] = None"
| "await_hello_ok (HubText (Some HelloOk) # fs) = Some (Inr fs)"
| "await_hello_ok (HubText _ # fs) = await_hello_ok fs"
| "await_hello_ok (HubClose # fs) = Some (Inl ''hub closed connection during hello (auth failed?)'')"
| "await_hello_ok (HubEnd # fs) = Some (Inl ''hub closed connection during hello (auth failed?)'')"
| "await_hello_ok (HubOther # fs) = await_hello_ok fs"
| "await_hello_ok (HubError e # fs) = Some (Inl (''ws error during hello: '' @ e))"

text \<open>
  After the hello: the receive loop, the tasks of the commands that still run, the queue of outgoing messages and the two
  helper tasks. \<open>lk_end\<close> is the result of the receive loop once it has ended.
\<close>

record link =
  lk_running :: "command_request list"
  lk_queue :: "agent_to_hub list"
  lk_sent :: "agent_to_hub list"
  lk_sending :: bool
  lk_ticking :: bool
  lk_end :: "(string + unit) option"

definition link_new :: "nat \<Rightarrow> link" where
  "link_new interval_secs =
     \<lparr>lk_running = [], lk_queue = [], lk_sent = [], lk_sending = True, lk_ticking = (interval_secs \<noteq> 0), lk_end = None\<rparr>"

datatype link_event = LinkFrame hub_frame | LinkDone nat exec_env | LinkTick status_report | LinkSend bool

definition link_close :: "string + unit \<Rightarrow> link \<Rightarrow> link" where
  "link_close r l = l\<lparr>lk_end := Some r, lk_sending := False, lk_ticking := False, lk_queue := []\<rparr>"

definition link_post :: "agent_to_hub \<Rightarrow> link \<Rightarrow> link" where
  "link_post m l = (if lk_sending l then l\<lparr>lk_queue := lk_queue l @ [m]\<rparr> else l)"

definition link_frame :: "hub_frame \<Rightarrow> link \<Rightarrow> link" where
  "link_frame f l =
     (if lk_end l \<noteq> None then l
      else case f of
        HubText (Some (RunCommand req)) \<Rightarrow> l\<lparr>lk_running := lk_running l @ [req]\<rparr>
      | HubText _ \<Rightarrow> l
      | HubOther \<Rightarrow> l
      | HubClose \<Rightarrow> link_close (Inr ()) l
      | HubEnd \<Rightarrow> link_close (Inr ()) l
      | HubError e \<Rightarrow> link_close (Inl (''ws recv: '' @ e)) l)"

definition link_step :: "link_event \<Rightarrow> link \<Rightarrow> link" where
  "link_step e l =
     (case e of
        LinkFrame f \<Rightarrow> link_frame f l
      | LinkDone k v \<Rightarrow>
          if k < length (lk_running l)
          then link_post (CommandResult (exec_run v (lk_running l ! k)))
                 (l\<lparr>lk_running := take k (lk_running l) @ drop (Suc k) (lk_running l)\<rparr>)
          else l
      | LinkTick r \<Rightarrow>
          if \<not> lk_ticking l then l
          else if lk_sending l then link_post (Status r) l
          else l\<lparr>lk_ticking := False\<rparr>
      | LinkSend ok \<Rightarrow>
          if \<not> lk_sending l then l
          else (case lk_queue l of
              [] \<Rightarrow> l
            | m # ms \<Rightarrow>
                if ok then l\<lparr>lk_queue := ms, lk_sent := lk_sent l @ [m]\<rparr>
                else l\<lparr>lk_queue := [], lk_sending := False\<rparr>))"

section \<open>The reconnect loop\<close>

record agent =
  ag_state :: agent_state
  ag_file :: state_file

definition is_auth_failure :: "string \<Rightarrow> bool" where
  "is_auth_failure e \<longleftrightarrow> contains ''during hello'' e"

definition agent_turn :: "provision_env \<Rightarrow> bool \<Rightarrow> string + unit \<Rightarrow> agent \<Rightarrow> agent" where
  "agent_turn v removed r ag =
     (case r of
        Inr _ \<Rightarrow> ag
      | Inl e \<Rightarrow>
          if is_auth_failure e then
            let file = (if removed then NoFile else ag_file ag); (res, file', t) = agent_provision v file
            in case res of
                 Some fresh \<Rightarrow> if as_provision_token fresh \<noteq> [] then ag\<lparr>ag_state := fresh, ag_file := file'\<rparr> else ag\<lparr>ag_file := file'\<rparr>
               | None \<Rightarrow> ag\<lparr>ag_file := file'\<rparr>
          else ag)"

definition agent_run :: "agent_state \<Rightarrow> state_file \<Rightarrow> (provision_env \<times> bool \<times> (string + unit)) list \<Rightarrow> string + agent" where
  "agent_run st file turns =
     (if as_provision_token st = [] then Inl ''no provision token''
      else Inr (fold (\<lambda>(v, removed, r). agent_turn v removed r) turns \<lparr>ag_state = st, ag_file = file\<rparr>))"

section \<open>The start\<close>

datatype start_action = WaitTailnet | EnsureDaemon | UnifyBrowser | StartHost string | RunLoop agent_state

definition agent_main :: "bool \<Rightarrow> provision_env \<Rightarrow> state_file \<Rightarrow> string option \<Rightarrow> start_action list" where
  "agent_main first v file ip =
     (if \<not> first then []
      else case agent_provision v file of
        (None, _, _) \<Rightarrow> []
      | (Some st, _, _) \<Rightarrow>
          [WaitTailnet, EnsureDaemon, UnifyBrowser] @ (case ip of Some a \<Rightarrow> [StartHost a] | None \<Rightarrow> []) @ [RunLoop st])"

section \<open>Provisioning and healing\<close>

lemma provision_attempts_first [simp]:
  "reply k = Some st \<Longrightarrow> provision_attempts reply k (d # ds) = (Some st, 0)"
  by simp

lemma provision_attempts_none: "\<forall>k. reply k = None \<Longrightarrow> fst (provision_attempts reply k ds) = None"
  by (induction ds arbitrary: k) (simp_all add: case_prod_unfold)

lemma provision_attempts_bounds:
  "fst (provision_attempts reply k ds) = Some st \<Longrightarrow> \<exists>j. k \<le> j \<and> j < k + length ds \<and> reply j = Some st"
  "snd (provision_attempts reply k ds) \<le> sum_list (butlast ds)"
proof (induction reply k ds rule: provision_attempts.induct)
  case (2 reply k d ds)
  obtain r t where rt: "provision_attempts reply (Suc k) ds = (r, t)" by (cases "provision_attempts reply (Suc k) ds")
  { case 1
    then show ?case using 2 rt by (cases "reply k") (auto intro: exI[where x = k] simp: Suc_le_eq dest: less_imp_le)
  next
    case 2
    then show ?case using "2.IH" rt by (cases "reply k") auto
  }
qed simp_all

text \<open>
  Provisioning is bounded and careful with the state file. A stored identity is used as it is; otherwise at most six requests
  with at most 31 seconds of waiting between them are made, the file changes only to the identity the hub has just handed out, and
  an identity made up locally has no token and is never stored.
\<close>

theorem provision_bounded:
  "case agent_provision v file of (res, file', t) \<Rightarrow>
     t \<le> 31
     \<and> (case file of Saved st \<Rightarrow> res = Some st \<and> file' = file \<and> t = 0 | _ \<Rightarrow>
         file' = file \<and> (\<forall>st. res = Some st \<longrightarrow> as_provision_token st = [])
         \<or> (\<exists>st k. k < 6 \<and> pv_reply v (agent_mac v) k = Some st \<and> res = Some st \<and> file' = Saved st))"
proof -
  obtain r t where rt: "provision_attempts (pv_reply v (agent_mac v)) 0 delays = (r, t)"
    by (cases "provision_attempts (pv_reply v (agent_mac v)) 0 delays")
  have t: "t \<le> 31" using provision_attempts_bounds(2)[of "pv_reply v (agent_mac v)" 0 delays] rt by (simp add: delays_def)
  have len: "length delays = 6" by (simp add: delays_def)
  have six: "\<exists>k<6. pv_reply v (agent_mac v) k = Some st" if "r = Some st" for st
    using provision_attempts_bounds(1)[of "pv_reply v (agent_mac v)" 0 delays st] unfolding rt fst_conv len using that by auto
  show ?thesis 
    by (cases "file"; cases "r") (use t six in \<open>auto simp: agent_provision_def rt\<close>)
qed

lemma hello_errors_are_auth_failures: "await_hello_ok fs = Some (Inl e) \<Longrightarrow> is_auth_failure e"
proof (induction fs rule: await_hello_ok.induct)
  case (7 e' fs)
  have "after ''during hello'' (''ws error '' @ ''during hello'' @ '': '' @ e') \<noteq> None"
    by (simp add: after.simps)
  then show ?case using 7 by (simp add: is_auth_failure_def contains_def)
qed (auto simp: is_auth_failure_def contains_def after.simps)

lemma agent_connect_online:
  assumes "agent_hello (hello_of st addr) h = Some (as_agent_id st, name, r)"
  shows "hub_online (snd (agent_connect us (hello_of st addr) ip True h)) (as_agent_id st) \<noteq> None"
  using assms by (auto simp: agent_connect_def register_online_def register_addr_def Let_def split: option.splits)

text \<open>
  C12: the agent heals itself. When the hub refuses its hello, as after a reset of the hub's database, the agent drops
  its identity, provisions again, and with the first answer of the hub it has an identity that this hub accepts: the next hello is
  registered under the hub's name, the connection brings the agent online, and the state file holds the new identity.
\<close>

theorem agent_self_heals:
  assumes "await_hello_ok fs = Some (Inl e)"
    and "hub_inv h" "fresh_id \<notin> lt_agent_id ` set (hub_laptops h)" "fresh_token \<noteq> []"
    and "\<forall>l\<in>set (hub_laptops h). lt_provision_token l \<noteq> []"
    and "pv_reply v (agent_mac v) 0 = try_provision (Some (fst (provision fresh_id fresh_token (agent_mac v) h)))" "pv_save_ok v"
  shows "let h' = snd (provision fresh_id fresh_token (agent_mac v) h); ag' = agent_turn v True (Inl e) ag; st = ag_state ag'
    in agent_hello (hello_of st addr) h' = Some (as_agent_id st, as_name st, addr) \<and> ag_file ag' = Saved st
      \<and> hub_online (snd (agent_connect us (hello_of st addr) ip True h')) (as_agent_id st) \<noteq> None"
proof -
  let ?g = "get_or_create_laptop fresh_id fresh_token (agent_mac v) (hub_laptops h)"
  obtain l ls where g: "?g = Some (l, ls)" using assms(3) by (cases ?g) (auto simp: get_or_create_laptop_def Let_def split: option.splits)
  then have tok: "lt_provision_token l \<noteq> []"
    using assms(4,5) by (cases rule: get_or_create_cases) (auto simp: find_Some_iff)
  let ?h = "h\<lparr>hub_laptops := ls\<rparr>"
  have p: "provision fresh_id fresh_token (agent_mac v) h = (Ok_200 l, ?h)" using g by (simp add: provision_def)
  let ?st = "\<lparr>as_agent_id = lt_agent_id l, as_name = lt_name l, as_provision_token = lt_provision_token l\<rparr>"
  have "pv_reply v (agent_mac v) 0 = Some ?st" using assms(6) p by (simp add: try_provision_def)
  then have "agent_provision v NoFile = (Some ?st, Saved ?st, 0)" using assms(7) by (simp add: agent_provision_def delays_def)
  then have turn: "agent_turn v True (Inl e) ag = ag\<lparr>ag_state := ?st, ag_file := Saved ?st\<rparr>"
    using hello_errors_are_auth_failures[OF assms(1)] tok by (simp add: agent_turn_def)
  have hello: "agent_hello (hello_of ?st addr) ?h = Some (lt_agent_id l, lt_name l, addr)"
    using provision_hello_roundtrip[OF assms(2) p, of "lt_name l" addr] by (simp add: hello_of_def)
  then show ?thesis using agent_connect_online[of ?st addr ?h "lt_name l" addr us ip] by (simp add: p turn Let_def)
qed

definition sample_provision :: provision_env where
  "sample_provision =
     \<lparr>pv_mac = Some ''cc:dd'', pv_random = (1, 2, 3),
      pv_reply = (\<lambda>mac k. try_provision (Some (fst (provision 9 ''tok9'' ''cc:dd'' sample_hub)))),
      pv_save_ok = True, pv_fresh_id = 5, pv_fresh_name = 6\<rparr>"

definition stale_agent :: agent where
  "stale_agent =
     (let st = \<lparr>as_agent_id = 3, as_name = ''student-03'', as_provision_token = ''old''\<rparr> in \<lparr>ag_state = st, ag_file = Saved st\<rparr>)"

theorem agent_self_heals_witness:
  "let h' = snd (provision 9 ''tok9'' ''cc:dd'' sample_hub);
       ag' = agent_turn sample_provision True (Inl ''hub closed connection during hello (auth failed?)'') stale_agent
   in agent_hello (hello_of (ag_state stale_agent) None) h' = None
     \<and> agent_hello (hello_of (ag_state ag') None) h' = Some (as_agent_id (ag_state ag'), as_name (ag_state ag'), None)"
proof -
  have mac: "agent_mac sample_provision = ''cc:dd''" by (simp add: agent_mac_def sample_provision_def)
  have old: "agent_hello (hello_of (ag_state stale_agent) None) (snd (provision 9 ''tok9'' ''cc:dd'' sample_hub)) = None" by code_simp
  have laptops: "hub_laptops sample_hub = [sample_laptop]" by (simp add: sample_hub_def hub_new_def)
  have reply: "pv_reply sample_provision m k = try_provision (Some (fst (provision 9 ''tok9'' ''cc:dd'' sample_hub)))"
      "pv_save_ok sample_provision" for m k
    by (simp_all add: sample_provision_def)
  have closed: "await_hello_ok [HubClose] = Some (Inl ''hub closed connection during hello (auth failed?)'')" by simp
  have "let h' = snd (provision 9 ''tok9'' (agent_mac sample_provision) sample_hub);
      ag' = agent_turn sample_provision True (Inl ''hub closed connection during hello (auth failed?)'') stale_agent; st = ag_state ag'
    in agent_hello (hello_of st None) h' = Some (as_agent_id st, as_name st, None) \<and> ag_file ag' = Saved st
      \<and> hub_online (snd (agent_connect show_nat (hello_of st None) ''10.0.0.9'' True h')) (as_agent_id st) \<noteq> None"
    by (rule agent_self_heals[OF closed sample_hub_inv])
      (simp_all add: mac laptops sample_laptop_def reply)
  then show ?thesis using old unfolding mac Let_def by blast
qed

text \<open>
  C35: a broken connection can cost the agent its identity. Any transport error while it waits for the hub's answer counts as a refusal, so
  the state file is removed; if the hub cannot be reached for the next half minute, the file is gone, and after a restart that finds the hub
  still out of reach the agent gives up instead of reconnecting, although the hub would have accepted it. With the file kept it
  would have connected with its identity.
\<close>

theorem broken_hello_loses_identity:
  assumes "\<forall>mac k. pv_reply v mac k = None" "as_provision_token st \<noteq> []"
  shows "await_hello_ok (replicate n HubOther @ [HubError e]) = Some (Inl (''ws error during hello: '' @ e))
    \<and> ag_file (agent_turn v True (Inl (''ws error during hello: '' @ e)) \<lparr>ag_state = st, ag_file = Saved st\<rparr>) = NoFile
    \<and> (\<exists>st' t. agent_provision v NoFile = (Some st', NoFile, t) \<and> agent_run st' NoFile turns = Inl ''no provision token'')
    \<and> (\<exists>ag. agent_provision v (Saved st) = (Some st, Saved st, 0) \<and> agent_run st (Saved st) turns = Inr ag)"
proof -
  have w: "await_hello_ok (replicate n HubOther @ [HubError e]) = Some (Inl (''ws error during hello: '' @ e))"
    by (induction n) simp_all
  obtain r t where rt: "provision_attempts (pv_reply v (agent_mac v)) 0 delays = (r, t)"
    by (cases "provision_attempts (pv_reply v (agent_mac v)) 0 delays")
  then have "r = None" using provision_attempts_none[of "pv_reply v (agent_mac v)" 0 delays] assms(1) by simp
  then have p: "\<exists>st' t. agent_provision v NoFile = (Some st', NoFile, t) \<and> as_provision_token st' = []"
    using rt by (simp add: agent_provision_def)
  then have "ag_file (agent_turn v True (Inl (''ws error during hello: '' @ e)) \<lparr>ag_state = st, ag_file = Saved st\<rparr>) = NoFile"
    using hello_errors_are_auth_failures[OF w] by (auto simp: agent_turn_def)
  then show ?thesis using w p assms(2) by (auto simp: agent_run_def agent_provision_def)
qed

theorem broken_hello_loses_identity_witness:
  "ag_file (agent_turn (sample_provision\<lparr>pv_reply := \<lambda>m k. None\<rparr>) True (Inl (''ws error during hello: '' @ ''reset''))
     \<lparr>ag_state = ag_state stale_agent, ag_file = Saved (ag_state stale_agent)\<rparr>) = NoFile"
proof -
  have a: "as_provision_token (ag_state stale_agent) \<noteq> []" by (simp add: stale_agent_def Let_def)
  have b: "\<forall>mac k. pv_reply (sample_provision\<lparr>pv_reply := \<lambda>m k. None\<rparr>) mac k = None" by simp
  show ?thesis using broken_hello_loses_identity[OF b a, of 0 "''reset''" "[]"] by blast
qed

section \<open>Commands over a connection\<close>

abbreviation link_run :: "link_event list \<Rightarrow> link \<Rightarrow> link" where "link_run \<equiv> fold link_step"

definition asked_ids :: "link_event list \<Rightarrow> uuid list" where
  "asked_ids es = concat (map (\<lambda>e. case e of LinkFrame (HubText (Some (RunCommand req))) \<Rightarrow> [cr_command_id req] | _ \<Rightarrow> []) es)"

definition answered_ids :: "agent_to_hub list \<Rightarrow> uuid list" where
  "answered_ids ms = concat (map (\<lambda>m. case m of CommandResult r \<Rightarrow> [cres_command_id r] | _ \<Rightarrow> []) ms)"

definition link_ids :: "link \<Rightarrow> uuid multiset" where
  "link_ids l = mset (answered_ids (lk_sent l)) + mset (answered_ids (lk_queue l)) + mset (map cr_command_id (lk_running l))"

lemma answered_ids_simps [simp]:
  "answered_ids [] = []" "answered_ids (xs @ ys) = answered_ids xs @ answered_ids ys"
  "answered_ids (Status r # ms) = answered_ids ms"
  "answered_ids (CommandResult c # ms) = cres_command_id c # answered_ids ms"
  "answered_ids (Hello a n t s # ms) = answered_ids ms"
  by (simp_all add: answered_ids_def)

lemma drop_mset: "k < length xs \<Longrightarrow> mset xs = mset (take k xs @ drop (Suc k) xs) + {# xs ! k #}"
  by (metis add_mset_add_single id_take_nth_drop mset.simps(2) mset_append union_mset_add_mset_right)

lemma link_step_ids:
  "link_ids (link_step e l) \<subseteq># link_ids l + mset (asked_ids [e])"
  "lk_end (link_step e l) = None \<Longrightarrow> lk_sending (link_step e l) \<Longrightarrow>
     lk_end l = None \<and> lk_sending l \<and> link_ids (link_step e l) = link_ids l + mset (asked_ids [e])"
proof -
  consider (fr) f where "e = LinkFrame f" | (fin) k v where "e = LinkDone k v" | (tick) r where "e = LinkTick r"
    | (send) ok where "e = LinkSend ok" by (cases e)
  then have "link_ids (link_step e l) \<subseteq># link_ids l + mset (asked_ids [e])
    \<and> (lk_end (link_step e l) = None \<longrightarrow> lk_sending (link_step e l) \<longrightarrow>
       lk_end l = None \<and> lk_sending l \<and> link_ids (link_step e l) = link_ids l + mset (asked_ids [e]))"
  proof cases
    case fin
    show ?thesis
    proof (cases "k < length (lk_running l)")
      case True
      define req where "req = lk_running l ! k"
      define rest where "rest = take k (lk_running l) @ drop (Suc k) (lk_running l)"
      have step: "link_step e l = link_post (CommandResult (exec_run v req)) (l\<lparr>lk_running := rest\<rparr>)"
        using True by (simp add: fin link_step_def req_def rest_def)
      have "mset (lk_running l) = mset rest + {# req #}" using drop_mset[OF True] by (simp only: rest_def req_def)
      then have "image_mset cr_command_id (mset (lk_running l)) = image_mset cr_command_id (mset rest) + {# cr_command_id req #}"
        by simp
      then show ?thesis unfolding step
        by (cases "lk_sending l") (simp_all add: fin link_post_def link_ids_def asked_ids_def)
    qed (simp add: fin link_step_def asked_ids_def)
  next
    case send
    show ?thesis
    proof (cases "lk_queue l")
      case (Cons m ms)
      then show ?thesis
        by (cases m; cases ok) (simp_all add: send link_step_def link_ids_def asked_ids_def)
    qed (simp add: send link_step_def asked_ids_def)
  qed (auto simp: link_step_def link_frame_def link_close_def link_post_def link_ids_def asked_ids_def
      split: hub_frame.splits option.splits hub_to_agent.splits)
  then show "link_ids (link_step e l) \<subseteq># link_ids l + mset (asked_ids [e])"
    and "lk_end (link_step e l) = None \<Longrightarrow> lk_sending (link_step e l) \<Longrightarrow>
     lk_end l = None \<and> lk_sending l \<and> link_ids (link_step e l) = link_ids l + mset (asked_ids [e])" by blast+
qed

lemma asked_ids_append: "asked_ids (e # es) = asked_ids [e] @ asked_ids es"
  by (simp add: asked_ids_def)

lemma link_run_ids:
  "link_ids (link_run es l) \<subseteq># link_ids l + mset (asked_ids es)"
  "lk_end (link_run es l) = None \<Longrightarrow> lk_sending (link_run es l) \<Longrightarrow>
     lk_end l = None \<and> lk_sending l \<and> link_ids (link_run es l) = link_ids l + mset (asked_ids es)"
proof (induction es arbitrary: l)
  case (Cons e es)
  { case 1
    have "link_ids (link_run es (link_step e l)) \<subseteq># link_ids l + mset (asked_ids [e]) + mset (asked_ids es)"
      using Cons.IH(1)[of "link_step e l"] link_step_ids(1)[of e l] by (meson subset_mset.add_right_mono subset_mset.order_trans)
    then show ?case unfolding asked_ids_append[of e es] by (simp add: ac_simps)
  next
    case 2
    then show ?case using Cons.IH(2)[of "link_step e l"] link_step_ids(2)[of e l] unfolding asked_ids_append[of e es]
      by (simp add: ac_simps)
  }
qed (simp_all add: asked_ids_def)

text \<open>
  C13: every command is answered exactly once. On a connection each command of the hub is running, or its result is waiting
  to be sent, or it has been sent, however commands overlap and in whatever order they finish; no result is sent for a
  command that was not received, and none twice, also after the connection or its sender broke down.
\<close>

theorem commands_answered_exactly_once:
  "let l = link_run es (link_new interval)
   in mset (answered_ids (lk_sent l)) + mset (answered_ids (lk_queue l)) + mset (map cr_command_id (lk_running l))
        \<subseteq># mset (asked_ids es)
     \<and> (lk_end l = None \<and> lk_sending l \<longrightarrow>
          mset (answered_ids (lk_sent l)) + mset (answered_ids (lk_queue l)) + mset (map cr_command_id (lk_running l))
            = mset (asked_ids es))"
proof -
  have "link_ids (link_new interval) = {#}" by (simp add: link_ids_def link_new_def)
  then show ?thesis using link_run_ids[of es "link_new interval"] unfolding link_ids_def Let_def by simp
qed

theorem commands_answered_exactly_once_witness:
  "let es = [LinkFrame (HubText (Some (RunCommand \<lparr>cr_command_id = 4, cr_kind = PowerShell ''dir'', cr_destructive = False\<rparr>)))];
       l = link_run es (link_new 5)
   in mset (answered_ids (lk_sent l)) + mset (answered_ids (lk_queue l)) + mset (map cr_command_id (lk_running l)) = {# 4 #}"
proof -
  let ?es = "[LinkFrame (HubText (Some (RunCommand \<lparr>cr_command_id = 4, cr_kind = PowerShell ''dir'', cr_destructive = False\<rparr>)))]"
  have "lk_end (link_run ?es (link_new 5)) = None \<and> lk_sending (link_run ?es (link_new 5))"
    by (simp add: link_step_def link_frame_def link_new_def)
  moreover have "asked_ids ?es = [4]" by (simp add: asked_ids_def)
  ultimately show ?thesis using commands_answered_exactly_once[of ?es 5] by (simp only: Let_def) simp
qed

lemma flush_queue:
  assumes "lk_sending l"
  shows "link_run (replicate (length (lk_queue l)) (LinkSend True)) l = l\<lparr>lk_queue := [], lk_sent := lk_sent l @ lk_queue l\<rparr>"
  using assms
proof (induction "lk_queue l" arbitrary: l)
  case (Cons m ms)
  let ?l = "l\<lparr>lk_queue := ms, lk_sent := lk_sent l @ [m]\<rparr>"
  have "link_step (LinkSend True) l = ?l" using Cons.hyps(2)[symmetric] Cons.prems by (simp add: link_step_def)
  then show ?case using Cons.hyps(1)[of ?l] Cons.hyps(2)[symmetric] Cons.prems by simp
qed simp



end
