(* ===== verification/Kmc_Admin.thy ===== *)
theory Kmc_Admin
  imports Kmc_Agent "HOL-Library.AList"
begin

text \<open>
  The administrator's application against the hub (\<^verbatim>\<open>kmc-admin/src-tauri/src/lib.rs\<close>): its session, its mirror of the hub's
  agents, its requests and the hint about the tailnet. The HTTP client is a parameter: a request brings
  \<^term>\<open>None\<close> when it fails on the way, else the hub's response. The last section runs it against \<open>Kmc_Hub\<close> and \<open>Kmc_Agent\<close>.
\<close>

section \<open>State and mirror\<close>

record admin_session =
  as_hub_url :: string
  as_token :: token
  as_username :: string

datatype ui_event = UiAgents "agent_view list" | UiAlert uuid alert_level string

record backend =
  bk_session :: "admin_session option"
  bk_agents :: "(uuid \<times> agent_view) list"
  bk_ws :: "string option"
  bk_ui :: "ui_event list"

definition backend_new :: backend where
  "backend_new = \<lparr>bk_session = None, bk_agents = [], bk_ws = None, bk_ui = []\<rparr>"

definition admin_ws_url :: "string \<Rightarrow> token \<Rightarrow> string" where
  "admin_ws_url hub_url token =
     (let base = replace_first ''http://'' ''ws://'' (replace_first ''https://'' ''wss://'' hub_url)
      in rev (dropWhile (\<lambda>c. c = CHR ''/'') (rev base)) @ ''/admin/ws?token='' @ token)"

text \<open>Agents of equal name come in the order of the hash map, which the model does not fix: here the order of insertion.\<close>

definition emit_agents :: "backend \<Rightarrow> backend" where
  "emit_agents b =
     b\<lparr>bk_ui := bk_ui b @ [UiAgents (sort_key (\<lambda>v. map (of_char :: char \<Rightarrow> nat) (av_name v)) (map snd (bk_agents b)))]\<rparr>"

definition put_agent :: "agent_view \<Rightarrow> (uuid \<times> agent_view) list \<Rightarrow> (uuid \<times> agent_view) list" where
  "put_agent v m = AList.update (av_agent_id v) v m"

definition handle_hub_msg :: "hub_to_admin \<Rightarrow> backend \<Rightarrow> backend" where
  "handle_hub_msg msg b =
     (case msg of
        Snapshot agents \<Rightarrow> emit_agents (b\<lparr>bk_agents := fold put_agent agents []\<rparr>)
      | AgentUpdated agent \<Rightarrow> emit_agents (b\<lparr>bk_agents := put_agent agent (bk_agents b)\<rparr>)
      | Alert agent_id level message \<Rightarrow> b\<lparr>bk_ui := bk_ui b @ [UiAlert agent_id level message]\<rparr>)"

datatype admin_frame = AdminText "hub_to_admin option" | AdminClose | AdminError | AdminOther

fun read_ws :: "admin_frame list \<Rightarrow> backend \<Rightarrow> backend" where
  "read_ws [] b = b"
| "read_ws (AdminText (Some msg) # fs) b = read_ws fs (handle_hub_msg msg b)"
| "read_ws (AdminText None # fs) b = read_ws fs b"
| "read_ws (AdminClose # fs) b = b"
| "read_ws (AdminError # fs) b = b"
| "read_ws (AdminOther # fs) b = read_ws fs b"

text \<open>One connection after the other, as long as there is a session; a failed connection attempt is \<^term>\<open>None\<close>.\<close>

fun run_ws :: "admin_frame list option list \<Rightarrow> backend \<Rightarrow> backend" where
  "run_ws [] b = b"
| "run_ws (c # cs) b =
     (if bk_session b = None then b
      else run_ws cs (case c of Some fs \<Rightarrow> read_ws fs b | None \<Rightarrow> b))"

section \<open>Requests\<close>

datatype admin_error = NotLoggedIn | RequestFailed | HttpStatus nat | BadBody

definition require_session :: "backend \<Rightarrow> admin_error + admin_session" where
  "require_session b = (case bk_session b of Some s \<Rightarrow> Inr s | None \<Rightarrow> Inl NotLoggedIn)"

definition bearer_auth :: "admin_session \<Rightarrow> string option" where
  "bearer_auth s = Some (''Bearer '' @ as_token s)"

text \<open>The status check and the decoding that every request ends with.\<close>

definition response_body :: "'a response option \<Rightarrow> admin_error + 'a" where
  "response_body answer =
     (case answer of None \<Rightarrow> Inl RequestFailed | Some (Err code msg) \<Rightarrow> Inl (HttpStatus code) | Some (Ok_200 x) \<Rightarrow> Inr x)"

definition admin_login :: "string \<Rightarrow> string \<Rightarrow> token option response option \<Rightarrow> backend \<Rightarrow> (admin_error + unit) \<times> backend" where
  "admin_login hub_url username answer b =
     (case response_body answer of
        Inl e \<Rightarrow> (Inl e, b)
      | Inr None \<Rightarrow> (Inl BadBody, b)
      | Inr (Some token) \<Rightarrow>
          (Inr (), b\<lparr>bk_session := Some \<lparr>as_hub_url = hub_url, as_token = token, as_username = username\<rparr>, bk_agents := [],
             bk_ws := Some (admin_ws_url hub_url token)\<rparr>))"

definition admin_request_session ::
  "(admin_session \<Rightarrow> (token \<times> string option) response option) \<Rightarrow> backend \<Rightarrow> admin_error + string option" where
  "admin_request_session post b =
     (case require_session b of
        Inl e \<Rightarrow> Inl e
      | Inr s \<Rightarrow> (case response_body (post s) of Inl e \<Rightarrow> Inl e | Inr (session_token, addr) \<Rightarrow> Inr addr))"

definition admin_release_session :: "(admin_session \<Rightarrow> unit response option) \<Rightarrow> backend \<Rightarrow> admin_error + unit" where
  "admin_release_session post b =
     (case require_session b of Inl e \<Rightarrow> Inl e | Inr s \<Rightarrow> response_body (post s))"

definition admin_run_command :: "(admin_session \<Rightarrow> command_result response option) \<Rightarrow> backend \<Rightarrow> admin_error + command_result" where
  "admin_run_command post b =
     (case require_session b of Inl e \<Rightarrow> Inl e | Inr s \<Rightarrow> response_body (post s))"

section \<open>The hint about the tailnet\<close>

datatype ip_addr = V4 u8 u8 u8 u8 | V6 string

definition is_tailnet_ip :: "ip_addr \<Rightarrow> bool" where
  "is_tailnet_ip ip = (case ip of V4 a b c d \<Rightarrow> a = 100 \<and> 64 \<le> b \<and> b < 128 | V6 s \<Rightarrow> False)"

definition TAILNET_PROBE :: ip_addr where "TAILNET_PROBE = V4 100 100 100 100"

text \<open>\<open>route\<close> is the source address that the system picks for a target.\<close>

definition routes_via_tailnet :: "(ip_addr \<Rightarrow> ip_addr option) \<Rightarrow> ip_addr \<Rightarrow> bool" where
  "routes_via_tailnet route target = (case route target of Some a \<Rightarrow> is_tailnet_ip a | None \<Rightarrow> False)"

datatype tailnet_advice = JoinTailnet | CheckNode ip_addr

definition tailnet_hint_for :: "ip_addr \<Rightarrow> bool \<Rightarrow> bool \<Rightarrow> tailnet_advice option" where
  "tailnet_hint_for ip on_tailnet peer_routed =
     (if \<not> on_tailnet then Some JoinTailnet else if \<not> peer_routed then Some (CheckNode ip) else None)"

definition tailnet_hint :: "(ip_addr \<Rightarrow> ip_addr option) \<Rightarrow> ip_addr option \<Rightarrow> tailnet_advice option" where
  "tailnet_hint route target =
     (case target of
        None \<Rightarrow> None
      | Some ip \<Rightarrow>
          if is_tailnet_ip ip
          then let on_tailnet = routes_via_tailnet route TAILNET_PROBE
               in tailnet_hint_for ip on_tailnet (on_tailnet \<and> routes_via_tailnet route ip)
          else None)"

section \<open>The mirror\<close>

definition mirror_msg :: "hub_to_admin \<Rightarrow> (uuid \<rightharpoonup> agent_view) \<Rightarrow> (uuid \<rightharpoonup> agent_view)" where
  "mirror_msg msg m =
     (case msg of
        Snapshot agents \<Rightarrow> fold (\<lambda>v m. m(av_agent_id v \<mapsto> v)) agents Map.empty
      | AgentUpdated v \<Rightarrow> m(av_agent_id v \<mapsto> v)
      | Alert a l s \<Rightarrow> m)"

lemma map_of_fold_put: "map_of (fold put_agent vs m) = fold (\<lambda>v m. m(av_agent_id v \<mapsto> v)) vs (map_of m)"
  by (induction vs arbitrary: m) (simp_all add: put_agent_def update_conv')

lemma mirror_of_backend: "map_of (bk_agents (fold handle_hub_msg msgs b)) = fold mirror_msg msgs (map_of (bk_agents b))"
proof (induction msgs arbitrary: b)
  case (Cons m ms)
  have "map_of (bk_agents (handle_hub_msg m b)) = mirror_msg m (map_of (bk_agents b))"
    by (cases m) (simp_all add: handle_hub_msg_def mirror_msg_def emit_agents_def map_of_fold_put put_agent_def update_conv')
  then show ?case using Cons.IH by simp
qed simp

fun last_update :: "uuid \<Rightarrow> hub_to_admin list \<Rightarrow> agent_view option" where
  "last_update a [] = None"
| "last_update a (m # ms) =
     (case last_update a ms of
        Some v \<Rightarrow> Some v
      | None \<Rightarrow> (case m of AgentUpdated v \<Rightarrow> if av_agent_id v = a then Some v else None | _ \<Rightarrow> None))"

lemma last_update_append [simp]:
  "last_update a (xs @ ys) = (case last_update a ys of Some v \<Rightarrow> Some v | None \<Rightarrow> last_update a xs)"
  by (induction xs) (simp_all split: option.split)

definition is_snapshot :: "hub_to_admin \<Rightarrow> bool" where
  "is_snapshot m = (case m of Snapshot vs \<Rightarrow> True | _ \<Rightarrow> False)"

lemma is_snapshot_simps [simp]: "is_snapshot (Snapshot vs)" "\<not> is_snapshot (AgentUpdated v)" "\<not> is_snapshot (Alert a l s)"
  by (simp_all add: is_snapshot_def)

lemma fold_mirror:
  assumes "\<forall>m\<in>set msgs. \<not> is_snapshot m"
  shows "fold mirror_msg msgs m a = (case last_update a msgs of Some v \<Rightarrow> Some v | None \<Rightarrow> m a)"
  using assms
proof (induction msgs arbitrary: m)
  case (Cons x xs)
  then show ?case by (cases x) (auto simp: mirror_msg_def split: option.split)
qed simp

lemma build_agent_view_id: "build_agent_view a h = Some v \<Longrightarrow> av_agent_id v = a"
  by (auto simp: build_agent_view_def split: option.splits)

lemma snapshot_mirror: "fold (\<lambda>v m. m(av_agent_id v \<mapsto> v)) (hub_snapshot h) Map.empty a = build_agent_view a h"
proof -
  have gen: "fold (\<lambda>v m. m(av_agent_id v \<mapsto> v)) (concat (map (\<lambda>(a, n). case build_agent_view a h of Some v \<Rightarrow> [v] | None \<Rightarrow> []) xs)) m a
      = (if a \<in> fst ` set xs \<and> build_agent_view a h \<noteq> None then build_agent_view a h else m a)" for xs m
  proof (induction xs arbitrary: m)
    case (Cons x xs)
    obtain b n where x: "x = (b, n)" by (cases x)
    show ?case
    proof (cases "build_agent_view b h")
      case None
      then show ?thesis using Cons.IH by (auto simp: x)
    next
      case (Some v)
      then have "av_agent_id v = b" by (rule build_agent_view_id)
      then show ?thesis using Cons.IH Some by (auto simp: x)
    qed
  qed simp
  have "a \<in> fst ` set (all_laptops (hub_laptops h))" if "build_agent_view a h \<noteq> None"
    using that find_None_set[of "\<lambda>l. lt_agent_id l = a" "hub_laptops h"]
    by (force simp: build_agent_view_def laptop_name_def all_laptops_def find_Some_iff image_iff split: option.splits)
  then show ?thesis unfolding hub_snapshot_def gen by (cases "build_agent_view a h") auto
qed

text \<open>
  What a step of the hub announces: for each agent either the last update among the new messages is the agent's view, or
  there is none and the view is as before, except for a laptop that has just been registered, which is offline.
\<close>

definition offline_view :: "uuid \<Rightarrow> string \<Rightarrow> agent_view" where
  "offline_view a n =
     \<lparr>av_agent_id = a, av_name = n, av_online = False, av_status = None, av_controlled_by = None, av_tailscale_addr = None\<rparr>"

definition announces :: "hub \<Rightarrow> hub \<Rightarrow> bool" where
  "announces h h' \<longleftrightarrow>
     (\<exists>xs. hub_bcast h' = hub_bcast h @ xs \<and> (\<forall>m\<in>set xs. \<not> is_snapshot m)
       \<and> (\<forall>a. case last_update a xs of
             Some v \<Rightarrow> build_agent_view a h' = Some v
           | None \<Rightarrow> build_agent_view a h' = build_agent_view a h
               \<or> (build_agent_view a h = None \<and> (\<exists>n. build_agent_view a h' = Some (offline_view a n)))))"

lemma announcesI:
  assumes "hub_bcast h' = hub_bcast h @ xs" "\<forall>m\<in>set xs. \<not> is_snapshot m"
    and "\<And>a v. last_update a xs = Some v \<Longrightarrow> build_agent_view a h' = Some v"
    and "\<And>a. last_update a xs = None \<Longrightarrow> build_agent_view a h' = build_agent_view a h
      \<or> (build_agent_view a h = None \<and> (\<exists>n. build_agent_view a h' = Some (offline_view a n)))"
  shows "announces h h'"
  unfolding announces_def using assms by (intro exI[of _ xs] conjI allI) (simp_all split: option.split)

lemma view_cong:
  assumes "hub_laptops h' = hub_laptops h" "hub_online h' a = hub_online h a" "hub_sessions h' a = hub_sessions h a"
  shows "build_agent_view a h' = build_agent_view a h"
  unfolding build_agent_view_def assms ..

lemma announces_silent:
  assumes "hub_bcast h' = hub_bcast h" "hub_laptops h' = hub_laptops h" "hub_online h' = hub_online h" "hub_sessions h' = hub_sessions h"
  shows "announces h h'"
proof (rule announcesI[of _ _ "[]"])
  show "build_agent_view a h' = build_agent_view a h
      \<or> (build_agent_view a h = None \<and> (\<exists>n. build_agent_view a h' = Some (offline_view a n)))" for a
    using view_cong[of h' h a] assms by simp
qed (simp_all add: assms(1))

lemma announces_one:
  assumes "hub_laptops h' = hub_laptops h" "\<forall>b. b \<noteq> a \<longrightarrow> hub_online h' b = hub_online h b \<and> hub_sessions h' b = hub_sessions h b"
    and "hub_bcast h' = hub_bcast h @ (case build_agent_view a h' of Some v \<Rightarrow> [AgentUpdated v] | None \<Rightarrow> []) @ alerts"
    and "\<forall>m\<in>set alerts. \<exists>b l s. m = Alert b l s"
  shows "announces h h'"
proof -
  have alerts: "last_update b alerts = None" for b using assms(4) by (induction alerts) auto
  have no: "\<forall>m\<in>set alerts. \<not> is_snapshot m" using assms(4) by auto
  have other: "build_agent_view b h' = build_agent_view b h" if "b \<noteq> a" for b
    using that assms(1,2) by (intro view_cong) simp_all
  have known: "build_agent_view a h' = None \<Longrightarrow> build_agent_view a h = None"
    using assms(1) by (auto simp: build_agent_view_def split: option.splits)
  define xs where "xs = (case build_agent_view a h' of Some v \<Rightarrow> [AgentUpdated v] | None \<Rightarrow> []) @ alerts"
  have upd: "last_update b xs = (if b = a then build_agent_view a h' else None)" for b
    by (cases "build_agent_view a h'") (use build_agent_view_id in \<open>auto simp: alerts xs_def\<close>)
  have no_xs: "\<forall>m\<in>set xs. \<not> is_snapshot m" using no by (auto simp: xs_def split: option.split)
  show ?thesis
  proof (rule announcesI[OF assms(3)[folded xs_def] no_xs])
    show "build_agent_view b h' = Some v" if "last_update b xs = Some v" for b v
      using that unfolding upd by (cases "b = a") simp_all
    show "build_agent_view b h' = build_agent_view b h
        \<or> (build_agent_view b h = None \<and> (\<exists>n. build_agent_view b h' = Some (offline_view b n)))" if "last_update b xs = None" for b
    proof (cases "b = a")
      case True
      then show ?thesis using that known unfolding upd by metis
    qed (use other in blast)
  qed
qed

lemma bcast_agent: "hub_bcast (broadcast_agent a h) = hub_bcast h @ (case build_agent_view a h of Some v \<Rightarrow> [AgentUpdated v] | None \<Rightarrow> [])"
  by (simp add: broadcast_agent_def split: option.split)

lemma view_broadcast [simp]:
  "build_agent_view b (broadcast_agent a h) = build_agent_view b h" "build_agent_view b (broadcast m h) = build_agent_view b h"
  by (rule view_cong; simp)+

lemma announces_broadcast_agent:
  assumes "hub_laptops g = hub_laptops h" "\<forall>b. b \<noteq> a \<longrightarrow> hub_online g b = hub_online h b \<and> hub_sessions g b = hub_sessions h b"
    "hub_bcast g = hub_bcast h"
  shows "announces h (broadcast_agent a g)"
  by (rule announces_one[where a = a and alerts = "[]"]) (use assms in \<open>simp_all add: bcast_agent\<close>)

lemma announces_cleanup:
  assumes "hub_online g a = Some c" "ac_conn_id c = n" "laptop_name a (hub_laptops g) \<noteq> None"
    and "hub_laptops g = hub_laptops h" "\<forall>b. b \<noteq> a \<longrightarrow> hub_online g b = hub_online h b \<and> hub_sessions g b = hub_sessions h b"
    and "hub_bcast g = hub_bcast h"
  shows "announces h (cleanup u a n g)"
proof -
  let ?g = "cleanup_session a (cleanup_addr a (g\<lparr>hub_online := (hub_online g)(a := None)\<rparr>))"
  have c: "cleanup u a n g = cleanup_broadcast u a ?g"
    using assms(1,2) by (simp add: cleanup_def cleanup_online_def)
  have "build_agent_view a ?g \<noteq> None"
    using assms(3) by (auto simp: build_agent_view_def cleanup_session_def cleanup_addr_def split: option.split)
  then have "cleanup_broadcast u a ?g = broadcast_agent a ?g"
    by (auto simp: cleanup_broadcast_def broadcast_agent_def)
  then show ?thesis unfolding c using assms(4-6)
    by (simp only:) (rule announces_broadcast_agent, simp_all add: cleanup_session_def cleanup_addr_def)
qed

lemma announces_status:
  "announces h (agent_status us sp a r h)"
proof -
  define g where "g = (case hub_online h a of
      Some c \<Rightarrow> h\<lparr>hub_online := (hub_online h)(a \<mapsto> c\<lparr>ac_last_status := Some r\<rparr>)\<rparr> | None \<Rightarrow> h)"
  have g: "hub_laptops g = hub_laptops h" "\<forall>b. b \<noteq> a \<longrightarrow> hub_online g b = hub_online h b \<and> hub_sessions g b = hub_sessions h b"
      "hub_bcast g = hub_bcast h"
    by (simp_all add: g_def split: option.split)
  show ?thesis
  proof (cases "low_battery r")
    case False
    then show ?thesis using announces_broadcast_agent[OF g] by (simp add: agent_status_def Let_def flip: g_def)
  next
    case True
    define al where "al = Alert a Critical (agent_name us a (broadcast_agent a g) @ LOW_BATTERY_TEXT
        @ (case sr_battery_percent r of Some p \<Rightarrow> sp p | None \<Rightarrow> ''?'') @ ''%'')"
    have "agent_status us sp a r h = broadcast al (broadcast_agent a g)"
      using True by (simp add: agent_status_def Let_def al_def flip: g_def)
    moreover have "announces h (broadcast al (broadcast_agent a g))"
      by (rule announces_one[where a = a and alerts = "[al]"]) (use g in \<open>simp_all add: bcast_agent al_def\<close>)
    ultimately show ?thesis by simp
  qed
qed

lemma view_provision:
  assumes "hub_inv h" "get_or_create_laptop i t mac (hub_laptops h) = Some (l, ls)"
  shows "build_agent_view a (h\<lparr>hub_laptops := ls\<rparr>) = build_agent_view a h
    \<or> (build_agent_view a h = None \<and> (\<exists>n. build_agent_view a (h\<lparr>hub_laptops := ls\<rparr>) = Some (offline_view a n)))"
  using assms(2)
proof (cases rule: get_or_create_cases)
  case 1
  then show ?thesis by simp
next
  case 2
  show ?thesis
  proof (cases "laptop_name a (hub_laptops h)")
    case None
    have "hub_online h a = None" using assms(1) None unfolding hub_inv_def by (metis not_None_eq)
    moreover have "hub_sessions h a = None" using assms(1) None unfolding hub_inv_def by (metis domIff)
    moreover have "build_agent_view a h = None" using None by (simp add: build_agent_view_def)
    ultimately show ?thesis
      by (cases "laptop_name a ls") (simp_all add: build_agent_view_def offline_view_def)
  next
    case (Some n)
    then show ?thesis using laptop_name_append[OF Some, of "[l]"] 2(2) by (simp add: build_agent_view_def)
  qed
qed

lemma announces_connect:
  assumes "hub_inv h"
  shows "announces h (snd (agent_connect us m ip ok h))"
proof (cases "agent_hello m h")
  case None
  then show ?thesis by (simp add: agent_connect_def announces_silent)
next
  case (Some x)
  obtain a n rep where x: "x = (a, n, rep)" by (cases x)
  let ?g = "register_addr a rep ip (snd (register_online a n h))"
  let ?k = "fst (register_online a n h)"
  obtain t nm where "verify_agent a t (hub_laptops h) = Some n"
    using Some x by (auto simp: agent_hello_def split: agent_to_hub.splits)
  then have known: "laptop_name a (hub_laptops h) \<noteq> None"
    using verify_agent_name assms unfolding hub_inv_def by (metis option.distinct(1))
  have g: "hub_laptops ?g = hub_laptops h" "hub_bcast ?g = hub_bcast h"
      "\<forall>b. b \<noteq> a \<longrightarrow> hub_online ?g b = hub_online h b \<and> hub_sessions ?g b = hub_sessions h b"
      "\<exists>c. hub_online ?g a = Some c \<and> ac_conn_id c = ?k"
    by (simp_all add: register_addr_def register_online_def Let_def split: option.split)
  obtain c where c: "hub_online ?g a = Some c" "ac_conn_id c = ?k" using g(4) by blast
  have e: "snd (agent_connect us m ip ok h)
      = (if ok then broadcast_agent a ?g else cleanup us a ?k (?g\<lparr>hub_live := hub_live ?g - {?k}\<rparr>))"
    by (simp add: agent_connect_def Some x case_prod_unfold Let_def)
  have "announces h (broadcast_agent a ?g)" using g by (intro announces_broadcast_agent) simp_all
  moreover have "announces h (cleanup us a ?k (?g\<lparr>hub_live := l\<rparr>))" for l
    by (rule announces_cleanup[where c = c]) (use c g known in simp_all)
  ultimately show ?thesis unfolding e by simp
qed

lemma announces_hub_step:
  assumes "hub_inv h"
  shows "announces h (hub_step v e h)"
proof (cases e)
  case (Provision i t m)
  show ?thesis
  proof (cases "get_or_create_laptop i t m (hub_laptops h)")
    case None
    then show ?thesis using Provision by (simp add: hub_step_def provision_def announces_silent)
  next
    case (Some x)
    obtain l ls where x: "x = (l, ls)" by (cases x)
    have "announces h (h\<lparr>hub_laptops := ls\<rparr>)"
      by (rule announcesI[of _ _ "[]"]) (use view_provision[OF assms Some[unfolded x]] in simp_all)
    then show ?thesis using Provision Some x by (simp add: hub_step_def provision_def)
  qed
next
  case (SessionRequest hd' t a)
  have "announces h (snd (session_grant u t a h))" for u
    unfolding session_grant_def Let_def snd_conv by (rule announces_broadcast_agent) simp_all
  then show ?thesis using SessionRequest
    by (simp add: hub_step_def session_request_def announces_silent split: option.split)
next
  case (SessionRelease hd' a)
  have "announces h (broadcast_agent a (h\<lparr>hub_sessions := (hub_sessions h)(a := None)\<rparr>))"
    by (rule announces_broadcast_agent) simp_all
  then show ?thesis using SessionRelease
    by (simp add: hub_step_def session_release_def announces_silent split: option.split)
next
  case (Connect m ip ok)
  then show ?thesis using announces_connect[OF assms] by (simp add: hub_step_def)
next
  case (Message a m)
  then show ?thesis using announces_status
    by (cases m) (simp_all add: hub_step_def agent_message_def agent_command_result_def announces_silent)
next
  case (Disconnect a n)
  let ?g = "h\<lparr>hub_live := hub_live h - {n}\<rparr>"
  show ?thesis
  proof (cases "\<exists>c. hub_online ?g a = Some c \<and> ac_conn_id c = n")
    case True
    then obtain c where c: "hub_online ?g a = Some c" "ac_conn_id c = n" by blast
    have "laptop_name a (hub_laptops ?g) = Some (ac_name c)" using assms c(1) unfolding hub_inv_def by simp
    then have "announces h (cleanup (env_uuid_str v) a n ?g)" by (intro announces_cleanup[OF c]) simp_all
    then show ?thesis using Disconnect by (simp add: hub_step_def agent_disconnect_def)
  next
    case False
    then have "cleanup (env_uuid_str v) a n ?g = ?g" by (intro cleanup_stale) blast
    then show ?thesis using Disconnect by (simp add: hub_step_def agent_disconnect_def announces_silent)
  qed
qed (simp_all add: hub_step_def login_def run_command_issue_def run_command_finish_def Let_def announces_silent
      split: option.split wait_outcome.split)

text \<open>
  The invariant of hub and socket together. \<open>mirrors m h\<close>: the map \<open>m\<close> has the hub's view of every agent, but may lack
  a laptop that has never been online. What the socket has sent and what it still has to send add up to such a map.
\<close>

definition mirrors :: "(uuid \<rightharpoonup> agent_view) \<Rightarrow> hub \<Rightarrow> bool" where
  "mirrors m h \<longleftrightarrow>
     (\<forall>a. m a = build_agent_view a h \<or> (m a = None \<and> (\<exists>n. build_agent_view a h = Some (offline_view a n))))"

definition bcast_ok :: "hub \<Rightarrow> bool" where
  "bcast_ok h \<longleftrightarrow> hub_inv h \<and> (\<forall>m\<in>set (hub_bcast h). \<not> is_snapshot m)
     \<and> (\<forall>a v. last_update a (hub_bcast h) = Some v \<longrightarrow> build_agent_view a h = Some v)"

definition socket_ok :: "hub \<times> admin_ws \<Rightarrow> bool" where
  "socket_ok hw \<longleftrightarrow>
     (case hw of (h, w) \<Rightarrow> bcast_ok h \<and> (\<exists>n. aw_next w = Some n \<and> n \<le> length (hub_bcast h)
       \<and> mirrors (fold mirror_msg (aw_out w @ drop n (hub_bcast h)) Map.empty) h))"

lemma bcast_ok_step: "bcast_ok h \<Longrightarrow> bcast_ok (hub_step v e h)"
proof -
  assume ok: "bcast_ok h"
  then obtain xs where xs: "hub_bcast (hub_step v e h) = hub_bcast h @ xs" "\<forall>m\<in>set xs. \<not> is_snapshot m"
      "\<forall>a. case last_update a xs of Some w \<Rightarrow> build_agent_view a (hub_step v e h) = Some w
         | None \<Rightarrow> build_agent_view a (hub_step v e h) = build_agent_view a h
             \<or> (build_agent_view a h = None \<and> (\<exists>n. build_agent_view a (hub_step v e h) = Some (offline_view a n)))"
    using announces_hub_step[of h v e] unfolding bcast_ok_def announces_def by blast
  have "build_agent_view a (hub_step v e h) = Some w" if "last_update a (hub_bcast h @ xs) = Some w" for a w
    using that ok xs(3)[rule_format, of a] by (auto simp: bcast_ok_def split: option.splits)
  then show ?thesis using ok xs(1,2) hub_step_inv[of h v e] unfolding bcast_ok_def by auto
qed

lemma mirrors_step:
  assumes "hub_inv h" "mirrors m h" "hub_bcast (hub_step v e h) = hub_bcast h @ xs"
  shows "mirrors (fold mirror_msg xs m) (hub_step v e h)"
proof -
  obtain ys where ys: "hub_bcast (hub_step v e h) = hub_bcast h @ ys" "\<forall>m\<in>set ys. \<not> is_snapshot m"
      "\<forall>a. case last_update a ys of Some w \<Rightarrow> build_agent_view a (hub_step v e h) = Some w
         | None \<Rightarrow> build_agent_view a (hub_step v e h) = build_agent_view a h
             \<or> (build_agent_view a h = None \<and> (\<exists>n. build_agent_view a (hub_step v e h) = Some (offline_view a n)))"
    using announces_hub_step[OF assms(1), of v e] unfolding announces_def by blast
  then have "ys = xs" using assms(3) by simp
  show ?thesis unfolding mirrors_def
  proof
    fix a
    show "fold mirror_msg xs m a = build_agent_view a (hub_step v e h)
        \<or> (fold mirror_msg xs m a = None \<and> (\<exists>n. build_agent_view a (hub_step v e h) = Some (offline_view a n)))"
      using fold_mirror[OF ys(2), of m a] ys(3)[rule_format, of a] assms(2)[unfolded mirrors_def, rule_format, of a]
      unfolding \<open>ys = xs\<close> by (cases "last_update a xs") auto
  qed
qed

lemma last_update_drop: "last_update a (drop n xs) = Some v \<Longrightarrow> last_update a xs = Some v"
  by (metis append_take_drop_id last_update_append option.simps(5))

lemma mirrors_after_snapshot:
  assumes "bcast_ok h"
  shows "mirrors (fold mirror_msg (out @ [Snapshot (hub_snapshot h)] @ drop n (hub_bcast h)) m) h"
proof -
  have no: "\<forall>m\<in>set (drop n (hub_bcast h)). \<not> is_snapshot m" using assms in_set_dropD unfolding bcast_ok_def by fast
  have "last_update a (drop n (hub_bcast h)) = Some v \<Longrightarrow> build_agent_view a h = Some v" for a v
    using assms last_update_drop unfolding bcast_ok_def by blast
  then show ?thesis unfolding mirrors_def fold_append comp_apply
    by (simp add: fold_mirror[OF no] mirror_msg_def snapshot_mirror split: option.split)
qed

lemma socket_ok_turn: "socket_ok hw \<Longrightarrow> socket_ok (admin_turn v e hw)"
proof -
  assume ok: "socket_ok hw"
  obtain h w where hw: "hw = (h, w)" by (cases hw)
  obtain n where n: "bcast_ok h" "aw_next w = Some n" "n \<le> length (hub_bcast h)"
      "mirrors (fold mirror_msg (aw_out w @ drop n (hub_bcast h)) Map.empty) h"
    using ok unfolding hw socket_ok_def by auto
  show ?thesis
  proof (cases e)
    case (Some ev)
    obtain xs where xs: "hub_bcast (hub_step v ev h) = hub_bcast h @ xs" using hub_step_bcast by blast
    have "hub_inv h" using n(1) by (simp add: bcast_ok_def)
    from mirrors_step[OF this n(4) xs] show ?thesis
      using n xs bcast_ok_step[OF n(1)] by (simp add: Some hw socket_ok_def)
  next
    case None
    consider "n = length (hub_bcast h)" | "n < length (hub_bcast h)" "n + BCAST_CAPACITY < length (hub_bcast h)"
      | "n < length (hub_bcast h)" "\<not> n + BCAST_CAPACITY < length (hub_bcast h)" using n(3) by linarith
    then show ?thesis
    proof cases
      case 1
      then show ?thesis using ok n by (simp add: None hw admin_ws_recv_def)
    next
      case 2
      then show ?thesis using n(1,2) mirrors_after_snapshot[OF n(1), of "aw_out w"]
        by (simp add: None hw admin_ws_recv_def socket_ok_def)
    next
      case 3
      then have "aw_out w @ drop n (hub_bcast h) = (aw_out w @ [hub_bcast h ! n]) @ drop (n + 1) (hub_bcast h)"
        by (simp add: Cons_nth_drop_Suc)
      from n(4)[unfolded this] show ?thesis using n(1,2) 3 by (simp add: None hw admin_ws_recv_def socket_ok_def)
    qed
  qed
qed

interpretation sock: step_invariant "\<lambda>e hw. Some (admin_turn v e hw)" socket_ok for v
  by unfold_locales (simp add: socket_ok_turn)

interpretation bcasts: step_invariant "\<lambda>e h. Some (hub_step v e h)" bcast_ok for v
  by unfold_locales (simp add: bcast_ok_step)

lemma socket_ok_run: "socket_ok hw \<Longrightarrow> socket_ok (fold (admin_turn v) es hw)"
  using sock.run_inv[of hw v es] by (simp add: run_steps_total)

lemma bcast_ok_run: "bcast_ok h \<Longrightarrow> bcast_ok (fold (hub_step v) es h)"
  using bcasts.run_inv[of h v es] by (simp add: run_steps_total)


definition sample_admins :: "admin list" where
  "sample_admins = [\<lparr>ad_id = 1, ad_username = ''kim'', ad_password_hash = ''pw''\<rparr>]"

abbreviation sample_start :: hub where
  "sample_start \<equiv> fold (hub_step sample_env) [Login ''t1'' ''kim'' ''pw''] (hub_new [sample_laptop] sample_admins)"

abbreviation sample_socket :: admin_ws where
  "sample_socket \<equiv> \<lparr>aw_user = ''kim'', aw_next = None, aw_out = [Snapshot (hub_snapshot sample_start)]\<rparr>"

abbreviation sample_turns :: "hub \<times> admin_ws" where
  "sample_turns \<equiv> fold (admin_turn sample_env) [Some (Connect sample_hello ''10.0.0.9'' True), None]
     (sample_start, admin_ws_subscribe sample_start sample_socket)"


section \<open>From the agent's address to the administrator\<close>

text \<open>
  C23: the administrator reaches the laptop where it said it is. An agent whose Tailscale gave it an address connects to the hub; an
  administrator who logs in with the right password and asks for the session of that agent, which nobody else controls, is given exactly that
  address; with a wrong password the application stays as it was.
\<close>

theorem session_leads_to_agent:
  assumes "self_ip True out = Some ip" "agent_hello (hello_of st (self_ip True out)) h = Some (as_agent_id st, n, self_ip True out)"
    and "h1 = snd (agent_connect us (hello_of st (self_ip True out)) peer_ip True h)"
    and "hub_inv h" "hub_sessions h (as_agent_id st) = None" "\<forall>c\<in>set t. \<not> is_space c"
  shows "let (answer, h2) = login vf t u p h1;
             (r, b1) = admin_login url u (Some (case answer of Ok_200 x \<Rightarrow> Ok_200 (Some x) | Err k msg \<Rightarrow> Err k msg)) b
         in if verify_admin vf u p (hub_admins h1) \<noteq> None
            then r = Inr () \<and> admin_request_session (\<lambda>s. Some (fst (session_request (bearer_auth s) ft (as_agent_id st) h2))) b1 = Inr (Some ip)
            else r = Inl (HttpStatus 401) \<and> b1 = b"
proof (cases "verify_admin vf u p (hub_admins h1)")
  case None
  then show ?thesis by (simp add: login_def admin_login_def response_body_def)
next
  case (Some i)
  let ?h2 = "snd (login vf t u p h1)"
  have l: "login vf t u p h1 = (Ok_200 t, ?h2)" using Some by (simp add: login_def)
  have auth: "admin_auth (Some (''Bearer '' @ t)) ?h2 = Some u"
    using login_auth_roundtrip[OF assms(6), of vf u p h1] Some by simp
  have known: "laptop_name (as_agent_id st) (hub_laptops h) \<noteq> None"
    using assms(2,4) verify_agent_name unfolding hub_inv_def
    by (fastforce simp: agent_hello_def hello_of_def)
  have h1: "hub_laptops h1 = hub_laptops h" "hub_sessions h1 = hub_sessions h" "hub_agent_addr h1 (as_agent_id st) = Some ip"
    using assms(1-3) by (simp_all add: agent_connect_def register_online_def register_addr_def Let_def)
  then have "hub_laptops ?h2 = hub_laptops h" "hub_sessions ?h2 (as_agent_id st) = None" "hub_agent_addr ?h2 (as_agent_id st) = Some ip"
    using assms(5) Some by (simp_all add: login_def)
  then have "fst (session_request (Some (''Bearer '' @ t)) ft (as_agent_id st) ?h2) = Ok_200 (ft, Some ip)"
    using auth known by (simp add: session_request_def session_grant_def Let_def)
  then show ?thesis using Some
    by (subst l) (simp add: admin_login_def response_body_def admin_request_session_def require_session_def bearer_auth_def)
qed

theorem session_leads_to_agent_witness:
  "let h1 = snd (agent_connect show_nat (hello_of \<lparr>as_agent_id = 7, as_name = ''laptop'', as_provision_token = ''tok''\<rparr>
                   (self_ip True (Some ''100.64.0.7''))) ''10.0.0.9'' True (hub_new [sample_laptop] sample_admins));
       h2 = snd (login (\<lambda>p h. p = h) ''ab'' ''kim'' ''pw'' h1);
       b1 = snd (admin_login ''http://hub'' ''kim'' (Some (Ok_200 (Some ''ab''))) backend_new)
   in admin_request_session (\<lambda>s. Some (fst (session_request (bearer_auth s) ''ft'' 7 h2))) b1 = Inr (Some ''100.64.0.7'')"
proof -
  let ?st = "\<lparr>as_agent_id = 7, as_name = ''laptop'', as_provision_token = ''tok''\<rparr>"
  let ?h = "hub_new [sample_laptop] sample_admins"
  have ip: "self_ip True (Some ''100.64.0.7'') = Some ''100.64.0.7''" by code_simp
  have hello: "agent_hello (hello_of ?st (self_ip True (Some ''100.64.0.7''))) ?h = Some (as_agent_id ?st, ''student-01'', self_ip True (Some ''100.64.0.7''))"
    by code_simp
  have inv: "hub_inv ?h" by (simp add: hub_inv_def hub_new_def)
  have free: "hub_sessions ?h (as_agent_id ?st) = None" by (simp add: hub_new_def)
  have sp: "\<forall>c\<in>set ''ab''. \<not> is_space c" by code_simp
  let ?h1 = "snd (agent_connect show_nat (hello_of ?st (self_ip True (Some ''100.64.0.7''))) ''10.0.0.9'' True ?h)"
  have pw: "verify_admin (\<lambda>p h. p = h) ''kim'' ''pw'' (hub_admins ?h1) = Some 1" by code_simp
  then have l: "login (\<lambda>p h. p = h) ''ab'' ''kim'' ''pw'' ?h1 = (Ok_200 ''ab'', snd (login (\<lambda>p h. p = h) ''ab'' ''kim'' ''pw'' ?h1))"
    by (simp add: login_def)
  show ?thesis
    using session_leads_to_agent[OF ip hello refl inv free sp, where us = show_nat and peer_ip = "''10.0.0.9''" and vf = "\<lambda>p h. p = h" and u = "''kim''" and p = "''pw''"
        and url = "''http://hub''" and b = backend_new and ft = "''ft''"] pw
    by (subst (asm) l) (simp add: case_prod_unfold Let_def)
qed

section \<open>The hint\<close>

text \<open>
  The hint about the tailnet fits the cause. It is given only when the target lies in 100.64.0.0/10; it asks to join when this computer does
  not send to the tailnet's own address over the tailnet, and to check the node exactly when it does but not to the target; with
  both routes there is none.
\<close>

theorem tailnet_hint_sound:
  "tailnet_hint route target =
     (case target of
        Some (V4 a b c d) \<Rightarrow>
          if a = 100 \<and> uint b div 64 = 1
          then if \<not> routes_via_tailnet route (V4 100 100 100 100) then Some JoinTailnet
               else if \<not> routes_via_tailnet route (V4 a b c d) then Some (CheckNode (V4 a b c d)) else None
          else None
      | _ \<Rightarrow> None)"
proof -
  have "64 \<le> b \<and> b < 128 \<longleftrightarrow> uint b div 64 = 1" for b :: u8
    by (simp add: word_le_def word_less_def) (presburger)
  then show ?thesis
    by (auto simp: tailnet_hint_def tailnet_hint_for_def is_tailnet_ip_def TAILNET_PROBE_def Let_def split: option.split ip_addr.split)
qed

text \<open>The agent accepts any address that starts with 100., also outside that range.\<close>

lemma self_ip_outside_tailnet:
  "self_ip True (Some ''100.1.2.3'') = Some ''100.1.2.3'' \<and> \<not> is_tailnet_ip (V4 100 1 2 3)"
  by code_simp

end
