(* ===== verification/Kmc_Viewer.thy ===== *)
theory Kmc_Viewer
  imports Kmc_Launch
begin

text \<open>
  The stream in the administrator's application: the session of the client library (\<^verbatim>\<open>kmc-moonclient/src/session.rs\<close>) with its two
  pumps into the control channel, and the local fan-out to the window's decoder (\<^verbatim>\<open>kmc-admin/src-tauri/src/stream.rs\<close>).
  Sockets, threads and the tokio run-time are events or outcomes.
\<close>

section \<open>Choices\<close>

definition PACKET_SIZE :: u32 where "PACKET_SIZE = 1392"
definition SCM_HEVC :: "32 word" where "SCM_HEVC = 0x0002"
definition IDR_MIN_INTERVAL :: instant where "IDR_MIN_INTERVAL = millis 300"

definition pick_hevc :: "32 word \<Rightarrow> bool \<Rightarrow> bool" where
  "pick_hevc codec_mode_support allow_hevc \<longleftrightarrow> allow_hevc \<and> codec_mode_support AND SCM_HEVC \<noteq> 0"

definition negotiated_codec :: "bool \<Rightarrow> string" where
  "negotiated_codec hevc = (if hevc then ''hevc'' else ''h264'')"

section \<open>The steps of a session\<close>

text \<open>The fallible part of \<^verbatim>\<open>start_stream\<close>, in order; each step succeeds or ends it. Started receivers stay in the run-time.\<close>

datatype session_step =
    Handshake | ResolveVideo | ResolveAudio | SpawnVideo | BindAudio | SpawnAudio | ConnectControl | SpawnPumpFec | SpawnPumpLost

definition session_steps :: "session_step list" where
  "session_steps = [Handshake, ResolveVideo, ResolveAudio, SpawnVideo, BindAudio, SpawnAudio, ConnectControl, SpawnPumpFec, SpawnPumpLost]"

fun perform :: "(session_step \<Rightarrow> bool) \<Rightarrow> session_step list \<Rightarrow> session_step list \<times> bool" where
  "perform ok [] = ([], True)"
| "perform ok (s # ss) = (if ok s then (case perform ok ss of (done', r) \<Rightarrow> (s # done', r)) else ([], False))"

text \<open>
  The process-wide state of the library: the control channel of the last session, the negotiated codec, and whether the
  session of that channel is still held. \<open>cs_down\<close> is the flag that stops the receivers.
\<close>

record client_state =
  cs_control :: "control_client option"
  cs_hevc :: bool
  cs_session :: bool
  cs_down :: bool

definition client_state_new :: client_state where
  "client_state_new = \<lparr>cs_control = None, cs_hevc = False, cs_session = False, cs_down = False\<rparr>"

definition drop_session :: "client_state \<Rightarrow> client_state" where
  "drop_session c =
     (if cs_session c then c\<lparr>cs_down := True, cs_control := map_option shutdown (cs_control c), cs_session := False\<rparr> else c)"

definition start_stream ::
  "32 word \<Rightarrow> bool \<Rightarrow> (session_step \<Rightarrow> bool) \<Rightarrow> control_client \<Rightarrow> client_state \<Rightarrow> bool \<times> client_state" where
  "start_stream codec_mode_support allow_hevc ok ctl c =
     (let hevc = pick_hevc codec_mode_support allow_hevc
      in if snd (perform ok session_steps)
         then (True, c\<lparr>cs_hevc := hevc, cs_control := Some ctl, cs_session := True, cs_down := False\<rparr>)
         else (False, c))"

definition session_cfg :: "u32 \<Rightarrow> u32 \<Rightarrow> u32 \<Rightarrow> u32 \<Rightarrow> bool \<Rightarrow> stream_cfg" where
  "session_cfg width height fps bitrate_kbps hevc =
     \<lparr>cfg_width = width, cfg_height = height, cfg_fps = fps, cfg_bitrate_kbps = bitrate_kbps, cfg_packet_size = PACKET_SIZE,
      cfg_video_format = (if hevc then 1 else 0)\<rparr>"

definition lib_request_idr :: "client_state \<Rightarrow> client_state" where
  "lib_request_idr c = c\<lparr>cs_control := map_option request_idr (cs_control c)\<rparr>"

definition lib_send_input :: "input_event \<Rightarrow> client_state \<Rightarrow> client_state" where
  "lib_send_input ev c = c\<lparr>cs_control := map_option (send_input ev) (cs_control c)\<rparr>"

definition lib_last_termination :: "client_state \<Rightarrow> int option" where
  "lib_last_termination c = Option.bind (cs_control c) termination_code"

section \<open>The pumps\<close>

definition pump_fec :: "frame_fec_status list \<Rightarrow> control_client \<Rightarrow> control_client" where
  "pump_fec sts c = fold send_fec_status sts c"

text \<open>\<open>lp_requested\<close> records when a key frame was asked for.\<close>

record lost_pump =
  lp_last :: "instant option"
  lp_control :: control_client
  lp_requested :: "instant list"

definition pump_lost_step :: "instant \<Rightarrow> lost_pump \<Rightarrow> lost_pump" where
  "pump_lost_step now p =
     (if (case lp_last p of Some t \<Rightarrow> max 0 (now - t) < IDR_MIN_INTERVAL | None \<Rightarrow> False) then p
      else p\<lparr>lp_last := Some now, lp_control := request_idr (lp_control p), lp_requested := lp_requested p @ [now]\<rparr>)"

definition pump_lost :: "instant list \<Rightarrow> control_client \<Rightarrow> lost_pump" where
  "pump_lost losses c = fold pump_lost_step losses \<lparr>lp_last = None, lp_control = c, lp_requested = []\<rparr>"

section \<open>The fan-out\<close>

text \<open>
  One viewer of a broadcast channel of 512 places. The frames broadcast so far are a list; the viewer has the index of its next one. It
  logs the frames it was sent and the key frames it asked for.
\<close>

definition FANOUT_CAPACITY :: nat where "FANOUT_CAPACITY = 512"

datatype viewer_out = SentFrame nat bytes | AskedIdr

record viewer =
  vw_next :: nat
  vw_open :: bool
  vw_log :: "viewer_out list"

definition viewer_new :: "bool \<Rightarrow> bytes list \<Rightarrow> viewer" where
  "viewer_new idr frames = \<lparr>vw_next = length frames, vw_open = True, vw_log = (if idr then [AskedIdr] else [])\<rparr>"

datatype fanout_event = FanFrame bytes | FanTurn bool | FanClose

definition viewer_recv :: "bool \<Rightarrow> bytes list \<Rightarrow> bool \<Rightarrow> viewer \<Rightarrow> viewer" where
  "viewer_recv idr frames sent v =
     (if \<not> vw_open v \<or> length frames \<le> vw_next v then v
      else if vw_next v + FANOUT_CAPACITY < length frames
      then v\<lparr>vw_next := length frames - FANOUT_CAPACITY, vw_log := vw_log v @ (if idr then [AskedIdr] else [])\<rparr>
      else if sent
      then v\<lparr>vw_next := vw_next v + 1, vw_log := vw_log v @ [SentFrame (vw_next v) (frames ! vw_next v)]\<rparr>
      else v\<lparr>vw_open := False\<rparr>)"

definition fanout_step :: "bool \<Rightarrow> fanout_event \<Rightarrow> bytes list \<times> viewer \<Rightarrow> bytes list \<times> viewer" where
  "fanout_step idr e s =
     (case s of (frames, v) \<Rightarrow>
        case e of
          FanFrame f \<Rightarrow> (frames @ [f], v)
        | FanTurn sent \<Rightarrow> (frames, viewer_recv idr frames sent v)
        | FanClose \<Rightarrow> (frames, v\<lparr>vw_open := False\<rparr>))"

text \<open>The servers are started once; a start stops the old session first and needs both.\<close>

record stream_state =
  st_video_port :: "u16 option"
  st_audio_port :: "u16 option"
  st_client :: client_state

definition ensure_server :: "u16 option \<Rightarrow> u16 option \<Rightarrow> stream_state \<Rightarrow> bool \<times> stream_state" where
  "ensure_server bound_video bound_audio s =
     (if st_video_port s \<noteq> None then (True, s)
      else case (bound_video, bound_audio) of
        (Some v, Some a) \<Rightarrow> (True, s\<lparr>st_video_port := Some v, st_audio_port := Some a\<rparr>)
      | _ \<Rightarrow> (False, s))"

definition stream_stop :: "stream_state \<Rightarrow> stream_state" where
  "stream_stop s = s\<lparr>st_client := drop_session (st_client s)\<rparr>"

definition stream_start ::
  "u16 option \<Rightarrow> u16 option \<Rightarrow> server_info_data option \<Rightarrow> bool \<Rightarrow> bool \<Rightarrow> (session_step \<Rightarrow> bool) \<Rightarrow> control_client \<Rightarrow> stream_state \<Rightarrow> bool \<times> stream_state" where
  "stream_start bound_video bound_audio info launched allow_hevc ok ctl s =
     (case ensure_server bound_video bound_audio (stream_stop s) of
        (False, s1) \<Rightarrow> (False, s1)
      | (True, s1) \<Rightarrow>
          (case info of
             None \<Rightarrow> (False, s1)
           | Some i \<Rightarrow>
               if \<not> launched then (False, s1)
               else case start_stream (word_of_int (si_codec_mode_support i)) allow_hevc ok ctl (st_client s1) of
                 (r, c) \<Rightarrow> (r, s1\<lparr>st_client := c\<rparr>)))"

section \<open>Key-frame requests\<close>

definition pump_inv :: "instant list \<Rightarrow> lost_pump \<Rightarrow> bool" where
  "pump_inv seen p \<longleftrightarrow>
     successively (\<lambda>a b. a + IDR_MIN_INTERVAL \<le> b) (lp_requested p)
     \<and> lp_last p = (if lp_requested p = [] then None else Some (last (lp_requested p)))
     \<and> (\<forall>r\<in>set (lp_requested p). r \<in> set seen)
     \<and> (\<forall>t\<in>set seen. \<exists>r\<in>set (lp_requested p). r \<le> t \<and> t < r + IDR_MIN_INTERVAL)"

lemma pump_inv_step:
  assumes "pump_inv seen p" "\<forall>t\<in>set seen. t \<le> now"
  shows "pump_inv (seen @ [now]) (pump_lost_step now p)"
proof (cases "lp_requested p")
  case Nil
  then show ?thesis using assms by (simp add: pump_inv_def pump_lost_step_def IDR_MIN_INTERVAL_def)
next
  case (Cons r rs)
  define l where "l = last (lp_requested p)"
  have l: "lp_last p = Some l" "l \<in> set (lp_requested p)" using assms(1) Cons by (simp_all add: pump_inv_def l_def)
  then have "l \<le> now" using assms by (simp add: pump_inv_def)
  show ?thesis
  proof (cases "now - l < IDR_MIN_INTERVAL")
    case True
    then have step: "pump_lost_step now p = p" using l(1) \<open>l \<le> now\<close> by (simp add: pump_lost_step_def)
    have "\<exists>r\<in>set (lp_requested p). r \<le> now \<and> now < r + IDR_MIN_INTERVAL" using l(2) \<open>l \<le> now\<close> True by force
    then show ?thesis using assms(1) unfolding step by (simp add: pump_inv_def)
  next
    case False
    then have step: "pump_lost_step now p
        = p\<lparr>lp_last := Some now, lp_control := request_idr (lp_control p), lp_requested := lp_requested p @ [now]\<rparr>"
      using l(1) \<open>l \<le> now\<close> by (simp add: pump_lost_step_def)
    have "0 < IDR_MIN_INTERVAL" by (simp add: IDR_MIN_INTERVAL_def)
    moreover have "successively (\<lambda>a b. a + IDR_MIN_INTERVAL \<le> b) (lp_requested p @ [now])"
      unfolding successively_append_iff using assms(1) False by (simp add: pump_inv_def l_def)
    ultimately show ?thesis using assms(1) unfolding step by (auto simp: pump_inv_def)
  qed
qed

lemma pump_inv_run: "sorted (seen @ losses) \<Longrightarrow> pump_inv seen p \<Longrightarrow> pump_inv (seen @ losses) (fold pump_lost_step losses p)"
proof (induction losses arbitrary: seen p)
  case (Cons t ts)
  have "pump_inv (seen @ [t]) (pump_lost_step t p)" using Cons.prems by (intro pump_inv_step) (auto simp: sorted_append)
  then show ?case using Cons.IH[of "seen @ [t]" "pump_lost_step t p"] Cons.prems(1) by simp
qed simp

text \<open>
  C25: losses lead to key frames without a storm. Whenever frames are lost, requests for a key frame are sent at moments of loss, at least 300 milliseconds apart,
  and every loss comes less than 300 milliseconds after one; a loss that soon after a request adds none, so when the
  requested key frame is itself lost within that time, it is not asked for again.
\<close>

theorem idr_requests_spaced:
  assumes "sorted losses"
  shows "let p = pump_lost losses c
    in successively (\<lambda>a b. a + IDR_MIN_INTERVAL \<le> b) (lp_requested p) \<and> set (lp_requested p) \<subseteq> set losses
      \<and> (\<forall>t\<in>set losses. \<exists>r\<in>set (lp_requested p). r \<le> t \<and> t < r + IDR_MIN_INTERVAL)
      \<and> lp_control p = (request_idr ^^ length (lp_requested p)) c
      \<and> (\<forall>t t'. losses = [t, t'] \<and> t' < t + IDR_MIN_INTERVAL \<longrightarrow> lp_requested p = [t])"
proof -
  let ?p0 = "\<lparr>lp_last = None, lp_control = c, lp_requested = []\<rparr>"
  have "pump_inv [] ?p0" by (simp add: pump_inv_def)
  then have inv: "pump_inv losses (pump_lost losses c)"
    using pump_inv_run[of "[]" losses ?p0] assms by (simp add: pump_lost_def)
  have ctl: "lp_control (fold pump_lost_step ts p) = (request_idr ^^ (length (lp_requested (fold pump_lost_step ts p)) - length (lp_requested p))) (lp_control p)
      \<and> length (lp_requested p) \<le> length (lp_requested (fold pump_lost_step ts p))" for ts p
  proof (induction ts arbitrary: p)
    case (Cons t ts)
    let ?q = "pump_lost_step t p"
    have "?q = p \<or> lp_control ?q = request_idr (lp_control p) \<and> length (lp_requested ?q) = Suc (length (lp_requested p))"
      by (simp add: pump_lost_step_def)
    then consider "?q = p" | "lp_control ?q = request_idr (lp_control p)" "length (lp_requested ?q) = Suc (length (lp_requested p))" by blast
    then show ?case
    proof cases
      case 1
      then show ?thesis using Cons.IH[of p] by simp
    next
      case 2
      define n where "n = length (lp_requested (fold pump_lost_step ts ?q)) - length (lp_requested ?q)"
      have "length (lp_requested (fold pump_lost_step ts ?q)) - length (lp_requested p) = Suc n"
        using Cons.IH[of ?q] 2(2) unfolding n_def by linarith
      then show ?thesis using Cons.IH[of ?q] 2 unfolding n_def[symmetric] by (simp add: funpow_swap1)
    qed
  qed simp
  have "lp_control (pump_lost losses c) = (request_idr ^^ length (lp_requested (pump_lost losses c))) c"
    using ctl[of losses ?p0] unfolding pump_lost_def by simp
  moreover have "lp_requested (pump_lost [t, t'] c) = [t]" if "t' < t + IDR_MIN_INTERVAL" "t \<le> t'" for t t'
    using that by (simp add: pump_lost_def pump_lost_step_def)
  ultimately show ?thesis using inv assms unfolding pump_inv_def Let_def by auto
qed

theorem idr_requests_spaced_witness:
  "lp_requested (pump_lost [0, 100000000, 350000000] control_client_new) \<noteq> []
   \<and> sorted [0, 100000000, 350000000 :: instant]"
  using idr_requests_spaced[of "[0, 100000000, 350000000]" control_client_new] by (auto simp: Let_def)

section \<open>The viewer\<close>

fun gap_ok :: "nat option \<Rightarrow> viewer_out list \<Rightarrow> bool" where
  "gap_ok e [] = True"
| "gap_ok e (SentFrame i d # l) = ((case e of Some n \<Rightarrow> i = n | None \<Rightarrow> True) \<and> gap_ok (Some (Suc i)) l)"
| "gap_ok e (AskedIdr # l) = gap_ok None l"

fun gap_end :: "nat option \<Rightarrow> viewer_out list \<Rightarrow> nat option" where
  "gap_end e [] = e"
| "gap_end e (SentFrame i d # l) = gap_end (Some (Suc i)) l"
| "gap_end e (AskedIdr # l) = gap_end None l"

lemma gap_append: "gap_ok e (l @ m) = (gap_ok e l \<and> gap_ok (gap_end e l) m)" "gap_end e (l @ m) = gap_end (gap_end e l) m"
  by (induction e l rule: gap_ok.induct) simp_all

lemma gap_ok_sent: "gap_ok e (SentFrame i d # ys @ SentFrame j d' # zs) \<Longrightarrow> \<forall>y\<in>set ys. \<not> (\<exists>k x. y = SentFrame k x) \<Longrightarrow>
    j = Suc i \<or> AskedIdr \<in> set ys"
proof -
  assume ok: "gap_ok e (SentFrame i d # ys @ SentFrame j d' # zs)" and no: "\<forall>y\<in>set ys. \<not> (\<exists>k x. y = SentFrame k x)"
  show "j = Suc i \<or> AskedIdr \<in> set ys"
  proof (cases ys)
    case Nil
    then show ?thesis using ok by simp
  next
    case (Cons y ys')
    then show ?thesis using no by (cases y) auto
  qed
qed

definition sent_indices :: "viewer_out list \<Rightarrow> nat list" where
  "sent_indices l = concat (map (\<lambda>x. case x of SentFrame i d \<Rightarrow> [i] | AskedIdr \<Rightarrow> []) l)"

lemma sent_indices_simps [simp]:
  "sent_indices [] = []" "sent_indices (l @ m) = sent_indices l @ sent_indices m"
  "sent_indices [SentFrame i d] = [i]" "sent_indices [AskedIdr] = []"
  by (simp_all add: sent_indices_def)

definition viewer_inv :: "bytes list \<times> viewer \<Rightarrow> bool" where
  "viewer_inv s \<longleftrightarrow>
     (case s of (frames, v) \<Rightarrow>
        gap_ok None (vw_log v) \<and> gap_end None (vw_log v) \<in> {None, Some (vw_next v)}
        \<and> sorted_wrt (<) (sent_indices (vw_log v)) \<and> (\<forall>i\<in>set (sent_indices (vw_log v)). i < vw_next v)
        \<and> vw_next v \<le> length frames
        \<and> (\<forall>i d. SentFrame i d \<in> set (vw_log v) \<longrightarrow> i < length frames \<and> frames ! i = d))"

lemma viewer_inv_step: "viewer_inv s \<Longrightarrow> viewer_inv (fanout_step True e s)"
proof -
  assume inv: "viewer_inv s"
  obtain frames v where s: "s = (frames, v)" by (cases s)
  show ?thesis
  proof (cases e)
    case (FanFrame f)
    then show ?thesis using inv by (auto simp: s viewer_inv_def fanout_step_def nth_append intro: less_SucI)
  next
    case (FanTurn sent)
    show ?thesis
    proof (cases "\<not> vw_open v \<or> length frames \<le> vw_next v")
      case True
      then show ?thesis using inv FanTurn by (simp add: s fanout_step_def viewer_recv_def)
    next
      case go: False
      then show ?thesis using inv FanTurn
        by (auto simp: s viewer_inv_def fanout_step_def viewer_recv_def gap_append sorted_wrt_append)
    qed
  next
    case FanClose
    then show ?thesis using inv by (simp add: s viewer_inv_def fanout_step_def)
  qed
qed

lemma viewer_inv_run: "viewer_inv s \<Longrightarrow> viewer_inv (fold (fanout_step True) es s)"
  by (induction es arbitrary: s) (simp_all add: viewer_inv_step)

text \<open>
  C21: the decoder never meets a gap unprepared. A viewer that joins the video at any time asks for a key frame first; it is sent frames of the broadcast, unaltered,
  in order and none twice; and wherever it skips some because it fell more than 512 behind, a key frame is
  asked for before the next one it is sent.
\<close>

theorem viewer_gaps_ask_idr:
  assumes "fold (fanout_step True) es (frames, viewer_new True frames) = (frames', v)"
  shows "hd (vw_log v) = AskedIdr \<and> sorted_wrt (<) (sent_indices (vw_log v))
    \<and> (\<forall>i d. SentFrame i d \<in> set (vw_log v) \<longrightarrow> i < length frames' \<and> frames' ! i = d)
    \<and> (\<forall>xs i d ys j d' zs. vw_log v = xs @ SentFrame i d # ys @ SentFrame j d' # zs \<longrightarrow>
         (\<forall>y\<in>set ys. \<not> (\<exists>k x. y = SentFrame k x)) \<longrightarrow> j = Suc i \<or> AskedIdr \<in> set ys)"
proof -
  have "viewer_inv (frames, viewer_new True frames)" by (simp add: viewer_inv_def viewer_new_def)
  then have inv: "viewer_inv (frames', v)" using viewer_inv_run assms by metis
  have keep: "\<exists>l. vw_log (snd (fold (fanout_step True) es s)) = vw_log (snd s) @ l" for es s
  proof (induction es arbitrary: s)
    case (Cons e es)
    have "\<exists>l. vw_log (snd (fanout_step True e s)) = vw_log (snd s) @ l"
      by (cases s; cases e) (simp_all add: fanout_step_def viewer_recv_def)
    then show ?case using Cons.IH[of "fanout_step True e s"] by (metis append_assoc comp_apply fold_simps(2))
  qed simp
  obtain l where "vw_log v = [AskedIdr] @ l" using keep[of es "(frames, viewer_new True frames)"] assms by (auto simp: viewer_new_def)
  then have "hd (vw_log v) = AskedIdr" by simp
  moreover have "j = Suc i \<or> AskedIdr \<in> set ys"
    if "vw_log v = xs @ SentFrame i d # ys @ SentFrame j d' # zs" "\<forall>y\<in>set ys. \<not> (\<exists>k x. y = SentFrame k x)" for xs i d ys j d' zs
  proof -
    have "gap_ok None (vw_log v)" using inv by (simp add: viewer_inv_def)
    then have "gap_ok (gap_end None xs) (SentFrame i d # ys @ SentFrame j d' # zs)" unfolding that(1) gap_append(1) by blast
    from gap_ok_sent[OF this that(2)] show ?thesis .
  qed
  ultimately show ?thesis using inv unfolding viewer_inv_def by simp
qed

theorem viewer_gaps_ask_idr_witness:
  "hd (vw_log (snd (fold (fanout_step True) [FanFrame [1], FanTurn True, FanFrame [2]] ([[0]], viewer_new True [[0]])))) = AskedIdr"
  using viewer_gaps_ask_idr[OF surjective_pairing] by blast

section \<open>Starting and stopping\<close>

text \<open>The receivers are started before the control channel is connected, whatever fails.\<close>

lemma perform_prefix: "perform ok ss = (d, r) \<Longrightarrow> d = takeWhile ok ss \<and> (r \<longleftrightarrow> (\<forall>s\<in>set ss. ok s))"
  by (induction ss arbitrary: d r) (auto split: if_splits prod.splits)

definition app_inv :: "stream_state \<Rightarrow> bool" where
  "app_inv s \<longleftrightarrow> \<not> cs_session (st_client s) \<longrightarrow> (\<forall>c. cs_control (st_client s) = Some c \<longrightarrow> \<not> cc_alive c)"

lemma shutdown_dead [simp]: "\<not> cc_alive (shutdown c)"
  by (simp add: shutdown_def Let_def)

lemma session_dropped [simp]: "\<not> cs_session (drop_session c)"
  by (simp add: drop_session_def)

text \<open>Every state that starts and stops lead to has it: only a held session has a live channel.\<close>

lemma app_inv_stop: "app_inv s \<Longrightarrow> app_inv (stream_stop s)"
  by (cases "cs_session (st_client s)") (auto simp: app_inv_def stream_stop_def drop_session_def)

lemma ensure_server_client: "st_client (snd (ensure_server bv ba s)) = st_client s"
  by (simp add: ensure_server_def split: option.split)

lemma app_inv_start: "app_inv s \<Longrightarrow> app_inv (snd (stream_start bv ba info launched allow ok ctl s))"
  using app_inv_stop[of s] ensure_server_client[of bv ba "stream_stop s"]
  by (auto simp: app_inv_def stream_start_def start_stream_def Let_def split: prod.split bool.split option.split)

definition sample_server :: server_info_data where
  "sample_server = \<lparr>si_app_version = ''7'', si_gfe_version = ''3'', si_pair_status = True, si_current_game = 0, si_https_port = 47984,
     si_codec_mode_support = 3\<rparr>"

text \<open>What the window does with the stream, in any order.\<close>

datatype app_event =
    AppStart "u16 option" "u16 option" "server_info_data option" bool bool "session_step \<Rightarrow> bool" control_client
  | AppStop
  | AppInput input_event
  | AppIdr

definition app_step :: "app_event \<Rightarrow> stream_state \<Rightarrow> stream_state" where
  "app_step e s =
     (case e of
        AppStart bv ba info launched allow ok ctl \<Rightarrow> snd (stream_start bv ba info launched allow ok ctl s)
      | AppStop \<Rightarrow> stream_stop s
      | AppInput ev \<Rightarrow> s\<lparr>st_client := lib_send_input ev (st_client s)\<rparr>
      | AppIdr \<Rightarrow> s\<lparr>st_client := lib_request_idr (st_client s)\<rparr>)"

definition app_new :: stream_state where
  "app_new = \<lparr>st_video_port = None, st_audio_port = None, st_client = client_state_new\<rparr>"

lemma app_inv_new: "app_inv app_new"
  by (simp add: app_inv_def app_new_def client_state_new_def)

lemma enqueue_alive [simp]: "cc_alive (enqueue m c) = cc_alive c"
  by (simp add: enqueue_def)

interpretation app: step_invariant "\<lambda>e s. Some (app_step e s)" app_inv
proof
  fix s e assume "app_inv s"
  then show "\<exists>s'. Some (app_step e s) = Some s' \<and> app_inv s'"
    by (cases e)
      (simp_all add: app_step_def app_inv_start app_inv_stop, auto simp: app_inv_def lib_send_input_def lib_request_idr_def send_input_def request_idr_def)
qed

definition silent :: "input_event \<Rightarrow> client_state \<Rightarrow> bool" where
  "silent ev c \<longleftrightarrow> \<not> cs_session c \<and> lib_send_input ev c = c \<and> lib_request_idr c = c"

lemma silentI:
  assumes "app_inv s" "\<not> cs_session (st_client s)"
  shows "silent ev (st_client s)"
  using assms
  by (cases "cs_control (st_client s)")
    (simp_all add: app_inv_def silent_def lib_send_input_def lib_request_idr_def send_input_def request_idr_def enqueue_def)

lemma ensure_server_ports:
  "st_video_port s \<noteq> None \<Longrightarrow> ensure_server bv ba s = (True, s)"
  by (simp add: ensure_server_def)

lemma stream_start_fails: "stream_start bv ba info launched allow ok ctl s = (False, s') \<Longrightarrow> \<not> cs_session (st_client s')"
  using ensure_server_client[of bv ba "stream_stop s"]
  by (auto simp: stream_start_def start_stream_def stream_stop_def Let_def split: prod.splits bool.splits option.splits if_splits)

lemma stream_start_works:
  "stream_start bv ba info launched allow ok ctl s = (True, s') \<Longrightarrow> cs_control (st_client s') = Some ctl \<and> cs_session (st_client s')"
  by (auto simp: stream_start_def start_stream_def Let_def split: prod.splits bool.splits option.splits if_splits)

text \<open>
  C22: after a stop or a failed start the old session is dead. Whatever was started, stopped, typed and asked for before, from then on
  nothing that is typed or moved and no key-frame request reaches the old host, its queue stays as it is; and once the two local
  servers run they keep their ports.
\<close>

theorem stopped_stream_is_silent:
  assumes "s = fold app_step es app_new" "stream_start bv ba info launched allow ok ctl s = (r, s')"
  shows "(if r then cs_control (st_client s') = Some ctl \<and> cs_session (st_client s') else silent ev (st_client s'))
    \<and> silent ev (st_client (stream_stop s))
    \<and> (st_video_port s \<noteq> None \<longrightarrow> st_video_port s' = st_video_port s \<and> st_audio_port s' = st_audio_port s)"
proof -
  have inv: "app_inv s" using app.run_inv[OF app_inv_new, of es] assms(1) by (simp add: run_steps_total)
  then have "app_inv s'" using app_inv_start[OF inv, of bv ba info launched allow ok ctl] assms(2) by simp
  then have "if r then cs_control (st_client s') = Some ctl \<and> cs_session (st_client s') else silent ev (st_client s')"
    using assms(2) stream_start_works stream_start_fails silentI by (cases r) auto
  moreover have "silent ev (st_client (stream_stop s))"
    using silentI[OF app_inv_stop[OF inv]] by (simp add: stream_stop_def)
  moreover have "st_video_port s \<noteq> None \<Longrightarrow> st_video_port s' = st_video_port s \<and> st_audio_port s' = st_audio_port s"
    using assms(2) ensure_server_ports[of "stream_stop s" bv ba]
    by (auto simp: stream_start_def stream_stop_def start_stream_def Let_def split: prod.splits option.splits if_splits)
  ultimately show ?thesis by blast
qed

theorem stopped_stream_is_silent_witness:
  "let s = fold app_step [AppStart (Some 1) (Some 2) (Some sample_server) True False (\<lambda>_. True) control_client_new] app_new
   in cs_session (st_client s) \<and> silent (Scroll 120) (st_client (stream_stop s))"
proof -
  let ?es = "[AppStart (Some 1) (Some 2) (Some sample_server) True False (\<lambda>_. True) control_client_new]"
  have "cs_session (st_client (fold app_step ?es app_new))"
    by (simp add: app_step_def app_new_def stream_start_def ensure_server_def stream_stop_def start_stream_def session_steps_def Let_def)
  then show ?thesis using stopped_stream_is_silent[OF refl surjective_pairing, where es = ?es and ev = "Scroll 120"] by (simp add: Let_def)
qed

end
