(* ===== verification/Kmc_Mcp.thy ===== *)
theory Kmc_Mcp
  imports Kmc_Agent
begin

text \<open>
  The MCP server that exposes the hub to an AI (\<^verbatim>\<open>kmc-mcp/src/hub.rs\<close>, \<^verbatim>\<open>server.rs\<close>): its REST client with the
  token it renews, the tools on one and on all laptops, and the browser tools. The HTTP client is a parameter that acts on
  a state \<open>'w\<close>; the last section takes the hub of \<open>Kmc_Hub\<close> for it. Parsing and printing of JSON, of identifiers and lower case are parameters.
\<close>

section \<open>JSON values\<close>

datatype json = JNull | JBool bool | JNum int | JStr string | JArr "json list" | JObj "(string \<times> json) list"

definition jget :: "string \<Rightarrow> json \<Rightarrow> json option" where
  "jget k v = (case v of JObj kvs \<Rightarrow> map_of kvs k | _ \<Rightarrow> None)"

definition jstr :: "json \<Rightarrow> string option" where "jstr v = (case v of JStr s \<Rightarrow> Some s | _ \<Rightarrow> None)"
definition jarr :: "json \<Rightarrow> json list option" where "jarr v = (case v of JArr vs \<Rightarrow> Some vs | _ \<Rightarrow> None)"
definition jbool :: "json \<Rightarrow> bool option" where "jbool v = (case v of JBool b \<Rightarrow> Some b | _ \<Rightarrow> None)"
definition ju64 :: "json \<Rightarrow> nat option" where "ju64 v = (case v of JNum n \<Rightarrow> if 0 \<le> n then Some (nat n) else None | _ \<Rightarrow> None)"

definition jopt :: "json option \<Rightarrow> json" where "jopt v = (case v of Some x \<Rightarrow> x | None \<Rightarrow> JNull)"

record json_lib =
  jl_parse :: "string \<Rightarrow> json option"
  jl_show :: "json \<Rightarrow> string"
  jl_uuid :: "string \<Rightarrow> uuid option"
  jl_lower :: "string \<Rightarrow> string"

text \<open>\<^verbatim>\<open>chars().take(n)\<close> on UTF-8 text: a character is a byte that is no continuation byte, and the continuation bytes after it.\<close>

fun take_chars :: "nat \<Rightarrow> string \<Rightarrow> string" where
  "take_chars n [] = []"
| "take_chars n (c # cs) =
     (if 128 \<le> (of_char c :: nat) \<and> (of_char c :: nat) < 192 then c # take_chars n cs
      else case n of 0 \<Rightarrow> [] | Suc m \<Rightarrow> c # take_chars m cs)"

section \<open>The REST client\<close>

record mcp_client =
  mc_base_url :: string
  mc_username :: string
  mc_password :: string
  mc_token :: "token option"

definition client_from_env :: "(string \<rightharpoonup> string) \<Rightarrow> mcp_client option" where
  "client_from_env env =
     (case (env ''KMC_MCP_USER'', env ''KMC_MCP_PASSWORD'') of
        (Some u, Some p) \<Rightarrow>
          Some \<lparr>mc_base_url = rev (dropWhile (\<lambda>c. c = CHR ''/'') (rev (agent_hub_url env))), mc_username = u, mc_password = p,
                mc_token = None\<rparr>
      | _ \<Rightarrow> None)"

datatype mcp_error = LoginRequest | LoginStatus nat | LoginNoToken | CallRequest | CallStatus nat

type_synonym 'w post_login = "string \<Rightarrow> string \<Rightarrow> 'w \<Rightarrow> token option response option \<times> 'w"
type_synonym ('a, 'w) call = "token \<Rightarrow> 'w \<Rightarrow> 'a response option \<times> 'w"

definition mcp_login :: "'w post_login \<Rightarrow> mcp_client \<Rightarrow> 'w \<Rightarrow> (mcp_error + token) \<times> mcp_client \<times> 'w" where
  "mcp_login post c w =
     (case post (mc_username c) (mc_password c) w of
        (None, w1) \<Rightarrow> (Inl LoginRequest, c, w1)
      | (Some (Err code msg), w1) \<Rightarrow> (Inl (LoginStatus code), c, w1)
      | (Some (Ok_200 None), w1) \<Rightarrow> (Inl LoginNoToken, c, w1)
      | (Some (Ok_200 (Some t)), w1) \<Rightarrow> (Inr t, c\<lparr>mc_token := Some t\<rparr>, w1))"

definition current_token :: "'w post_login \<Rightarrow> mcp_client \<Rightarrow> 'w \<Rightarrow> (mcp_error + token) \<times> mcp_client \<times> 'w" where
  "current_token post c w = (case mc_token c of Some t \<Rightarrow> (Inr t, c, w) | None \<Rightarrow> mcp_login post c w)"

text \<open>\<^verbatim>\<open>for attempt in 0..2\<close>: the argument counts the attempts left; only the first 401 leads to a login.\<close>

fun attempt_call :: "'w post_login \<Rightarrow> ('a, 'w) call \<Rightarrow> nat \<Rightarrow> token \<Rightarrow> mcp_client \<Rightarrow> 'w \<Rightarrow> (mcp_error + 'a) \<times> mcp_client \<times> 'w" where
  "attempt_call post call 0 token c w = (Inl (CallStatus 401), c, w)"
| "attempt_call post call (Suc n) token c w =
     (case call token w of
        (None, w1) \<Rightarrow> (Inl CallRequest, c, w1)
      | (Some (Ok_200 x), w1) \<Rightarrow> (Inr x, c, w1)
      | (Some (Err code msg), w1) \<Rightarrow>
          if code = 401 \<and> n = 1 then
            (case mcp_login post c w1 of
               (Inl e, c2, w2) \<Rightarrow> (Inl e, c2, w2)
             | (Inr t, c2, w2) \<Rightarrow> attempt_call post call n t c2 w2)
          else (Inl (CallStatus code), c, w1))"

definition mcp_call :: "'w post_login \<Rightarrow> ('a, 'w) call \<Rightarrow> mcp_client \<Rightarrow> 'w \<Rightarrow> (mcp_error + 'a) \<times> mcp_client \<times> 'w" where
  "mcp_call post call c w =
     (case current_token post c w of
        (Inl e, c1, w1) \<Rightarrow> (Inl e, c1, w1)
      | (Inr t, c1, w1) \<Rightarrow> attempt_call post call 2 t c1 w1)"

section \<open>Tools on laptops\<close>

text \<open>The operations of the REST client that the tools use, with the client's token in the state.\<close>

record 'w rest =
  rs_agents :: "'w \<Rightarrow> (mcp_error + agent_view list) \<times> 'w"
  rs_run :: "uuid \<Rightarrow> command_kind option \<Rightarrow> string \<Rightarrow> bool \<Rightarrow> 'w \<Rightarrow> (mcp_error + command_result) \<times> 'w"

definition run_one_tool :: "json_lib \<Rightarrow> 'w rest \<Rightarrow> string \<Rightarrow> string \<Rightarrow> bool \<Rightarrow> 'w \<Rightarrow> (string + (mcp_error + command_result)) \<times> 'w" where
  "run_one_tool J r agent_id script destructive w =
     (case jl_uuid J agent_id of
        None \<Rightarrow> (Inl ''invalid agent_id'', w)
      | Some i \<Rightarrow> (case rs_run r i None script destructive w of (res, w1) \<Rightarrow> (Inr res, w1)))"

text \<open>
  \<^verbatim>\<open>run_powershell_all\<close>: the requests run at the same time and the hub serves them in some order, \<open>sched n\<close>, a permutation of the
  positions below \<open>n\<close>; \<^verbatim>\<open>join_all\<close> puts the answers back in the order of the laptops. A request and its repetition after a new
  login count as one step.
\<close>

fun run_sched ::
  "'w rest \<Rightarrow> string \<Rightarrow> bool \<Rightarrow> agent_view list \<Rightarrow> nat list \<Rightarrow> 'w \<Rightarrow> (nat \<times> (mcp_error + command_result)) list \<times> 'w" where
  "run_sched r script destructive agents [] w = ([], w)"
| "run_sched r script destructive agents (i # is) w =
     (case rs_run r (av_agent_id (agents ! i)) None script destructive w of
        (res, w1) \<Rightarrow> (case run_sched r script destructive agents is w1 of (rs, w2) \<Rightarrow> ((i, res) # rs, w2)))"

definition join_all :: "agent_view list \<Rightarrow> (nat \<times> 'b) list \<Rightarrow> (uuid \<times> string \<times> 'b) list" where
  "join_all agents rs = map (\<lambda>i. (av_agent_id (agents ! i), av_name (agents ! i), the (map_of rs i))) [0..<length agents]"

datatype run_all_report = NoneOnline | Results "(uuid \<times> string \<times> (mcp_error + command_result)) list"

definition run_all_tool :: "(nat \<Rightarrow> nat list) \<Rightarrow> 'w rest \<Rightarrow> string \<Rightarrow> bool \<Rightarrow> 'w \<Rightarrow> (mcp_error + run_all_report) \<times> 'w" where
  "run_all_tool sched r script destructive w =
     (case rs_agents r w of
        (Inl e, w1) \<Rightarrow> (Inl e, w1)
      | (Inr agents, w1) \<Rightarrow>
          let online = filter av_online agents
          in if online = [] then (Inr NoneOnline, w1)
             else (case run_sched r script destructive online (sched (length online)) w1 of
                     (rs, w2) \<Rightarrow> (Inr (Results (join_all online rs)), w2)))"

definition gui_kind :: "json_lib \<Rightarrow> string \<Rightarrow> json \<Rightarrow> command_kind" where
  "gui_kind J tool args = Gui tool (jl_show J (if args = JNull then JObj [] else args))"

definition shown_output :: "command_result \<Rightarrow> string" where
  "shown_output res = (if cres_stdout res = [] then cres_stderr res else cres_stdout res)"

definition gui_action_tool ::
  "json_lib \<Rightarrow> 'w rest \<Rightarrow> string \<Rightarrow> string \<Rightarrow> json \<Rightarrow> 'w \<Rightarrow> (string + (mcp_error + string)) \<times> 'w" where
  "gui_action_tool J r agent_id tool args w =
     (case jl_uuid J agent_id of
        None \<Rightarrow> (Inl ''invalid agent_id'', w)
      | Some i \<Rightarrow> (case rs_run r i (Some (gui_kind J tool args)) [] False w of
            (Inr x, w1) \<Rightarrow> (Inr (Inr (shown_output x)), w1)
          | (Inl e, w1) \<Rightarrow> (Inr (Inl e), w1)))"

definition step_failed :: "string \<Rightarrow> bool" where
  "step_failed out \<longleftrightarrow> contains ([CHR 0x22] @ ''isError'' @ [CHR 0x22]) out \<or> contains ([CHR 0x22] @ ''refused'' @ [CHR 0x22]) out
     \<or> contains ''background_unavailable'' out"

text \<open>A step's report: its number, its tool, whether it succeeded, and the output or the error.\<close>

fun gui_steps ::
  "json_lib \<Rightarrow> 'w rest \<Rightarrow> uuid \<Rightarrow> bool \<Rightarrow> nat \<Rightarrow> (string \<times> json) list \<Rightarrow> 'w \<Rightarrow> (nat \<times> string \<times> bool \<times> (mcp_error + string)) list \<times> 'w" where
  "gui_steps J r a cont k [] w = ([], w)"
| "gui_steps J r a cont k ((tool, args) # ss) w =
     (case rs_run r a (Some (gui_kind J tool args)) [] False w of
        (res, w1) \<Rightarrow>
          let body = (case res of Inr x \<Rightarrow> Inr (shown_output x) | Inl e \<Rightarrow> Inl e);
              ok = (case body of Inr out \<Rightarrow> \<not> step_failed out | Inl e \<Rightarrow> False)
          in if \<not> ok \<and> \<not> cont then ([(k, tool, ok, body)], w1)
             else (case gui_steps J r a cont (Suc k) ss w1 of (rest', w2) \<Rightarrow> ((k, tool, ok, body) # rest', w2)))"

definition gui_sequence_tool ::
  "json_lib \<Rightarrow> 'w rest \<Rightarrow> string \<Rightarrow> (string \<times> json) list \<Rightarrow> bool \<Rightarrow> 'w \<Rightarrow> (string + (nat \<times> string \<times> bool \<times> (mcp_error + string)) list) \<times> 'w" where
  "gui_sequence_tool J r agent_id steps continue_on_error w =
     (case jl_uuid J agent_id of
        None \<Rightarrow> (Inl ''invalid agent_id'', w)
      | Some i \<Rightarrow> (case gui_steps J r i continue_on_error 0 steps w of (rs, w1) \<Rightarrow> (Inr rs, w1)))"

section \<open>Browser tools\<close>

text \<open>One element of a snapshot, and the first one whose name contains the query and that may be typed into if asked for.\<close>

definition element_name :: "json \<Rightarrow> string" where
  "element_name e = (case Option.bind (jget ''name'' e) jstr of Some n \<Rightarrow> n | None \<Rightarrow> [])"

definition typeable :: "json \<Rightarrow> bool" where
  "typeable e \<longleftrightarrow>
     (case Option.bind (jget ''actions'' e) jarr of Some as \<Rightarrow> list_ex (\<lambda>x. jstr x = Some ''type'') as | None \<Rightarrow> False)"

fun find_in :: "json_lib \<Rightarrow> string \<Rightarrow> bool \<Rightarrow> json list \<Rightarrow> (string \<times> string) option" where
  "find_in J q editable [] = None"
| "find_in J q editable (e # es) =
     (if editable \<and> \<not> typeable e then find_in J q editable es
      else if q = [] \<or> contains q (jl_lower J (element_name e))
      then (case Option.bind (jget ''ref'' e) jstr of
              Some rf \<Rightarrow> Some (rf, element_name e)
            | None \<Rightarrow> find_in J q editable es)
      else find_in J q editable es)"

definition find_ref :: "json_lib \<Rightarrow> json \<Rightarrow> string \<Rightarrow> bool \<Rightarrow> (string \<times> string) option" where
  "find_ref J snap query editable =
     Option.bind (Option.bind (jget ''refs'' snap) jarr) (find_in J (jl_lower J query) editable)"

definition compact_snapshot :: "json \<Rightarrow> json" where
  "compact_snapshot snap =
     (let page = (case jget ''page'' snap of Some p \<Rightarrow> p | None \<Rightarrow> JObj []);
          elements = (case Option.bind (jget ''refs'' snap) jarr of
              Some es \<Rightarrow> map (\<lambda>e. JObj [(''ref'', jopt (jget ''ref'' e)), (''role'', jopt (jget ''role'' e)), (''name'', jopt (jget ''name'' e))]) es
            | None \<Rightarrow> []);
          outline = take_chars 1500 (case Option.bind (jget ''outline'' snap) jstr of Some s \<Rightarrow> s | None \<Rightarrow> [])
      in JObj [(''page'', page), (''elements'', JArr elements), (''outline'', JStr outline)])"

type_synonym ('a, 'w) tool_m = "'w \<Rightarrow> (string + 'a) \<times> 'w"

definition tm_return :: "'a \<Rightarrow> ('a, 'w) tool_m" where "tm_return x w = (Inr x, w)"
definition tm_lift :: "string \<Rightarrow> 'a option \<Rightarrow> ('a, 'w) tool_m" where
  "tm_lift e x w = (case x of Some y \<Rightarrow> (Inr y, w) | None \<Rightarrow> (Inl e, w))"
definition tm_bind :: "('a, 'w) tool_m \<Rightarrow> ('a \<Rightarrow> ('b, 'w) tool_m) \<Rightarrow> ('b, 'w) tool_m" where
  "tm_bind m f w = (case m w of (Inl e, w1) \<Rightarrow> (Inl e, w1) | (Inr x, w1) \<Rightarrow> f x w1)"
definition tm_context :: "string \<Rightarrow> ('a, 'w) tool_m \<Rightarrow> ('a, 'w) tool_m" where
  "tm_context p m w = (case m w of (Inl e, w1) \<Rightarrow> (Inl (p @ e), w1) | (Inr x, w1) \<Rightarrow> (Inr x, w1))"

text \<open>\<^verbatim>\<open>gui_json\<close>: a GUI command whose output is parsed.\<close>

definition gui_json :: "json_lib \<Rightarrow> 'w rest \<Rightarrow> uuid \<Rightarrow> string \<Rightarrow> json \<Rightarrow> (json, 'w) tool_m" where
  "gui_json J r a tool args w =
     (case rs_run r a (Some (Gui tool (jl_show J args))) [] False w of
        (Inl e, w1) \<Rightarrow> (Inl ''request failed'', w1)
      | (Inr res, w1) \<Rightarrow>
          let out = (if trim (cres_stdout res) = [] then cres_stderr res else cres_stdout res)
          in case jl_parse J (trim out) of Some v \<Rightarrow> (Inr v, w1) | None \<Rightarrow> (Inl (''cua json parse: '' @ take_chars 300 out), w1))"

definition WEB_SESSION :: string where "WEB_SESSION = ''kmc-web''"

definition active_tab :: "json list \<Rightarrow> json option" where
  "active_tab tabs =
     (case find (\<lambda>t. Option.bind (jget ''active'' t) jbool = Some True) tabs of
        Some t \<Rightarrow> Some t
      | None \<Rightarrow> (case tabs of [] \<Rightarrow> None | t # _ \<Rightarrow> Some t))"

definition web_ctx :: "json_lib \<Rightarrow> 'w rest \<Rightarrow> uuid \<Rightarrow> (string \<times> string, 'w) tool_m" where
  "web_ctx J r a w =
     (let (_, w0) = gui_json J r a ''start_session'' (JObj [(''session'', JStr WEB_SESSION), (''capture_scope'', JStr ''auto'')]) w
      in tm_bind (gui_json J r a ''kmc_ensure_browser'' (JObj [])) (\<lambda>ens.
           case Option.bind (jget ''error'' ens) jstr of
             Some e \<Rightarrow> (\<lambda>w. (Inl (''ensure browser: '' @ e), w))
           | None \<Rightarrow>
               tm_bind (tm_lift ''no pid from ensure'' (Option.bind (jget ''pid'' ens) ju64)) (\<lambda>pid.
               tm_bind (tm_lift ''browser window not visible yet; retry web_open'' (Option.bind (jget ''window_id'' ens) ju64)) (\<lambda>wid.
               tm_bind (gui_json J r a ''get_browser_state''
                   (JObj [(''pid'', JNum (int pid)), (''window_id'', JNum (int wid)), (''session'', JStr WEB_SESSION)])) (\<lambda>st.
               tm_bind (tm_lift ''no target_id'' (Option.bind (jget ''target_id'' st) jstr)) (\<lambda>target.
               tm_bind (tm_lift ''no tabs'' (Option.bind (jget ''tabs'' st) jarr)) (\<lambda>tabs.
               tm_bind (tm_lift ''no tab_id'' (Option.bind (Option.bind (active_tab tabs) (jget ''tab_id'')) jstr)) (\<lambda>tab.
               tm_return (target, tab)))))))) w0)"

definition web_snapshot :: "json_lib \<Rightarrow> 'w rest \<Rightarrow> uuid \<Rightarrow> string \<times> string \<Rightarrow> (json, 'w) tool_m" where
  "web_snapshot J r a tt =
     gui_json J r a ''get_browser_state''
       (JObj [(''target_id'', JStr (fst tt)), (''tab_id'', JStr (snd tt)), (''snapshot_format'', JStr ''semantic_v2''),
              (''session'', JStr WEB_SESSION)])"

definition web_args :: "string \<times> string \<Rightarrow> (string \<times> json) list \<Rightarrow> json" where
  "web_args tt extra = JObj ([(''target_id'', JStr (fst tt)), (''tab_id'', JStr (snd tt))] @ extra @ [(''session'', JStr WEB_SESSION)])"

definition web_open :: "json_lib \<Rightarrow> 'w rest \<Rightarrow> string \<Rightarrow> string \<Rightarrow> (json, 'w) tool_m" where
  "web_open J r agent_id url =
     tm_bind (tm_lift ''invalid agent_id'' (jl_uuid J agent_id)) (\<lambda>a.
     tm_bind (web_ctx J r a) (\<lambda>tt.
     tm_bind (tm_context ''navigate: '' (gui_json J r a ''browser_navigate'' (web_args tt [(''url'', JStr url)]))) (\<lambda>_.
     tm_bind (web_ctx J r a) (\<lambda>tt2.
     tm_bind (tm_context ''snapshot: '' (web_snapshot J r a tt2)) (\<lambda>snap.
     tm_return (compact_snapshot snap))))))"

definition web_read :: "json_lib \<Rightarrow> 'w rest \<Rightarrow> string \<Rightarrow> (json, 'w) tool_m" where
  "web_read J r agent_id =
     tm_bind (tm_lift ''invalid agent_id'' (jl_uuid J agent_id)) (\<lambda>a.
     tm_bind (web_ctx J r a) (\<lambda>tt.
     tm_bind (tm_context ''snapshot: '' (web_snapshot J r a tt)) (\<lambda>snap.
     tm_return (compact_snapshot snap))))"

definition web_after :: "json_lib \<Rightarrow> 'w rest \<Rightarrow> uuid \<Rightarrow> (json, 'w) tool_m" where
  "web_after J r a w =
     (case tm_bind (web_ctx J r a) (web_snapshot J r a) w of
        (Inr snap, w1) \<Rightarrow> (Inr (compact_snapshot snap), w1)
      | (Inl e, w1) \<Rightarrow> (Inr JNull, w1))"

definition web_click :: "json_lib \<Rightarrow> 'w rest \<Rightarrow> string \<Rightarrow> string \<Rightarrow> (string \<times> json, 'w) tool_m" where
  "web_click J r agent_id txt =
     tm_bind (tm_lift ''invalid agent_id'' (jl_uuid J agent_id)) (\<lambda>a.
     tm_bind (web_ctx J r a) (\<lambda>tt.
     tm_bind (tm_context ''snapshot: '' (web_snapshot J r a tt)) (\<lambda>snap.
     tm_bind (tm_lift ''no element matching'' (find_ref J snap txt False)) (\<lambda>(rf, name).
     tm_bind (tm_context ''click: '' (gui_json J r a ''browser_click'' (web_args tt [(''ref'', JStr rf)]))) (\<lambda>_.
     tm_bind (web_after J r a) (\<lambda>page.
     tm_return (name, page)))))))"

definition web_type :: "json_lib \<Rightarrow> 'w rest \<Rightarrow> string \<Rightarrow> string \<Rightarrow> string option \<Rightarrow> (string \<times> string, 'w) tool_m" where
  "web_type J r agent_id txt field =
     tm_bind (tm_lift ''invalid agent_id'' (jl_uuid J agent_id)) (\<lambda>a.
     tm_bind (web_ctx J r a) (\<lambda>tt.
     tm_bind (tm_context ''snapshot: '' (web_snapshot J r a tt)) (\<lambda>snap.
     tm_bind (tm_lift ''no typeable element on page''
         (case find_ref J snap (case field of Some f \<Rightarrow> f | None \<Rightarrow> []) True of
            Some hit \<Rightarrow> Some hit
          | None \<Rightarrow> find_ref J snap [] True)) (\<lambda>(rf, name).
     tm_bind (tm_context ''type: '' (gui_json J r a ''browser_type'' (web_args tt [(''ref'', JStr rf), (''text'', JStr txt)]))) (\<lambda>_.
     tm_return (name, txt))))))"

section \<open>The token is renewed\<close>

text \<open>The hub behind the REST client: the login route and the list of agents under a bearer token.\<close>

definition hub_post :: "(string \<Rightarrow> string \<Rightarrow> bool) \<Rightarrow> token \<Rightarrow> hub post_login" where
  "hub_post vf fresh u p h =
     (case login vf fresh u p h of
        (Ok_200 t, h1) \<Rightarrow> (Some (Ok_200 (Some t)), h1)
      | (Err code msg, h1) \<Rightarrow> (Some (Err code msg), h1))"

definition hub_get_agents :: "(agent_view list, hub) call" where
  "hub_get_agents t h = (Some (list_agents (Some (''Bearer '' @ t)) h), h)"

lemma login_keeps_agents:
  "hub_laptops (snd (login vf t u p h)) = hub_laptops h" "hub_online (snd (login vf t u p h)) = hub_online h"
  "hub_sessions (snd (login vf t u p h)) = hub_sessions h"
  by (simp_all add: login_def split: option.split)

lemma view_after_login: "build_agent_view a (snd (login vf t u p h)) = build_agent_view a h"
  unfolding build_agent_view_def login_keeps_agents ..

lemma snapshot_after_login [simp]: "hub_snapshot (snd (login vf t u p h)) = hub_snapshot h"
  unfolding hub_snapshot_def view_after_login login_keeps_agents ..

lemma mcp_login_hub:
  "mcp_login (hub_post vf t) c h =
     (if verify_admin vf (mc_username c) (mc_password c) (hub_admins h) = None then (Inl (LoginStatus 401), c, h)
      else (Inr t, c\<lparr>mc_token := Some t\<rparr>, snd (login vf t (mc_username c) (mc_password c) h)))"
  by (auto simp: mcp_login_def hub_post_def login_def split: option.split)

lemma get_agents_hub:
  "hub_get_agents t h = (Some (if admin_auth (Some (''Bearer '' @ t)) h = None then Err 401 ''invalid or missing admin token'' else Ok_200 (hub_snapshot h)), h)"
  by (auto simp: hub_get_agents_def list_agents_def)

lemma attempt_accepted:
  assumes "admin_auth (Some (''Bearer '' @ t)) h \<noteq> None" "0 < n"
  shows "attempt_call post hub_get_agents n t c h = (Inr (hub_snapshot h), c, h)"
  using assms by (cases n) (auto simp: get_agents_hub)

text \<open>
  C24: the MCP server needs no restart when the hub has forgotten its token. Whatever token it holds, none or an old one, one call lists the
  laptops: with a token the hub knows nothing changes, otherwise one login with the right password stores a new token and the same
  call succeeds with it; with a wrong password the call ends with the hub's 401 and changes nothing.
\<close>

theorem mcp_recovers:
  assumes "\<forall>c\<in>set t. \<not> is_space c"
  shows "mcp_call (hub_post vf t) hub_get_agents c h =
     (let known = (case mc_token c of Some t0 \<Rightarrow> admin_auth (Some (''Bearer '' @ t0)) h \<noteq> None | None \<Rightarrow> False)
      in if known then (Inr (hub_snapshot h), c, h)
         else if verify_admin vf (mc_username c) (mc_password c) (hub_admins h) = None then (Inl (LoginStatus 401), c, h)
         else (Inr (hub_snapshot h), c\<lparr>mc_token := Some t\<rparr>, snd (login vf t (mc_username c) (mc_password c) h)))"
proof -
  let ?h1 = "snd (login vf t (mc_username c) (mc_password c) h)"
  have fresh: "admin_auth (Some (''Bearer '' @ t)) ?h1 \<noteq> None"
    if "verify_admin vf (mc_username c) (mc_password c) (hub_admins h) \<noteq> None"
    using login_auth_roundtrip[OF assms, of vf "mc_username c" "mc_password c" h] that by auto
  show ?thesis
  proof (cases "mc_token c")
    case None
    then show ?thesis using fresh by (auto simp: mcp_call_def current_token_def mcp_login_hub attempt_accepted)
  next
    case (Some t0)
    show ?thesis
    proof (cases "admin_auth (Some (''Bearer '' @ t0)) h = None")
      case True
      then show ?thesis using Some fresh
        by (cases "verify_admin vf (mc_username c) (mc_password c) (hub_admins h)") (auto simp: mcp_call_def current_token_def numeral_2_eq_2 get_agents_hub mcp_login_hub)
    next
      case False
      then show ?thesis using Some by (auto simp: mcp_call_def current_token_def attempt_accepted)
    qed
  qed
qed

theorem mcp_recovers_witness:
  "let h = hub_new [\<lparr>lt_agent_id = 7, lt_mac = ''aa'', lt_name = ''student-01'', lt_provision_token = ''tok''\<rparr>]
             [\<lparr>ad_id = 1, ad_username = ''kim'', ad_password_hash = ''pw''\<rparr>];
       c = \<lparr>mc_base_url = ''http://hub'', mc_username = ''kim'', mc_password = ''pw'', mc_token = Some ''old''\<rparr>
   in fst (mcp_call (hub_post (\<lambda>p h. p = h) ''new'') hub_get_agents c h) = Inr (hub_snapshot h)
      \<and> map av_agent_id (hub_snapshot h) = [7]"
proof -
  let ?h = "hub_new [\<lparr>lt_agent_id = 7, lt_mac = ''aa'', lt_name = ''student-01'', lt_provision_token = ''tok''\<rparr>]
             [\<lparr>ad_id = 1, ad_username = ''kim'', ad_password_hash = ''pw''\<rparr>]"
  let ?c = "\<lparr>mc_base_url = ''http://hub'', mc_username = ''kim'', mc_password = ''pw'', mc_token = Some ''old''\<rparr>"
  have sp: "\<forall>c\<in>set ''new''. \<not> is_space c" by code_simp
  have old: "admin_auth (Some (''Bearer '' @ ''old'')) ?h = None" by code_simp
  have pw: "verify_admin (\<lambda>p h. p = h) (mc_username ?c) (mc_password ?c) (hub_admins ?h) = Some 1" by code_simp
  have ids: "map av_agent_id (hub_snapshot ?h) = [7]" by code_simp
  show ?thesis using mcp_recovers[OF sp, of "\<lambda>p h. p = h" ?c ?h] old pw ids by (simp add: Let_def)
qed

section \<open>What the tools ask the laptops to do\<close>

text \<open>A REST client that also records its requests.\<close>

definition traced :: "'w rest \<Rightarrow> ('w \<times> (uuid \<times> command_kind option \<times> string) list) rest" where
  "traced r =
     \<lparr>rs_agents = (\<lambda>(w, tr). case rs_agents r w of (x, w1) \<Rightarrow> (x, w1, tr)),
      rs_run = (\<lambda>a k s d (w, tr). case rs_run r a k s d w of (x, w1) \<Rightarrow> (x, w1, tr @ [(a, k, s)]))\<rparr>"

lemma traced_run: "rs_run (traced r) a k s d (w, tr) = (fst (rs_run r a k s d w), snd (rs_run r a k s d w), tr @ [(a, k, s)])"
  by (simp add: traced_def split: prod.split)

lemma traced_agents: "rs_agents (traced r) (w, tr) = (fst (rs_agents r w), snd (rs_agents r w), tr)"
  by (simp add: traced_def split: prod.split)

definition step_ok :: "nat \<times> string \<times> bool \<times> (mcp_error + string) \<Rightarrow> bool" where
  "step_ok x = fst (snd (snd x))"

text \<open>The reports of a sequence: one for each step that ran, in order, and a stop after the first failure unless it may go on.\<close>

definition sequence_reports :: "bool \<Rightarrow> nat \<Rightarrow> (string \<times> json) list \<Rightarrow> (nat \<times> string \<times> bool \<times> (mcp_error + string)) list \<Rightarrow> bool" where
  "sequence_reports cont k steps rs \<longleftrightarrow>
     map (\<lambda>x. (fst x, fst (snd x))) rs = zip [k..<k + length rs] (map fst (take (length rs) steps))
     \<and> length rs \<le> length steps
     \<and> (\<forall>x\<in>set rs. step_ok x = (case snd (snd (snd x)) of Inr out \<Rightarrow> \<not> step_failed out | Inl e \<Rightarrow> False))
     \<and> (if cont then length rs = length steps
        else list_all step_ok (butlast rs) \<and> (length rs = length steps \<or> (rs \<noteq> [] \<and> \<not> step_ok (last rs))))"

lemma sequence_reports_step:
  assumes "sequence_reports cont (Suc k) ss rs" "ok = (case body of Inr out \<Rightarrow> \<not> step_failed out | Inl e \<Rightarrow> False)" "ok \<or> cont"
  shows "sequence_reports cont k ((tool, args) # ss) ((k, tool, ok, body) # rs)"
  using assms by (cases rs) (auto simp: sequence_reports_def step_ok_def upt_conv_Cons[of k] simp del: upt_Suc)

lemma gui_steps_traced:
  "\<exists>rs w'. gui_steps J (traced r) a cont k steps (w, tr) =
        (rs, w', tr @ map (\<lambda>(tool, args). (a, Some (gui_kind J tool args), [])) (take (length rs) steps))
      \<and> sequence_reports cont k steps rs"
proof (induction steps arbitrary: k w tr)
  case Nil
  then show ?case by (simp add: sequence_reports_def)
next
  case (Cons s ss)
  obtain tool args where s: "s = (tool, args)" by (cases s)
  obtain res w1 where run: "rs_run r a (Some (gui_kind J tool args)) [] False w = (res, w1)" by fastforce
  define body where "body = (case res of Inr x \<Rightarrow> Inr (shown_output x) | Inl e \<Rightarrow> Inl e)"
  define ok where "ok = (case body of Inr out \<Rightarrow> \<not> step_failed out | Inl e \<Rightarrow> False)"
  show ?case
  proof (cases "ok \<or> cont")
    case True
    obtain rs w' where rest: "gui_steps J (traced r) a cont (Suc k) ss (w1, tr @ [(a, Some (gui_kind J tool args), [])]) =
        (rs, w', (tr @ [(a, Some (gui_kind J tool args), [])]) @ map (\<lambda>(tool, args). (a, Some (gui_kind J tool args), [])) (take (length rs) ss))"
      and shape: "sequence_reports cont (Suc k) ss rs"
      using Cons.IH by blast
    show ?thesis
      using True rest sequence_reports_step[OF shape ok_def True]
      by (auto simp: s traced_run run Let_def simp flip: body_def ok_def)
  next
    case False
    then show ?thesis
      by (auto simp: s traced_run run Let_def sequence_reports_def step_ok_def ok_def[symmetric] simp flip: body_def)
  qed
qed

text \<open>
  A sequence of GUI steps stops at its first failure. The laptop is asked exactly for the steps that are reported, in their order; every
  report is right about failure, which is an error of the call or a failure in cua-driver's output; without permission to go on
  every reported step but the last succeeded, and steps are left out only when the last one failed; with permission none is left out.
\<close>

theorem gui_sequence_stops:
  "case gui_sequence_tool J (traced r) agent_id steps cont (w, []) of
     (Inl e, w', tr) \<Rightarrow> jl_uuid J agent_id = None \<and> w' = w \<and> tr = []
   | (Inr rs, w', tr) \<Rightarrow>
       tr = map (\<lambda>(tool, args). (the (jl_uuid J agent_id), Some (gui_kind J tool args), [])) (take (length rs) steps)
       \<and> map (\<lambda>x. (fst x, fst (snd x))) rs = zip [0..<length rs] (map fst (take (length rs) steps))
       \<and> list_all (\<lambda>x. step_ok x = (case snd (snd (snd x)) of Inr out \<Rightarrow> \<not> step_failed out | Inl e \<Rightarrow> False)) rs
       \<and> (if cont then length rs = length steps
          else list_all step_ok (butlast rs) \<and> (length rs = length steps \<or> (rs \<noteq> [] \<and> \<not> step_ok (last rs))))"
proof (cases "jl_uuid J agent_id")
  case None
  then show ?thesis by (simp add: gui_sequence_tool_def)
next
  case (Some a)
  obtain rs w' where "gui_steps J (traced r) a cont 0 steps (w, []) =
        (rs, w', [] @ map (\<lambda>(tool, args). (a, Some (gui_kind J tool args), [])) (take (length rs) steps))"
      and "sequence_reports cont 0 steps rs"
    using gui_steps_traced[of J r a cont 0 steps w "[]"] by blast
  then show ?thesis using Some
    by (auto simp: gui_sequence_tool_def sequence_reports_def list_all_iff case_prod_unfold)
qed

lemma run_sched_traced:
  "\<exists>rs w'. run_sched (traced r) s d agents is (w, tr) = (rs, w', tr @ map (\<lambda>i. (av_agent_id (agents ! i), None, s)) is) \<and> map fst rs = is"
proof (induction "is" arbitrary: w tr)
  case (Cons i "is")
  obtain rs w' where "run_sched (traced r) s d agents is (snd (rs_run r (av_agent_id (agents ! i)) None s d w), tr @ [(av_agent_id (agents ! i), None, s)]) =
      (rs, w', (tr @ [(av_agent_id (agents ! i), None, s)]) @ map (\<lambda>i. (av_agent_id (agents ! i), None, s)) is)" "map fst rs = is"
    using Cons.IH by blast
  then show ?case by (simp add: traced_run)
qed simp

text \<open>
  A command for all laptops reaches each online laptop once and no other, in whatever order the requests are served, and the report names them
  in the order of the list.
\<close>

theorem run_all_reaches_online:
  assumes "rs_agents r w = (Inr agents, w1)" "\<And>n. mset (sched n) = mset [0..<n]" "list_ex av_online agents"
  shows "\<exists>rs w' tr. run_all_tool sched (traced r) s d (w, []) = (Inr (Results rs), w', tr)
     \<and> map (\<lambda>(a, n, _). (a, n)) rs = map (\<lambda>v. (av_agent_id v, av_name v)) (filter av_online agents)
     \<and> mset tr = mset (map (\<lambda>v. (av_agent_id v, None, s)) (filter av_online agents))"
proof -
  let ?on = "filter av_online agents"
  obtain rs w' where run: "run_sched (traced r) s d ?on (sched (length ?on)) (w1, []) =
      (rs, w', map (\<lambda>i. (av_agent_id (?on ! i), None, s)) (sched (length ?on)))"
    using run_sched_traced[of r s d ?on "sched (length ?on)" w1 "[]"] by auto
  have ne: "?on \<noteq> []" using assms(3) by (auto simp: list_ex_iff filter_empty_conv)
  have nth: "map (\<lambda>i. f (?on ! i)) [0..<length ?on] = map f ?on" for f :: "agent_view \<Rightarrow> 'z"
    by (rule nth_equalityI) simp_all
  have "mset (map (\<lambda>i. (av_agent_id (?on ! i), None, s)) (sched (length ?on))) = image_mset (\<lambda>i. (av_agent_id (?on ! i), None, s)) (mset [0..<length ?on])"
    by (simp add: assms(2) del: upt_Suc mset_upt)
  also have "\<dots> = mset (map (\<lambda>v. (av_agent_id v, None, s)) ?on)"
    by (simp add: nth[of "\<lambda>v. (av_agent_id v, None, s)", symmetric] del: upt_Suc mset_upt)
  finally have "mset (map (\<lambda>i. (av_agent_id (?on ! i), None, s)) (sched (length ?on))) = mset (map (\<lambda>v. (av_agent_id v, None, s)) ?on)" .
  moreover have "map (\<lambda>(a, n, _). (a, n)) (join_all ?on rs) = map (\<lambda>v. (av_agent_id v, av_name v)) ?on"
    by (simp add: join_all_def nth[of "\<lambda>v. (av_agent_id v, av_name v)"] comp_def del: upt_Suc)
  ultimately show ?thesis
    using run ne by (simp add: run_all_tool_def traced_agents assms(1) Let_def)
qed

text \<open>What a search in a snapshot returns is an element of it that matches.\<close>

lemma find_in_sound:
  "find_in J q editable es = Some (rf, name) \<Longrightarrow>
     \<exists>e\<in>set es. Option.bind (jget ''ref'' e) jstr = Some rf \<and> element_name e = name \<and> (editable \<longrightarrow> typeable e)
        \<and> (q = [] \<or> contains q (jl_lower J name))"
  by (induction es) (auto split: if_splits option.splits)

end
